(* ===== verification/Prelude.thy ===== *)
theory Prelude
  imports Main "HOL-Library.Word" "HOL-Library.AList" "HOL-Library.Multiset"
begin

text \<open>
  Shared vocabulary of the development: Rust's fixed-width integers, half-open ranges,
  the panics of the code as error values, and the standard-library containers
  (\<open>HashMap\<close>, \<open>BTreeMap\<close>, \<open>VecDeque\<close>, slices) the components use.

  Conventions.
  \<^item> Arithmetic on the machine types wraps around, as in the \<^verbatim>\<open>cargo build --release\<close>
    builds the README describes; no profile of the workspace turns overflow checks on.
  \<^item> \<open>usize\<close> is 64 bits wide. Lengths of lists stay \<open>nat\<close> until the source
    casts or stores them.
  \<^item> Every \<open>unwrap\<close>, \<open>expect\<close>, \<open>assert!\<close>, \<open>todo!\<close> and out-of-range
    index is a value \<open>Inl\<close> of the result type.
  \<^item> A \<open>HashMap\<close> is an association list with distinct keys. The position of an entry
    stands for its place in the (unspecified) iteration order of Rust; invariants never
    constrain that order, so statements about every well-formed map cover every order.
\<close>

section \<open>Machine integers and ranges\<close>

type_synonym u8 = "8 word"
type_synonym u16 = "16 word"
type_synonym u32 = "32 word"
type_synonym u64 = "64 word"
type_synonym usize = "64 word"
type_synonym bytes = "8 word list"

named_theorems hm_simps "look-up equations of the containers"
named_theorems res_simps "equations of the panic monad"

record u32_range =
  rstart :: u32
  rend :: u32

definition range_contains :: "u32_range \<Rightarrow> u32 \<Rightarrow> bool" where
  "range_contains r x \<longleftrightarrow> rstart r \<le> x \<and> x < rend r"

definition range_list :: "u32_range \<Rightarrow> nat list" where
  "range_list r = [unat (rstart r) ..< unat (rend r)]"

definition mk_range :: "u32 \<Rightarrow> u32 \<Rightarrow> u32_range" where
  "mk_range a b = \<lparr>rstart = a, rend = b\<rparr>"

lemma mk_range_sel [simp]: "rstart (mk_range a b) = a" "rend (mk_range a b) = b"
  by (simp_all add: mk_range_def)

lemma range_contains_unat:
  "range_contains r x \<longleftrightarrow> unat (rstart r) \<le> unat x \<and> unat x < unat (rend r)"
  by (simp add: range_contains_def word_le_nat_alt word_less_nat_alt)

lemma range_contains_list: "range_contains r x \<longleftrightarrow> unat x \<in> set (range_list r)"
  by (simp add: range_contains_unat range_list_def)

lemma unat_u32_of_nat: "n < 2 ^ 32 \<Longrightarrow> unat (word_of_nat n :: u32) = n"
  by (simp add: unat_of_nat)

lemma unat_u16_of_nat: "n < 2 ^ 16 \<Longrightarrow> unat (word_of_nat n :: u16) = n"
  by (simp add: unat_of_nat)

lemma unat_u64_of_nat: "n < 2 ^ 64 \<Longrightarrow> unat (word_of_nat n :: u64) = n"
  by (simp add: unat_of_nat)

lemma upt_split: "a \<le> b \<Longrightarrow> b \<le> c \<Longrightarrow> [a ..< b] @ [b ..< c] = [a ..< c]"
  using upt_add_eq_append[of a b "c - b"] by simp

lemma unat_add_no_wrap:
  fixes a b :: "'a::len word"
  assumes "unat a + unat b < 2 ^ LENGTH('a)"
  shows "unat (a + b) = unat a + unat b"
  using assms by (simp add: unat_word_ariths)

lemma unat_ucast_u32_u64: "unat (ucast (x :: u32) :: u64) = unat x"
  by (simp add: unsigned_ucast_eq take_bit_nat_eq_self_iff less_le_trans[OF unsigned_less])

section \<open>Panics as values\<close>

datatype panic =
    IndexOutOfBounds
  | UnwrapOnNone
  | UnwrapOnErr
  | ExpectFailed string
  | AssertFailed
  | TodoReached
  | Unsupported
  | SliceLengthMismatch
  | DivideByZero
  | NotACharBoundary
  | NoAnswer

text \<open>\<open>NoAnswer\<close> is not a panic: the task awaits something that never comes.\<close>

type_synonym 'a res = "panic + 'a"

definition res_bind :: "'a res \<Rightarrow> ('a \<Rightarrow> 'b res) \<Rightarrow> 'b res" where
  "res_bind m f = (case m of Inl p \<Rightarrow> Inl p | Inr x \<Rightarrow> f x)"

definition unwrap_option :: "panic \<Rightarrow> 'a option \<Rightarrow> 'a res" where
  "unwrap_option p m = (case m of None \<Rightarrow> Inl p | Some x \<Rightarrow> Inr x)"

text \<open>Indexing an array or a \<open>Vec\<close>: out of range panics.\<close>

definition vec_index :: "'a list \<Rightarrow> nat \<Rightarrow> 'a res" where
  "vec_index xs i = (if i < length xs then Inr (xs ! i) else Inl IndexOutOfBounds)"

text \<open>\<open>slice::get\<close>: out of range is \<open>None\<close>.\<close>

definition vec_get :: "'a list \<Rightarrow> nat \<Rightarrow> 'a option" where
  "vec_get xs i = (if i < length xs then Some (xs ! i) else None)"

text \<open>A loop whose body may panic stops at the first panic.\<close>

fun res_mapM :: "('a \<Rightarrow> 'b res) \<Rightarrow> 'a list \<Rightarrow> 'b list res" where
  "res_mapM f [] = Inr []"
| "res_mapM f (x # xs) = res_bind (f x) (\<lambda>y. res_bind (res_mapM f xs) (\<lambda>ys. Inr (y # ys)))"

lemma res_bind_simps [simp, res_simps]:
  "res_bind (Inl p) f = Inl p" "res_bind (Inr x) f = f x"
  by (simp_all add: res_bind_def)

lemma res_bind_Inr_iff [res_simps]:
  "res_bind m f = Inr y \<longleftrightarrow> (\<exists>x. m = Inr x \<and> f x = Inr y)"
  by (cases m) auto

lemma res_bind_Inl_iff [res_simps]:
  "res_bind m f = Inl p \<longleftrightarrow> m = Inl p \<or> (\<exists>x. m = Inr x \<and> f x = Inl p)"
  by (cases m) auto

lemma res_bind_InrE:
  assumes "res_bind m f = Inr y"
  obtains x where "m = Inr x" "f x = Inr y"
  using assms by (auto simp: res_bind_Inr_iff)

lemma unwrap_option_simps [simp]:
  "unwrap_option p None = Inl p" "unwrap_option p (Some x) = Inr x"
  by (simp_all add: unwrap_option_def)

lemma vec_index_Inr_iff [simp]:
  "vec_index xs i = Inr x \<longleftrightarrow> i < length xs \<and> x = xs ! i"
  by (auto simp: vec_index_def)

lemma res_mapM_Inr:
  "res_mapM f xs = Inr ys \<longleftrightarrow> length ys = length xs \<and> (\<forall>i < length xs. f (xs ! i) = Inr (ys ! i))"
proof (induction xs arbitrary: ys)
  case Nil
  then show ?case by auto
next
  case (Cons x xs)
  then show ?case
    by (cases ys) (auto simp: res_bind_Inr_iff less_Suc_eq_0_disj)
qed

lemma res_mapM_total:
  assumes "\<And>x. x \<in> set xs \<Longrightarrow> f x = Inr (g x)"
  shows "res_mapM f xs = Inr (map g xs)"
  using assms by (induction xs) auto

fun res_foldM :: "('a \<Rightarrow> 's \<Rightarrow> 's res) \<Rightarrow> 'a list \<Rightarrow> 's \<Rightarrow> 's res" where
  "res_foldM f [] s = Inr s"
| "res_foldM f (x # xs) s = res_bind (f x s) (res_foldM f xs)"

lemma res_foldM_total:
  assumes "P s" and "\<And>x s. x \<in> set xs \<Longrightarrow> P s \<Longrightarrow> f x s = Inr (g x s) \<and> P (g x s)"
  shows "res_foldM f xs s = Inr (fold g xs s) \<and> P (fold g xs s)"
  using assms by (induction xs arbitrary: s) auto

lemma res_foldM_append: "res_foldM f (xs @ ys) s = res_bind (res_foldM f xs s) (res_foldM f ys)"
  by (induction xs arbitrary: s) (auto simp: res_bind_def split: sum.splits)

section \<open>Invariants of step relations\<close>

text \<open>
  What every step keeps holds in every reachable state: of a relation, of a run of a total step function and of
  a run that may panic. The components interpret this locale on their own steps and invariants.
\<close>

locale preserved =
  fixes step :: "'s \<Rightarrow> 's \<Rightarrow> bool" and kept :: "'s \<Rightarrow> bool"
  assumes preserve: "step s s' \<Longrightarrow> kept s \<Longrightarrow> kept s'"
begin

lemma reachable: "step\<^sup>*\<^sup>* s s' \<Longrightarrow> kept s \<Longrightarrow> kept s'"
  by (induction rule: rtranclp_induct) (auto intro: preserve)

lemma run: "(\<And>i s. step s (f i s)) \<Longrightarrow> kept s \<Longrightarrow> kept (fold f is s)"
  by (induction "is" arbitrary: s) (auto dest: preserve)

lemma run_res: "(\<And>i s s'. f i s = Inr s' \<Longrightarrow> step s s') \<Longrightarrow> res_foldM f is s = Inr s' \<Longrightarrow> kept s \<Longrightarrow> kept s'"
proof (induction "is" arbitrary: s)
  case (Cons i "is")
  obtain s1 where s1: "f i s = Inr s1" "res_foldM f is s1 = Inr s'" using Cons.prems(2) by (auto elim!: res_bind_InrE)
  show ?case by (rule Cons.IH[OF Cons.prems(1) s1(2)]) (use preserve Cons.prems(1,3) s1(1) in blast)+
qed simp

end

section \<open>Hash maps\<close>

type_synonym ('k, 'v) hmap = "('k \<times> 'v) list"

abbreviation hm_get :: "('k, 'v) hmap \<Rightarrow> 'k \<Rightarrow> 'v option" where
  "hm_get \<equiv> map_of"

abbreviation hm_insert :: "'k \<Rightarrow> 'v \<Rightarrow> ('k, 'v) hmap \<Rightarrow> ('k, 'v) hmap" where
  "hm_insert \<equiv> AList.update"

abbreviation hm_remove :: "'k \<Rightarrow> ('k, 'v) hmap \<Rightarrow> ('k, 'v) hmap" where
  "hm_remove \<equiv> AList.delete"

abbreviation hm_keys :: "('k, 'v) hmap \<Rightarrow> 'k list" where
  "hm_keys m \<equiv> map fst m"

abbreviation hm_values :: "('k, 'v) hmap \<Rightarrow> 'v list" where
  "hm_values m \<equiv> map snd m"

definition hm_wf :: "('k, 'v) hmap \<Rightarrow> bool" where
  "hm_wf m \<longleftrightarrow> distinct (hm_keys m)"

definition hm_contains :: "('k, 'v) hmap \<Rightarrow> 'k \<Rightarrow> bool" where
  "hm_contains m k \<longleftrightarrow> hm_get m k \<noteq> None"

definition hm_retain :: "('k \<Rightarrow> 'v \<Rightarrow> bool) \<Rightarrow> ('k, 'v) hmap \<Rightarrow> ('k, 'v) hmap" where
  "hm_retain p m = filter (\<lambda>(k, v). p k v) m"

lemma hm_wf_Nil [simp]: "hm_wf []"
  by (simp add: hm_wf_def)

lemma hm_wf_insert [simp, intro]: "hm_wf m \<Longrightarrow> hm_wf (hm_insert k v m)"
  by (simp add: hm_wf_def distinct_update)

lemma hm_wf_remove [simp, intro]: "hm_wf m \<Longrightarrow> hm_wf (hm_remove k m)"
  by (simp add: hm_wf_def distinct_delete)

lemma hm_wf_retain [simp, intro]: "hm_wf m \<Longrightarrow> hm_wf (hm_retain p m)"
  by (simp add: hm_wf_def hm_retain_def distinct_map_filter)

lemma hm_get_insert [hm_simps]:
  "hm_get (hm_insert k v m) k' = (if k' = k then Some v else hm_get m k')"
  by (simp add: update_conv')

lemma hm_get_remove [hm_simps]:
  "hm_get (hm_remove k m) k' = (if k' = k then None else hm_get m k')"
  by (simp add: delete_conv')

lemma hm_get_mem: "hm_wf m \<Longrightarrow> hm_get m k = Some v \<longleftrightarrow> (k, v) \<in> set m"
  by (simp add: hm_wf_def map_of_eq_Some_iff)

lemma hm_get_None: "hm_get m k = None \<longleftrightarrow> k \<notin> set (hm_keys m)"
  by (simp add: map_of_eq_None_iff)

lemma hm_contains_keys [hm_simps]: "hm_contains m k \<longleftrightarrow> k \<in> set (hm_keys m)"
  unfolding hm_contains_def hm_get_None by simp

lemma hm_keys_insert: "set (hm_keys (hm_insert k v m)) = insert k (set (hm_keys m))"
  by (simp add: dom_update)

lemma hm_keys_remove: "set (hm_keys (hm_remove k m)) = set (hm_keys m) - {k}"
  by (simp add: delete_keys)

definition hm_dom :: "('k, 'v) hmap \<Rightarrow> 'k set" where
  "hm_dom m = set (hm_keys m)"

lemma hm_dom_simps [simp]:
  "hm_dom [] = {}"
  "hm_dom (hm_insert k v m) = insert k (hm_dom m)"
  "hm_dom (hm_remove k m) = hm_dom m - {k}"
  by (auto simp: hm_dom_def hm_keys_insert hm_keys_remove simp del: set_map)

lemma hm_dom_get: "k \<in> hm_dom m \<longleftrightarrow> hm_get m k \<noteq> None"
  by (simp only: hm_dom_def hm_get_None not_not)

lemma hm_dom_contains: "hm_contains m k \<longleftrightarrow> k \<in> hm_dom m"
  by (simp add: hm_contains_def hm_dom_get)

lemma finite_hm_dom [simp]: "finite (hm_dom m)"
  by (simp add: hm_dom_def)

lemma hm_get_retain:
  assumes "hm_wf m"
  shows "hm_get (hm_retain p m) k =
    (case hm_get m k of None \<Rightarrow> None | Some v \<Rightarrow> if p k v then Some v else None)"
proof (cases "hm_get (hm_retain p m) k")
  case (Some v)
  then have "(k, v) \<in> set m" "p k v"
    using hm_get_mem[OF hm_wf_retain[OF assms], of p k v] by (auto simp: hm_retain_def)
  with assms Some show ?thesis by (simp add: hm_get_mem[symmetric])
next
  case None
  then have "\<not> p k v" if "(k, v) \<in> set m" for v
    using that by (force simp: hm_get_None hm_retain_def)
  with None show ?thesis by (auto simp: hm_get_mem[OF assms] split: option.split)
qed

lemma hm_retain_length: "length (hm_retain p m) = length m \<Longrightarrow> hm_retain p m = m"
  unfolding hm_retain_def by (metis filter_id_conv length_filter_less nat_neq_iff)

lemma set_hm_remove: "set (hm_remove k m) = {e \<in> set m. fst e \<noteq> k}"
  by (auto simp: AList.delete_eq)

lemma set_hm_insert:
  "hm_wf m \<Longrightarrow> set (hm_insert k v m) = insert (k, v) {e \<in> set m. fst e \<noteq> k}"
  by (induction m) (auto simp: hm_wf_def image_iff)

section \<open>Ordered maps\<close>

text \<open>
  A \<open>BTreeMap\<close> is an association list whose iteration order is the ascending order of
  its keys.
\<close>

definition bt_iter :: "('k::linorder, 'v) hmap \<Rightarrow> ('k \<times> 'v) list" where
  "bt_iter m = sort_key fst m"

lemma filter_key_singleton:
  "distinct (map f xs) \<Longrightarrow> k \<in> set xs \<Longrightarrow> filter (\<lambda>x. f k = f x) xs = [k]"
proof (induction xs)
  case Nil
  then show ?case by simp
next
  case (Cons x xs)
  then show ?case by (cases "k = x") (auto simp: filter_empty_conv image_iff)
qed

lemma bt_iter_unique:
  assumes "distinct (map fst m)" and "set m = set xs"
    and "sorted (map fst xs)" and "distinct (map fst xs)"
  shows "bt_iter m = xs"
proof -
  have "distinct m" "distinct xs" using assms(1,4) by (auto simp: distinct_map)
  then have "mset xs = mset m" using assms(2) by (simp add: set_eq_iff_mset_eq_distinct)
  then show ?thesis
    unfolding bt_iter_def using assms
    by (intro properties_for_sort_key) (simp_all add: filter_key_singleton)
qed

section \<open>Queues and slices\<close>

fun pop_front :: "'a list \<Rightarrow> ('a \<times> 'a list) option" where
  "pop_front [] = None"
| "pop_front (x # xs) = Some (x, xs)"

definition push_back :: "'a list \<Rightarrow> 'a \<Rightarrow> 'a list" where
  "push_back xs x = xs @ [x]"

text \<open>\<open>slice::chunks n\<close>: consecutive pieces of \<open>n\<close> elements, the last one shorter.\<close>

function chunks_of :: "nat \<Rightarrow> 'a list \<Rightarrow> 'a list list" where
  "chunks_of n xs = (if n = 0 \<or> xs = [] then [] else take n xs # chunks_of n (drop n xs))"
  by pat_completeness auto
termination by (relation "measure (\<lambda>(n, xs). length xs)") auto

declare chunks_of.simps [simp del]

lemma chunks_of_Nil [simp]: "chunks_of n [] = []"
  by (simp add: chunks_of.simps)

lemma concat_chunks_of: "0 < n \<Longrightarrow> concat (chunks_of n xs) = xs"
proof (induction n xs rule: chunks_of.induct)
  case (1 n xs)
  then show ?case by (cases "xs = []") (simp_all add: chunks_of.simps[of n xs] del: concat_eq_Nil_conv)
qed

lemma chunks_of_bound: "c \<in> set (chunks_of n xs) \<Longrightarrow> 0 < length c \<and> length c \<le> n"
proof (induction n xs rule: chunks_of.induct)
  case (1 n xs)
  then show ?case by (auto simp: chunks_of.simps[of n xs] split: if_splits)
qed

lemma ceil_div_step:
  "0 < n \<Longrightarrow> 0 < m \<Longrightarrow> (m + n - 1) div n = Suc ((m - n + n - 1) div (n::nat))"
proof (cases "m \<le> n")
  case True
  assume "0 < n" "0 < m"
  then have "m + n - 1 = (m - 1) + n" "(m - 1) div n = 0" using True by auto
  with True \<open>0 < n\<close> show ?thesis by (simp only: div_add_self2) simp
next
  case False
  assume "0 < n" "0 < m"
  then have "m + n - 1 = (m - 1) + n" "m - n + n - 1 = m - 1" using False by auto
  with \<open>0 < n\<close> show ?thesis by (simp only: div_add_self2)
qed

lemma length_chunks_of: "0 < n \<Longrightarrow> length (chunks_of n xs) = (length xs + n - 1) div n"
proof (induction n xs rule: chunks_of.induct)
  case (1 n xs)
  show ?case
  proof (cases "xs = []")
    case False
    with "1" have "length (chunks_of n (drop n xs)) = (length xs - n + n - 1) div n" by simp
    moreover have "length (chunks_of n xs) = Suc (length (chunks_of n (drop n xs)))"
      using False "1.prems" by (subst chunks_of.simps) simp
    ultimately show ?thesis using ceil_div_step[of n "length xs"] False "1.prems" by simp
  qed (use "1.prems" in simp)
qed

section \<open>A codec for witnesses\<close>

text \<open>
  The codecs of the program are parameters of the model. Where a witness needs one, it is
  built from this self-delimiting encoding of numbers.
\<close>

definition un :: "nat \<Rightarrow> bytes" where
  "un n = replicate n 1 @ [0]"

fun read_un :: "bytes \<Rightarrow> nat \<times> bytes" where
  "read_un [] = (0, [])"
| "read_un (x # xs) = (if x = 1 then let (n, r) = read_un xs in (Suc n, r) else (0, xs))"

fun read_uns :: "nat \<Rightarrow> bytes \<Rightarrow> nat list \<times> bytes" where
  "read_uns 0 xs = ([], xs)"
| "read_uns (Suc k) xs = (let (n, r) = read_un xs; (ns, r') = read_uns k r in (n # ns, r'))"

lemma read_un_un: "read_un (un n @ xs) = (n, xs)"
  by (induction n) (simp_all add: un_def)

lemma read_uns_uns: "read_uns (length ns) (concat (map un ns) @ xs) = (ns, xs)"
  by (induction ns) (simp_all add: read_un_un)

end
