(* ===== verification/Layers_Selection.thy ===== *)
theory Layers_Selection
  imports Prelude
begin

text \<open>
  Choosing the layers a contributor should serve,
  \<^verbatim>\<open>crates/registry/src/client/layers_selection.rs\<close>, and the handler
  \<^verbatim>\<open>p2p_suggest_layers\<close> of \<^verbatim>\<open>bin/openai-server/src/api_control.rs\<close> that
  calls it. The distribution counts, for every layer, the nodes that serve it. The
  request to the registry (\<open>get_layers_distribution\<close>) is the argument of the handler.
\<close>

section \<open>Operations\<close>

text \<open>\<open>Iterator::position\<close> and \<open>Iterator::min\<close>.\<close>

fun position :: "('a \<Rightarrow> bool) \<Rightarrow> 'a list \<Rightarrow> nat option" where
  "position p [] = None"
| "position p (x # xs) = (if p x then Some 0 else map_option Suc (position p xs))"

fun iter_min :: "'a::linorder list \<Rightarrow> 'a option" where
  "iter_min [] = None"
| "iter_min (x # xs) = Some (fold min xs x)"

datatype layer_selection_res =
    EnoughLayers (ranges: u32_range)
  | NotEnoughLayers (min_layers: u32)

definition window_sum :: "usize list \<Rightarrow> nat \<Rightarrow> nat \<Rightarrow> usize" where
  "window_sum data window_size i =
     fold (\<lambda>j sum. if i + j < length data then sum + data ! (i + j) else sum) [0 ..< window_size] 0"

definition sum_in_window :: "usize list \<Rightarrow> nat \<Rightarrow> usize list res" where
  "sum_in_window data window_size =
     (if \<not> window_size > 0 then Inl AssertFailed
      else if \<not> window_size < length data then Inl AssertFailed
      else Inr (map (window_sum data window_size) [0 ..< length data - window_size + 1]))"

definition select_window :: "usize list \<Rightarrow> u32 \<Rightarrow> layer_selection_res res" where
  "select_window distribution layers =
     (if layers \<ge> word_of_nat (length distribution)
      then Inr (EnoughLayers (mk_range 0 (word_of_nat (length distribution))))
      else res_bind (sum_in_window distribution (unat layers)) (\<lambda>sum_layers.
        res_bind (unwrap_option UnwrapOnNone (iter_min sum_layers)) (\<lambda>min_sum.
          res_bind (unwrap_option UnwrapOnNone (position (\<lambda>x. x = min_sum) sum_layers)) (\<lambda>index.
            Inr (EnoughLayers (mk_range (word_of_nat index) (word_of_nat index + layers)))))))"

definition select_layers :: "usize list \<Rightarrow> u32 \<Rightarrow> layer_selection_res res" where
  "select_layers distribution layers =
     (case (position (\<lambda>c. c = 0) distribution, position (\<lambda>c. c = 0) (rev distribution)) of
        (Some start, Some end_pos) \<Rightarrow>
          let needed = word_of_nat (length distribution - end_pos - 1) - word_of_nat start + 1
          in if needed > layers then Inr (NotEnoughLayers needed)
             else select_window distribution layers
      | _ \<Rightarrow> select_window distribution layers)"

section \<open>Positions and minima\<close>

lemma position_None: "position p xs = None \<longleftrightarrow> (\<forall>x \<in> set xs. \<not> p x)"
  by (induction xs) auto

lemma position_Some:
  "position p xs = Some i \<longleftrightarrow> i < length xs \<and> p (xs ! i) \<and> (\<forall>j < i. \<not> p (xs ! j))"
proof (induction xs arbitrary: i)
  case Nil
  then show ?case by simp
next
  case (Cons x xs)
  show ?case
  proof (cases i)
    case (Suc k)
    have "(\<forall>j < Suc k. \<not> p ((x # xs) ! j)) \<longleftrightarrow> \<not> p x \<and> (\<forall>j < k. \<not> p (xs ! j))"
      by (auto simp: less_Suc_eq_0_disj)
    with Suc Cons[of k] show ?thesis by auto
  qed auto
qed

lemma iter_min_Some: "iter_min xs = Some m \<longleftrightarrow> xs \<noteq> [] \<and> m = Min (set xs)"
proof (cases xs)
  case (Cons a list)
  then show ?thesis using Min.set_eq_fold[of a list] by auto
qed simp

section \<open>The span of unserved layers\<close>

definition unserved :: "usize list \<Rightarrow> nat set" where
  "unserved d = {i. i < length d \<and> d ! i = 0}"

definition unserved_span :: "usize list \<Rightarrow> nat" where
  "unserved_span d = (if unserved d = {} then 0 else Max (unserved d) - Min (unserved d) + 1)"

lemma finite_unserved [simp]: "finite (unserved d)"
  by (simp add: unserved_def)

lemma unserved_Nil: "unserved d = {} \<longleftrightarrow> 0 \<notin> set d"
  by (auto simp: unserved_def in_set_conv_nth)

lemma first_unserved: "position (\<lambda>c. c = 0) d = Some i \<longleftrightarrow> unserved d \<noteq> {} \<and> i = Min (unserved d)"
proof
  assume "position (\<lambda>c. c = 0) d = Some i"
  then have "i \<in> unserved d" "\<And>j. j \<in> unserved d \<Longrightarrow> i \<le> j"
    by (auto simp: position_Some unserved_def) (metis not_less)
  then show "unserved d \<noteq> {} \<and> i = Min (unserved d)" by (auto intro!: Min_eqI[symmetric])
next
  assume i: "unserved d \<noteq> {} \<and> i = Min (unserved d)"
  then have "i \<in> unserved d" by (auto intro: Min_in)
  moreover have "\<not> j < i" if "j \<in> unserved d" for j
    using i that by (simp add: leD)
  ultimately show "position (\<lambda>c. c = 0) d = Some i"
    by (auto simp: position_Some unserved_def) (meson order.strict_trans)
qed

lemma last_unserved:
  "position (\<lambda>c. c = 0) (rev d) = Some e \<longleftrightarrow> unserved d \<noteq> {} \<and> e < length d \<and> length d - e - 1 = Max (unserved d)"
proof
  assume e: "position (\<lambda>c. c = 0) (rev d) = Some e"
  have mem: "length d - e - 1 \<in> unserved d" "e < length d"
    using e by (auto simp: position_Some unserved_def rev_nth)
  have "j \<le> length d - e - 1" if "j \<in> unserved d" for j
  proof (rule ccontr)
    assume "\<not> j \<le> length d - e - 1"
    with that have "length d - j - 1 < e" "rev d ! (length d - j - 1) = 0"
      by (auto simp: unserved_def rev_nth)
    with e show False by (auto simp: position_Some)
  qed
  with mem show "unserved d \<noteq> {} \<and> e < length d \<and> length d - e - 1 = Max (unserved d)"
    by (auto intro!: Max_eqI[symmetric])
next
  assume e: "unserved d \<noteq> {} \<and> e < length d \<and> length d - e - 1 = Max (unserved d)"
  then have "length d - e - 1 \<in> unserved d" by (metis Max_in finite_unserved)
  moreover have "\<not> j < e" if "j < length d" "rev d ! j = 0" for j
  proof
    assume "j < e"
    with that have "length d - j - 1 \<in> unserved d" by (auto simp: unserved_def rev_nth)
    then have "length d - j - 1 \<le> length d - e - 1" using e by simp
    moreover have "e < length d" using e by blast
    ultimately show False using \<open>j < e\<close> by linarith
  qed
  ultimately show "position (\<lambda>c. c = 0) (rev d) = Some e"
    using e by (auto simp: position_Some unserved_def rev_nth) (meson order.strict_trans)
qed

lemma unserved_span_bounds:
  assumes "unserved d \<noteq> {}"
  shows "0 < unserved_span d" and "unserved_span d \<le> length d"
    and "unserved_span d = Max (unserved d) - Min (unserved d) + 1"
proof -
  have "Max (unserved d) \<in> unserved d" using assms by simp
  then show "unserved_span d \<le> length d" by (auto simp: unserved_span_def unserved_def)
qed (use assms in \<open>simp_all add: unserved_span_def\<close>)

lemma select_layers_cases:
  assumes len: "length d < 2 ^ 32"
  shows "select_layers d layers =
    (if unat layers < unserved_span d then Inr (NotEnoughLayers (word_of_nat (unserved_span d)))
     else select_window d layers)"
proof (cases "unserved d = {}")
  case True
  then have "position (\<lambda>c. c = 0) d = None"
    using first_unserved[of d] by (metis not_None_eq)
  then show ?thesis using True by (simp add: select_layers_def unserved_span_def)
next
  case False
  let ?s = "Min (unserved d)" and ?m = "Max (unserved d)"
  let ?e = "length d - ?m - 1"
  have "?m \<in> unserved d" "?s \<le> ?m" using False by auto
  then have m: "?m < length d" "?s \<le> ?m" by (auto simp: unserved_def)
  have s: "position (\<lambda>c. c = 0) d = Some ?s" using False by (simp add: first_unserved)
  have em: "?e < length d" "length d - ?e - 1 = ?m" using m(1) by linarith+
  then have e: "position (\<lambda>c. c = 0) (rev d) = Some ?e" using False by (simp only: last_unserved) simp
  have n: "word_of_nat (length d - ?e - 1) - word_of_nat ?s + 1 = (word_of_nat (unserved_span d) :: u32)"
    unfolding em(2) using m(2) False by (simp add: unserved_span_bounds(3) of_nat_diff)
  have "unat (word_of_nat (unserved_span d) :: u32) = unserved_span d"
    using unserved_span_bounds(2)[OF False] len by (intro unat_u32_of_nat) simp
  then show ?thesis
    unfolding select_layers_def s e prod.case option.case Let_def n word_less_nat_alt by simp
qed

section \<open>The chosen window\<close>

definition window_total :: "usize list \<Rightarrow> nat \<Rightarrow> nat \<Rightarrow> nat" where
  "window_total d w i = (\<Sum>x \<leftarrow> take w (drop i d). unat x)"

lemma window_sum_prefix:
  assumes "i + w \<le> length d"
  shows "window_sum d w i = sum_list (take w (drop i d))"
  using assms
proof (induction w)
  case 0
  then show ?case by (simp add: window_sum_def)
next
  case (Suc w)
  then have "take (Suc w) (drop i d) = take w (drop i d) @ [d ! (i + w)]"
    by (simp add: take_Suc_conv_app_nth)
  with Suc show ?case by (simp add: window_sum_def add.commute)
qed

lemma sum_list_unat:
  "sum_list (map unat xs) < 2 ^ 64 \<Longrightarrow> unat (sum_list xs :: usize) = sum_list (map unat xs)"
  by (induction xs) (simp_all add: unat_add_no_wrap)

lemma unat_window_sum:
  assumes "i + w \<le> length d" and "sum_list (map unat d) < 2 ^ 64"
  shows "unat (window_sum d w i) = window_total d w i"
proof -
  have "sum_list (map unat d) =
      sum_list (map unat (take i d)) + window_total d w i + sum_list (map unat (drop w (drop i d)))"
    unfolding window_total_def
    by (metis append_take_drop_id map_append sum_list_append add.assoc)
  with assms show ?thesis
    by (simp add: window_sum_prefix sum_list_unat window_total_def)
qed

lemma select_window_zero: "d \<noteq> [] \<Longrightarrow> length d < 2 ^ 32 \<Longrightarrow> select_window d 0 = Inl AssertFailed"
  by (simp add: select_window_def sum_in_window_def word_le_nat_alt unat_u32_of_nat)

lemma select_window_all:
  "length d < 2 ^ 32 \<Longrightarrow> length d \<le> unat layers \<Longrightarrow>
   select_window d layers = Inr (EnoughLayers (mk_range 0 (word_of_nat (length d))))"
  by (simp add: select_window_def word_le_nat_alt unat_u32_of_nat)

lemma select_window_some:
  assumes len: "length d < 2 ^ 32" and w: "0 < unat layers" "unat layers < length d"
  shows "\<exists>i. select_window d layers = Inr (EnoughLayers (mk_range (word_of_nat i) (word_of_nat i + layers)))
    \<and> i + unat layers \<le> length d
    \<and> (\<forall>j. j + unat layers \<le> length d \<longrightarrow> window_sum d (unat layers) i \<le> window_sum d (unat layers) j)
    \<and> (\<forall>j < i. window_sum d (unat layers) i < window_sum d (unat layers) j)"
proof -
  let ?w = "unat layers"
  let ?sums = "map (window_sum d ?w) [0 ..< length d - ?w + 1]"
  define m where "m = Min (set ?sums)"
  have "m \<in> set ?sums" unfolding m_def by (rule Min_in) simp_all
  then have "position (\<lambda>x. x = m) ?sums \<noteq> None" unfolding position_None by blast
  then obtain i where i: "position (\<lambda>x. x = m) ?sums = Some i" by blast
  then have i': "i < length ?sums" "?sums ! i = m" "\<And>j. j < i \<Longrightarrow> ?sums ! j \<noteq> m"
    by (auto simp: position_Some)
  have nth: "?sums ! j = window_sum d ?w j" if "j + ?w \<le> length d" for j
    using that w by (simp del: upt_Suc)
  have bound: "j + ?w \<le> length d \<longleftrightarrow> j < length ?sums" for j using w by auto
  have mle: "m \<le> window_sum d ?w j" if "j + ?w \<le> length d" for j
    unfolding m_def nth[OF that, symmetric] using that bound by (intro Min_le nth_mem) auto
  have "select_window d layers = Inr (EnoughLayers (mk_range (word_of_nat i) (word_of_nat i + layers)))"
  proof -
    have "\<not> word_of_nat (length d) \<le> layers"
      using w len by (simp add: word_le_nat_alt unat_u32_of_nat)
    moreover have "sum_in_window d ?w = Inr ?sums" using w by (simp add: sum_in_window_def)
    moreover have "iter_min ?sums = Some m" unfolding iter_min_Some m_def by simp
    ultimately show ?thesis using i
      by (simp only: select_window_def if_False res_bind_simps unwrap_option_simps)
  qed
  moreover have il: "i + ?w \<le> length d" using i'(1) bound by blast
  moreover have wi: "window_sum d ?w i = m" using i'(2) nth[OF il] by simp
  moreover have "m < window_sum d ?w j" if "j < i" for j
  proof -
    have jl: "j + ?w \<le> length d" using that il by simp
    with i'(3)[OF that] nth[OF jl] mle[OF jl] show ?thesis by simp
  qed
  ultimately show ?thesis using mle by metis
qed

lemma select_layers_total:
  assumes len: "length d < 2 ^ 32"
  shows "select_layers d layers = Inl p \<longleftrightarrow> p = AssertFailed \<and> layers = 0 \<and> d \<noteq> [] \<and> unserved d = {}"
proof -
  have zero: "unserved d \<noteq> {} \<Longrightarrow> 0 < unserved_span d" by (rule unserved_span_bounds)
  consider "length d \<le> unat layers" | "layers = 0" "d \<noteq> []" | "0 < unat layers" "unat layers < length d"
    by (metis gr0I length_greater_0_conv linorder_not_le unat_0_iff unat_gt_0)
  then show ?thesis
  proof cases
    case 1
    with select_window_all[OF len] show ?thesis
      using zero by (auto simp: select_layers_cases[OF len])
  next
    case 2
    with select_window_zero[OF _ len] show ?thesis
      using zero by (auto simp: select_layers_cases[OF len] unserved_span_def)
  next
    case 3
    with select_window_some[OF len 3] show ?thesis
      by (auto simp: select_layers_cases[OF len])
  qed
qed

section \<open>The handler of the control API\<close>

record suggest_layers_res =
  sug_distribution :: "usize list"
  sug_min_layers :: "u32 option"
  sug_from_layer :: "u32 option"
  sug_to_layer :: "u32 option"

datatype suggest_response = SuggestOk suggest_layers_res | SuggestError string

function pad_to :: "nat \<Rightarrow> usize list \<Rightarrow> usize list" where
  "pad_to n d = (if length d < n then pad_to n (d @ [0]) else d)"
  by pat_completeness auto
termination by (relation "measure (\<lambda>(n, d). n - length d)") auto

declare pad_to.simps [simp del]

lemma pad_to_eq: "pad_to n d = d @ replicate (n - length d) 0"
proof (induction n d rule: pad_to.induct)
  case (1 n d)
  show ?case
  proof (cases "length d < n")
    case True
    then have "n - length d = Suc (n - Suc (length d))" by simp
    with 1 True show ?thesis by (simp add: pad_to.simps[of n d])
  qed (simp add: pad_to.simps[of n d])
qed

definition p2p_suggest_layers ::
    "(string + usize list) \<Rightarrow> u32 \<Rightarrow> u32 \<Rightarrow> suggest_response res" where
  "p2p_suggest_layers fetched layers max_layers = (case fetched of
       Inl err \<Rightarrow> Inr (SuggestError err)
     | Inr d \<Rightarrow> (let d' = pad_to (unat max_layers) d in
         res_bind (select_layers d' layers) (\<lambda>suggested. Inr (SuggestOk (case suggested of
             EnoughLayers r \<Rightarrow> \<lparr>sug_distribution = d', sug_min_layers = None,
                 sug_from_layer = Some (rstart r), sug_to_layer = Some (rend r)\<rparr>
           | NotEnoughLayers n \<Rightarrow> \<lparr>sug_distribution = d', sug_min_layers = Some n,
                 sug_from_layer = None, sug_to_layer = None\<rparr>)))))"

section \<open>Properties\<close>

text \<open>
  C21. A selection is refused exactly when the unserved layers, from the first to the last
  of them, span more layers than the contributor offers, and the number it is told is
  that span.
\<close>

theorem select_layers_not_enough:
  assumes "length d < 2 ^ 32"
  shows "select_layers d layers = Inr (NotEnoughLayers m) \<longleftrightarrow>
    unat layers < unserved_span d \<and> m = word_of_nat (unserved_span d)"
proof -
  have "select_window d layers \<noteq> Inr (NotEnoughLayers m)"
    by (auto simp: select_window_def res_bind_Inr_iff)
  then show ?thesis by (auto simp: select_layers_cases[OF assms])
qed

lemma unserved_span_demo: "unserved_span [1, 1, 0, 0, 0, 0, 1] = 4"
proof -
  have "unserved [1, 1, 0, 0, 0, 0, 1] = {2, 3, 4, 5}"
    by (auto simp: unserved_def less_Suc_eq nth_Cons' split: if_splits)
  then show ?thesis by (simp add: unserved_span_def)
qed

theorem select_layers_not_enough_witness:
  "select_layers [1, 1, 0, 0, 0, 0, 1] 2 = Inr (NotEnoughLayers 4)"
  using select_layers_not_enough[of "[1, 1, 0, 0, 0, 0, 1]" 2 4] by (simp add: unserved_span_demo)

text \<open>
  C22. An accepted selection is a range inside the model of exactly the offered number of
  layers (or the whole model when more are offered); among all windows of that size it
  has the fewest serving nodes in total, and it is the first such window.
\<close>

theorem select_layers_enough:
  assumes "length d < 2 ^ 32" and "sum_list (map unat d) < 2 ^ 64"
    and "select_layers d layers = Inr (EnoughLayers r)"
  defines "w \<equiv> min (unat layers) (length d)" and "a \<equiv> unat (rstart r)"
  shows "unat (rend r) = a + w \<and> a + w \<le> length d
    \<and> (\<forall>j. j + w \<le> length d \<longrightarrow> window_total d w a \<le> window_total d w j)
    \<and> (\<forall>j < a. window_total d w a < window_total d w j)"
proof -
  have sw: "select_window d layers = Inr (EnoughLayers r)"
    using assms(1,3) by (auto simp: select_layers_cases split: if_splits)
  show ?thesis
  proof (cases "length d \<le> unat layers")
    case True
    with select_window_all[OF assms(1) True] sw show ?thesis
      using assms(1) by (auto simp: w_def a_def unat_u32_of_nat min_def)
  next
    case False
    have "layers \<noteq> 0" using sw False select_window_zero[OF _ assms(1)] by auto
    with False have w: "0 < unat layers" "unat layers < length d" "w = unat layers"
      by (auto simp: w_def unat_gt_0)
    from select_window_some[OF assms(1) w(1,2)] sw obtain i
      where r: "r = mk_range (word_of_nat i) (word_of_nat i + layers)" and iw: "i + unat layers \<le> length d"
        and i: "\<And>j. j + unat layers \<le> length d \<Longrightarrow> window_sum d (unat layers) i \<le> window_sum d (unat layers) j"
          "\<And>j. j < i \<Longrightarrow> window_sum d (unat layers) i < window_sum d (unat layers) j"
      by auto
    have ua: "a = i" using iw assms(1) r by (simp add: a_def unat_u32_of_nat)
    have "unat (rend r) = i + unat layers"
      using iw assms(1) r by (simp add: unat_add_no_wrap unat_u32_of_nat)
    moreover have "window_total d w i \<le> window_total d w j" if "j + w \<le> length d" for j
      using i(1)[of j] that iw assms(2) w(3) by (simp add: word_le_nat_alt unat_window_sum)
    moreover have "window_total d w i < window_total d w j" if "j < i" for j
      using i(2)[OF that] that iw assms(2) w(3) by (simp add: word_less_nat_alt unat_window_sum)
    ultimately show ?thesis using iw by (simp add: ua w(3))
  qed
qed

lemma select_layers_demo:
  "select_layers [1, 2, 3, 1, 1, 1] 3 = Inr (EnoughLayers (mk_range 3 6))"
  "select_layers [9, 0, 9, 1, 1, 1] 3 = Inr (EnoughLayers (mk_range 3 6))"
  by code_simp+

theorem select_layers_enough_witness:
  "select_layers [1, 2, 3, 1, 1, 1] 3 = Inr (EnoughLayers (mk_range 3 6)) \<and>
   window_total [1, 2, 3, 1, 1, 1] 3 3 < window_total [1, 2, 3, 1, 1, 1] 3 2"
proof -
  have "\<forall>j < 3. window_total [1, 2, 3, 1, 1, 1] 3 3 < window_total [1, 2, 3, 1, 1, 1] 3 j"
    using select_layers_enough[OF _ _ select_layers_demo(1)] by (simp flip: numeral_3_eq_3)
  then show ?thesis using select_layers_demo(1) by simp
qed

text \<open>
  C23. On a distribution that fits in memory the selection panics in one case only: no
  layer is unserved and zero layers are offered. The handler of the control API then
  panics as well, and otherwise answers; it answers an error exactly when the registry
  could not be asked.
\<close>

theorem suggest_layers_panics_iff:
  assumes "length d < 2 ^ 32"
  shows "(p2p_suggest_layers (Inr d) layers max_layers = Inl p \<longleftrightarrow>
      p = AssertFailed \<and> layers = 0 \<and> d \<noteq> [] \<and> length d \<ge> unat max_layers \<and> 0 \<notin> set d)
    \<and> (p2p_suggest_layers fetched layers max_layers = Inr (SuggestError e) \<longleftrightarrow> fetched = Inl e)"
proof (rule conjI)
  let ?d = "pad_to (unat max_layers) d"
  have "unat max_layers < 2 ^ 32" using unsigned_less[of max_layers] by simp
  with assms have len: "length ?d < 2 ^ 32" by (simp add: pad_to_eq)
  have uns: "unserved ?d = {} \<longleftrightarrow> length d \<ge> unat max_layers \<and> 0 \<notin> set d"
    using unserved_Nil[of ?d] by (auto simp: pad_to_eq)
  have "p2p_suggest_layers (Inr d) layers max_layers = Inl p \<longleftrightarrow> select_layers ?d layers = Inl p"
    by (simp add: p2p_suggest_layers_def Let_def res_bind_Inl_iff)
  then show "p2p_suggest_layers (Inr d) layers max_layers = Inl p \<longleftrightarrow>
      p = AssertFailed \<and> layers = 0 \<and> d \<noteq> [] \<and> length d \<ge> unat max_layers \<and> 0 \<notin> set d"
    using select_layers_total[OF len, of layers p] uns by (auto simp: pad_to_eq)
  show "p2p_suggest_layers fetched layers max_layers = Inr (SuggestError e) \<longleftrightarrow> fetched = Inl e"
    by (auto simp: p2p_suggest_layers_def Let_def res_bind_Inr_iff split: sum.splits)
qed

theorem suggest_layers_panics_iff_witness:
  "p2p_suggest_layers (Inr [1, 2]) 0 2 = Inl AssertFailed \<and>
   p2p_suggest_layers (Inl ''down'') 0 2 = Inr (SuggestError ''down'')"
  using suggest_layers_panics_iff[of "[1, 2]" 0 2 AssertFailed "Inl ''down''" "''down''"] by simp

text \<open>
  The refusal test only compares the span of the unserved layers with the offer; the
  window of least total need not cover that span. Here layer 1 is unserved, the
  contributor offers three layers and is told \<open>EnoughLayers\<close>, but for layers 3 to 5.
\<close>

lemma selected_window_misses_unserved_layer:
  "\<exists>d layers r. select_layers d layers = Inr (EnoughLayers r) \<and>
     (\<exists>i \<in> unserved d. \<not> range_contains r (word_of_nat i))"
proof (intro exI conjI bexI)
  show "select_layers [9, 0, 9, 1, 1, 1] 3 = Inr (EnoughLayers (mk_range 3 6))"
    by (rule select_layers_demo)
  show "\<not> range_contains (mk_range 3 6) (word_of_nat 1)" by (simp add: range_contains_unat)
  show "1 \<in> unserved [9, 0, 9, 1, 1, 1]" by (simp add: unserved_def)
qed

end
