(* ===== verification/Shared_Map.thy ===== *)
theory Shared_Map
  imports Prelude
begin

text \<open>
  The key-value interface every keyed table of the program relies on (locale
  \<open>kv_store\<close>), its interpretation on the hash maps of the prelude, and the model of
  \<^verbatim>\<open>crates/utils/src/shared_map.rs\<close>: \<open>SharedHashMap\<close>, a hash map behind a
  read-write lock. Each of its methods takes the lock once, so each is one atomic step
  from state to state; \<open>insert\<close> and \<open>remove\<close> also return the previous value.
\<close>

section \<open>The interface of a keyed table\<close>

locale kv_store =
  fixes emp :: 'm
    and get :: "'m \<Rightarrow> 'k \<Rightarrow> 'v option"
    and ins :: "'k \<Rightarrow> 'v \<Rightarrow> 'm \<Rightarrow> 'm"
    and rem :: "'k \<Rightarrow> 'm \<Rightarrow> 'm"
    and ks :: "'m \<Rightarrow> 'k list"
    and ok :: "'m \<Rightarrow> bool"
  assumes ok_emp: "ok emp"
    and ok_ins: "ok m \<Longrightarrow> ok (ins k v m)"
    and ok_rem: "ok m \<Longrightarrow> ok (rem k m)"
    and get_emp: "get emp k = None"
    and get_ins: "ok m \<Longrightarrow> get (ins k v m) k' = (if k' = k then Some v else get m k')"
    and get_rem: "ok m \<Longrightarrow> get (rem k m) k' = (if k' = k then None else get m k')"
    and mem_ks: "ok m \<Longrightarrow> k \<in> set (ks m) \<longleftrightarrow> get m k \<noteq> None"
    and distinct_ks: "ok m \<Longrightarrow> distinct (ks m)"
begin

lemmas specs = ok_emp ok_ins ok_rem get_emp get_ins get_rem

lemma set_ks_ins: "ok m \<Longrightarrow> set (ks (ins k v m)) = insert k (set (ks m))"
  by (auto simp: mem_ks ok_ins get_ins split: if_splits)

lemma set_ks_rem: "ok m \<Longrightarrow> set (ks (rem k m)) = set (ks m) - {k}"
  by (auto simp: mem_ks ok_rem get_rem split: if_splits)

lemma size_card: "ok m \<Longrightarrow> length (ks m) = card (set (ks m))"
  by (simp add: distinct_ks distinct_card)

lemma size_ins:
  assumes "ok m"
  shows "length (ks (ins k v m)) = (if get m k = None then Suc (length (ks m)) else length (ks m))"
  using assms by (simp add: size_card ok_ins set_ks_ins mem_ks insert_absorb)

lemma size_rem:
  assumes "ok m"
  shows "length (ks (rem k m)) = (if get m k = None then length (ks m) else length (ks m) - 1)"
  using assms by (simp add: size_card ok_rem set_ks_rem mem_ks card_Diff_singleton)

lemma get_ins_rem: "ok m \<Longrightarrow> get (rem k (ins k v m)) k' = get (rem k m) k'"
  by (simp add: get_ins get_rem ok_ins)

end

interpretation hm: kv_store "[]" hm_get hm_insert hm_remove hm_keys hm_wf
proof unfold_locales
  show "hm_wf m \<Longrightarrow> (k \<in> set (hm_keys m)) = (hm_get m k \<noteq> None)" for m k
    by (simp add: hm_get_None)
qed (auto simp: hm_get_insert hm_get_remove hm_wf_def distinct_update distinct_delete)

section \<open>SharedHashMap\<close>

record ('k, 'v) shared_hash_map =
  shm_map :: "('k, 'v) hmap"

definition shm_new :: "('k, 'v) shared_hash_map" where
  "shm_new = \<lparr>shm_map = []\<rparr>"

definition get_clone :: "('k, 'v) shared_hash_map \<Rightarrow> 'k \<Rightarrow> 'v option" where
  "get_clone s k = hm_get (shm_map s) k"

definition shm_insert ::
    "'k \<Rightarrow> 'v \<Rightarrow> ('k, 'v) shared_hash_map \<Rightarrow> 'v option \<times> ('k, 'v) shared_hash_map" where
  "shm_insert k v s = (hm_get (shm_map s) k, s\<lparr>shm_map := hm_insert k v (shm_map s)\<rparr>)"

definition shm_remove ::
    "'k \<Rightarrow> ('k, 'v) shared_hash_map \<Rightarrow> 'v option \<times> ('k, 'v) shared_hash_map" where
  "shm_remove k s = (hm_get (shm_map s) k, s\<lparr>shm_map := hm_remove k (shm_map s)\<rparr>)"

definition shm_contains_key :: "('k, 'v) shared_hash_map \<Rightarrow> 'k \<Rightarrow> bool" where
  "shm_contains_key s k = hm_contains (shm_map s) k"

definition shm_len :: "('k, 'v) shared_hash_map \<Rightarrow> nat" where
  "shm_len s = length (shm_map s)"

definition shm_is_empty :: "('k, 'v) shared_hash_map \<Rightarrow> bool" where
  "shm_is_empty s \<longleftrightarrow> shm_map s = []"

definition keys_clone :: "('k, 'v) shared_hash_map \<Rightarrow> 'k list" where
  "keys_clone s = hm_keys (shm_map s)"

definition values_clone :: "('k, 'v) shared_hash_map \<Rightarrow> 'v list" where
  "values_clone s = hm_values (shm_map s)"

definition shm_wf :: "('k, 'v) shared_hash_map \<Rightarrow> bool" where
  "shm_wf s \<longleftrightarrow> hm_wf (shm_map s)"

lemmas shm_defs = shm_new_def get_clone_def shm_insert_def shm_remove_def shm_contains_key_def
  shm_len_def shm_is_empty_def keys_clone_def values_clone_def shm_wf_def

interpretation shm: kv_store shm_new get_clone "\<lambda>k v s. snd (shm_insert k v s)"
  "\<lambda>k s. snd (shm_remove k s)" keys_clone shm_wf
  by unfold_locales (auto simp: shm_defs hm.specs hm_get_None hm_wf_def distinct_update distinct_delete)

lemma get_clone_insert [hm_simps]:
  "get_clone (snd (shm_insert k v s)) k' = (if k' = k then Some v else get_clone s k')"
  by (simp add: shm_defs hm_get_insert)

lemma get_clone_remove [hm_simps]:
  "get_clone (snd (shm_remove k s)) k' = (if k' = k then None else get_clone s k')"
  by (simp add: shm_defs hm_get_remove)

lemma shm_returns [hm_simps]:
  "fst (shm_insert k v s) = get_clone s k" "fst (shm_remove k s) = get_clone s k"
  by (simp_all add: shm_defs)

lemma shm_wf_ops [simp, intro]:
  "shm_wf shm_new"
  "shm_wf s \<Longrightarrow> shm_wf (snd (shm_insert k v s))"
  "shm_wf s \<Longrightarrow> shm_wf (snd (shm_remove k s))"
  by (auto simp: shm_defs)

lemma shm_len_keys: "shm_len s = length (keys_clone s)"
  by (simp add: shm_defs)

lemma shm_len_step:
  assumes "shm_wf s"
  shows "shm_len (snd (shm_insert k v s)) =
      (if shm_contains_key s k then shm_len s else Suc (shm_len s))"
    and "shm_len (snd (shm_remove k s)) =
      (if shm_contains_key s k then shm_len s - 1 else shm_len s)"
    and "shm_is_empty s \<longleftrightarrow> shm_len s = 0"
  unfolding shm_len_keys shm_contains_key_def hm_contains_def
  using assms shm.size_ins[of s k v] shm.size_rem[of s k]
  by (auto simp: get_clone_def shm_is_empty_def keys_clone_def)

end
