(* ===== verification/Route_Table.thy ===== *)
theory Route_Table
  imports Shared_Map
begin

text \<open>
  The layer router of one node, \<^verbatim>\<open>crates/model-router/src/table.rs\<close>. For every
  layer of the model the table keeps the neighbours that can serve the chain from that
  layer on, with the cost of going through them, and the best of them. The const generic
  \<open>MODEL_LAYERS\<close> is the length of the array \<open>remote_layers\<close>.

  Shown here: the invariant that the cached best hop is a cheapest neighbour, kept by
  every operation; what each operation does to every entry; how the selected path tiles
  the layers; when selection panics; and that nothing observable depends on the iteration
  order of the hash maps except which of two equally cheap neighbours is chosen.
\<close>

section \<open>Data\<close>

definition ROUTE_TIMEOUT_MS :: u64 where
  "ROUTE_TIMEOUT_MS = 5000"

record 'n route_path =
  rp_local :: "u32_range option"
  rp_remote :: "('n \<times> u32_range \<times> u32 \<times> u64) option"

definition path_cost :: "'n route_path \<Rightarrow> u32" where
  "path_cost p = (case rp_remote p of Some (_, _, c, _) \<Rightarrow> c | None \<Rightarrow> 0)"

definition path_last_updated :: "'n route_path \<Rightarrow> u64 option" where
  "path_last_updated p = (case rp_remote p of Some (_, _, _, lu) \<Rightarrow> Some lu | None \<Rightarrow> None)"

record layer_remote_info =
  cost :: u32
  last_updated :: u64

record 'n layer_remote_paths =
  remotes :: "('n, layer_remote_info) hmap"
  lrp_next :: "('n \<times> layer_remote_info) option"

record route_sync =
  sync_layers :: "layer_remote_info option list"

record 'n route_table =
  remote_layers :: "'n layer_remote_paths list"
  local_layers :: u32_range

definition model_layers :: "'n route_table \<Rightarrow> nat" where
  "model_layers t = length (remote_layers t)"

section \<open>Operations\<close>

text \<open>\<open>Iterator::min_by\<close> on the costs: the first of the cheapest entries.\<close>

fun min_by_cost :: "('n \<times> layer_remote_info) list \<Rightarrow> ('n \<times> layer_remote_info) option" where
  "min_by_cost [] = None"
| "min_by_cost (e # es) =
     Some (fold (\<lambda>y x. if cost (snd x) > cost (snd y) then y else x) es e)"

definition update_best :: "'n layer_remote_paths \<Rightarrow> 'n layer_remote_paths" where
  "update_best r = r\<lparr>lrp_next := min_by_cost (remotes r)\<rparr>"

definition rt_new :: "nat \<Rightarrow> u32_range \<Rightarrow> 'n route_table" where
  "rt_new n rng =
     \<lparr>remote_layers = replicate n \<lparr>remotes = [], lrp_next = None\<rparr>, local_layers = rng\<rparr>"

definition select_next :: "'n route_table \<Rightarrow> u32 \<Rightarrow> 'n route_path option res" where
  "select_next t next_layer =
     (let ml = word_of_nat (model_layers t); le = rend (local_layers t) in
      if range_contains (local_layers t) next_layer then
        if le = ml then Inr (Some \<lparr>rp_local = Some (mk_range next_layer ml), rp_remote = None\<rparr>)
        else res_bind (vec_index (remote_layers t) (unat le)) (\<lambda>r.
          Inr (map_option (\<lambda>(dest, info).
            \<lparr>rp_local = Some (mk_range next_layer le),
             rp_remote = Some (dest, mk_range le ml, cost info, last_updated info)\<rparr>) (lrp_next r)))
      else res_bind (vec_index (remote_layers t) (unat next_layer)) (\<lambda>r.
          Inr (map_option (\<lambda>(dest, info).
            \<lparr>rp_local = None,
             rp_remote = Some (dest, mk_range next_layer ml, cost info, last_updated info)\<rparr>) (lrp_next r))))"

definition ready :: "'n route_table \<Rightarrow> bool res" where
  "ready t = res_bind (select_next t 0) (\<lambda>p. Inr (p \<noteq> None))"

definition tick_layer :: "u64 \<Rightarrow> 'n layer_remote_paths \<Rightarrow> 'n layer_remote_paths" where
  "tick_layer now_ms r =
     (let kept = hm_retain (\<lambda>_ info. last_updated info + ROUTE_TIMEOUT_MS > now_ms) (remotes r);
          r' = r\<lparr>remotes := kept\<rparr>
      in if length kept \<noteq> length (remotes r) then update_best r' else r')"

definition on_tick :: "u64 \<Rightarrow> 'n route_table \<Rightarrow> 'n route_table" where
  "on_tick now_ms t = t\<lparr>remote_layers := map (tick_layer now_ms) (remote_layers t)\<rparr>"

definition disconnect_layer :: "'n \<Rightarrow> 'n layer_remote_paths \<Rightarrow> 'n layer_remote_paths" where
  "disconnect_layer node r =
     (if hm_get (remotes r) node \<noteq> None
      then update_best (r\<lparr>remotes := hm_remove node (remotes r)\<rparr>) else r)"

definition on_disconnected :: "'n \<Rightarrow> 'n route_table \<Rightarrow> 'n route_table" where
  "on_disconnected node t = t\<lparr>remote_layers := map (disconnect_layer node) (remote_layers t)\<rparr>"

definition sync_entry :: "u64 \<Rightarrow> 'n route_path \<Rightarrow> layer_remote_info" where
  "sync_entry now_ms p =
     \<lparr>cost = path_cost p,
      last_updated = (case path_last_updated p of Some lu \<Rightarrow> lu | None \<Rightarrow> now_ms)\<rparr>"

definition create_sync :: "u64 \<Rightarrow> 'n route_table \<Rightarrow> route_sync res" where
  "create_sync now_ms t =
     res_bind (res_mapM (\<lambda>layer. res_bind (select_next t (word_of_nat layer))
                 (\<lambda>p. Inr (map_option (sync_entry now_ms) p))) [0 ..< model_layers t])
       (\<lambda>layers. Inr \<lparr>sync_layers = layers\<rparr>)"

definition apply_sync_layer ::
    "'n \<Rightarrow> u32 \<Rightarrow> layer_remote_info option option \<Rightarrow> 'n layer_remote_paths \<Rightarrow> 'n layer_remote_paths" where
  "apply_sync_layer from rtt entry r =
     update_best (case entry of
        Some (Some info) \<Rightarrow>
          r\<lparr>remotes := hm_insert from (info\<lparr>cost := cost info + rtt\<rparr>) (remotes r)\<rparr>
      | _ \<Rightarrow> r\<lparr>remotes := hm_remove from (remotes r)\<rparr>)"

definition apply_sync :: "'n \<Rightarrow> u32 \<Rightarrow> route_sync \<Rightarrow> 'n route_table \<Rightarrow> 'n route_table" where
  "apply_sync from rtt sync t =
     t\<lparr>remote_layers := map (\<lambda>layer. apply_sync_layer from rtt (vec_get (sync_layers sync) layer)
        (remote_layers t ! layer)) [0 ..< model_layers t]\<rparr>"

lemmas route_defs = path_cost_def path_last_updated_def select_next_def ready_def tick_layer_def
  on_tick_def disconnect_layer_def on_disconnected_def sync_entry_def create_sync_def
  apply_sync_layer_def apply_sync_def model_layers_def update_best_def rt_new_def
  ROUTE_TIMEOUT_MS_def

section \<open>The cheapest entry\<close>

lemma fold_min_cost:
  fixes e :: "'n \<times> layer_remote_info"
  defines "f \<equiv> \<lambda>y x :: 'n \<times> layer_remote_info. if cost (snd x) > cost (snd y) then y else x"
  shows "fold f es e \<in> insert e (set es)"
    and "e' \<in> insert e (set es) \<Longrightarrow> cost (snd (fold f es e)) \<le> cost (snd e')"
proof -
  have "fold f es e \<in> insert e (set es) \<and>
      (\<forall>e' \<in> insert e (set es). cost (snd (fold f es e)) \<le> cost (snd e'))"
  proof (induction es arbitrary: e)
    case Nil
    then show ?case by simp
  next
    case (Cons y es)
    let ?x = "if cost (snd e) > cost (snd y) then y else e"
    have le: "cost (snd ?x) \<le> cost (snd e)" "cost (snd ?x) \<le> cost (snd y)" by auto
    from Cons[of ?x] le show ?case by (auto simp: f_def intro: order_trans)
  qed
  then show "fold f es e \<in> insert e (set es)"
    and "e' \<in> insert e (set es) \<Longrightarrow> cost (snd (fold f es e)) \<le> cost (snd e')" by auto
qed

lemma min_by_cost_None [simp]: "min_by_cost es = None \<longleftrightarrow> es = []"
  by (cases es) auto

lemma min_by_cost_Some:
  assumes "min_by_cost es = Some e"
  shows "e \<in> set es" and "e' \<in> set es \<Longrightarrow> cost (snd e) \<le> cost (snd e')"
proof -
  obtain x xs where es: "es = x # xs" using assms by (cases es) auto
  with assms have e: "e = fold (\<lambda>y x. if cost (snd x) > cost (snd y) then y else x) xs x" by simp
  show "e \<in> set es" unfolding e es using fold_min_cost(1)[of xs x] by simp
  show "cost (snd e) \<le> cost (snd e')" if "e' \<in> set es"
    unfolding e using fold_min_cost(2)[of e' x xs] that es by simp
qed

lemma min_by_cost_perm:
  assumes "mset es = mset es'"
  shows "map_option (cost \<circ> snd) (min_by_cost es) = map_option (cost \<circ> snd) (min_by_cost es')"
proof (cases "min_by_cost es")
  case None
  with assms have "es' = []" by simp
  with None show ?thesis by simp
next
  case (Some e)
  with assms have "es' \<noteq> []" by auto
  then obtain e' where e': "min_by_cost es' = Some e'" by (cases es') auto
  have "set es = set es'" using assms by (metis set_mset_mset)
  then have "cost (snd e) \<le> cost (snd e')" "cost (snd e') \<le> cost (snd e)"
    using min_by_cost_Some[OF Some] min_by_cost_Some[OF e'] by blast+
  with Some e' show ?thesis by simp
qed

section \<open>The invariant of the table\<close>

definition lrp_wf :: "'n layer_remote_paths \<Rightarrow> bool" where
  "lrp_wf r \<longleftrightarrow> hm_wf (remotes r) \<and> lrp_next r = min_by_cost (remotes r)"

definition rt_wf :: "'n route_table \<Rightarrow> bool" where
  "rt_wf t \<longleftrightarrow> list_all lrp_wf (remote_layers t)"

lemma rt_wf_nth: "rt_wf t \<Longrightarrow> i < model_layers t \<Longrightarrow> lrp_wf (remote_layers t ! i)"
  by (simp add: rt_wf_def list_all_length model_layers_def)

lemma rt_wfI: "(\<And>i. i < model_layers t \<Longrightarrow> lrp_wf (remote_layers t ! i)) \<Longrightarrow> rt_wf t"
  by (simp add: rt_wf_def list_all_length model_layers_def)

lemma update_best_sel [simp]:
  "remotes (update_best r) = remotes r" "lrp_next (update_best r) = min_by_cost (remotes r)"
  by (simp_all add: update_best_def)

lemma lrp_wf_update_best [simp]: "lrp_wf (update_best r) \<longleftrightarrow> hm_wf (remotes r)"
  by (simp add: lrp_wf_def)

lemma lrp_wf_tick: "lrp_wf r \<Longrightarrow> lrp_wf (tick_layer now r)"
  by (auto simp: tick_layer_def Let_def lrp_wf_def dest: hm_retain_length)

lemma lrp_wf_disconnect: "lrp_wf r \<Longrightarrow> lrp_wf (disconnect_layer node r)"
  by (auto simp: disconnect_layer_def lrp_wf_def)

lemma lrp_wf_apply_sync: "lrp_wf r \<Longrightarrow> lrp_wf (apply_sync_layer from rtt entry r)"
  by (auto simp: apply_sync_layer_def lrp_wf_def split: option.split)

lemma model_layers_ops [simp]:
  "model_layers (rt_new n rng) = n"
  "model_layers (on_tick now t) = model_layers t"
  "model_layers (on_disconnected node t) = model_layers t"
  "model_layers (apply_sync from rtt sync t) = model_layers t"
  by (simp_all add: route_defs)

lemma local_layers_ops [simp]:
  "local_layers (rt_new n rng) = rng"
  "local_layers (on_tick now t) = local_layers t"
  "local_layers (on_disconnected node t) = local_layers t"
  "local_layers (apply_sync from rtt sync t) = local_layers t"
  by (simp_all add: rt_new_def on_tick_def on_disconnected_def apply_sync_def)

lemma remote_layers_nth:
  assumes "i < model_layers t"
  shows "remote_layers (on_tick now t) ! i = tick_layer now (remote_layers t ! i)"
    and "remote_layers (on_disconnected node t) ! i = disconnect_layer node (remote_layers t ! i)"
    and "remote_layers (apply_sync from rtt sync t) ! i =
      apply_sync_layer from rtt (vec_get (sync_layers sync) i) (remote_layers t ! i)"
  using assms by (simp_all add: on_tick_def on_disconnected_def apply_sync_def model_layers_def)

lemma rt_wf_new: "rt_wf (rt_new n rng)"
  by (simp add: rt_wf_def rt_new_def lrp_wf_def list_all_iff)

lemma rt_wf_ops:
  assumes "rt_wf t"
  shows "rt_wf (on_tick now t)" and "rt_wf (on_disconnected node t)"
    and "rt_wf (apply_sync from rtt sync t)"
  using assms
  by (auto intro!: rt_wfI dest: rt_wf_nth
      simp: remote_layers_nth lrp_wf_tick lrp_wf_disconnect lrp_wf_apply_sync)

text \<open>Any sequence of the three mutating calls.\<close>

datatype 'n rt_op = Tick u64 | Disconnected 'n | Sync 'n u32 route_sync

fun rt_step :: "'n rt_op \<Rightarrow> 'n route_table \<Rightarrow> 'n route_table" where
  "rt_step (Tick now) t = on_tick now t"
| "rt_step (Disconnected node) t = on_disconnected node t"
| "rt_step (Sync from rtt sync) t = apply_sync from rtt sync t"

lemma rt_run_frame:
  "rt_wf t \<Longrightarrow> rt_wf (fold rt_step ops t) \<and> model_layers (fold rt_step ops t) = model_layers t
     \<and> local_layers (fold rt_step ops t) = local_layers t"
proof (induction ops arbitrary: t)
  case Nil
  then show ?case by simp
next
  case (Cons op ops)
  have "rt_wf (rt_step op t)" "model_layers (rt_step op t) = model_layers t"
    "local_layers (rt_step op t) = local_layers t"
    using Cons.prems by (cases op; simp add: rt_wf_ops)+
  with Cons.IH[of "rt_step op t"] show ?case by simp
qed

section \<open>Selection\<close>

definition path_layers :: "'n route_path \<Rightarrow> nat list" where
  "path_layers p =
     (case rp_local p of None \<Rightarrow> [] | Some r \<Rightarrow> range_list r) @
     (case rp_remote p of None \<Rightarrow> [] | Some (_, r, _, _) \<Rightarrow> range_list r)"

lemma select_next_cases:
  assumes "select_next t l = Inr (Some p)"
  obtains
    (local_end) "range_contains (local_layers t) l"
      "rend (local_layers t) = word_of_nat (model_layers t)"
      "p = \<lparr>rp_local = Some (mk_range l (rend (local_layers t))), rp_remote = None\<rparr>"
  | (via) s dest info where "s = (if range_contains (local_layers t) l then rend (local_layers t) else l)"
      "unat s < model_layers t" "lrp_next (remote_layers t ! unat s) = Some (dest, info)"
      "rp_local p = (if range_contains (local_layers t) l then Some (mk_range l s) else None)"
      "rp_remote p = Some (dest, mk_range s (word_of_nat (model_layers t)), cost info, last_updated info)"
  using assms
  by (auto simp: select_next_def Let_def res_bind_Inr_iff model_layers_def split: if_splits)

lemma select_next_tiles_aux:
  assumes "select_next t l = Inr (Some p)" and ml: "model_layers t < 2 ^ 32"
  shows "path_layers p = [unat l ..< model_layers t]"
  using assms(1)
proof (cases rule: select_next_cases)
  case local_end
  then show ?thesis using ml by (simp add: path_layers_def range_list_def unat_u32_of_nat)
next
  case (via s dest info)
  show ?thesis
  proof (cases "range_contains (local_layers t) l")
    case True
    with via ml have "unat l \<le> unat s" "unat s \<le> model_layers t"
      by (auto simp: range_contains_unat)
    with True via ml show ?thesis
      by (simp add: path_layers_def range_list_def unat_u32_of_nat upt_split)
  qed (use via ml in \<open>simp add: path_layers_def range_list_def unat_u32_of_nat\<close>)
qed

lemma select_next_cheapest_aux:
  assumes "rt_wf t" and "select_next t l = Inr (Some p)"
    and "rp_remote p = Some (dest, rng, c, lu)"
  defines "m \<equiv> remotes (remote_layers t ! unat (rstart rng))"
  shows "hm_get m dest = Some \<lparr>cost = c, last_updated = lu\<rparr>"
    and "hm_get m n = Some info \<Longrightarrow> c \<le> cost info"
proof -
  from assms(2,3) obtain s i where s: "rstart rng = s" "unat s < model_layers t"
    "lrp_next (remote_layers t ! unat s) = Some (dest, i)" "c = cost i" "lu = last_updated i"
    by (cases rule: select_next_cases) auto
  have wf: "hm_wf m" "min_by_cost m = Some (dest, i)"
    using rt_wf_nth[OF assms(1) s(2)] s by (auto simp: lrp_wf_def m_def)
  from min_by_cost_Some[OF wf(2)] have mem: "(dest, i) \<in> set m" by blast
  then show "hm_get m dest = Some \<lparr>cost = c, last_updated = lu\<rparr>"
    using wf(1) s(4,5) by (cases i) (simp add: hm_get_mem)
  show "c \<le> cost info" if "hm_get m n = Some info"
    using min_by_cost_Some(2)[OF wf(2), of "(n, info)"] that wf(1) s by (simp add: hm_get_mem)
qed

lemma select_next_total_aux:
  assumes "unat (rend (local_layers t)) \<le> model_layers t" and "model_layers t < 2 ^ 32"
  shows "(\<exists>r. select_next t l = Inr r) \<longleftrightarrow> unat l < model_layers t"
proof -
  have "rend (local_layers t) = word_of_nat (model_layers t) \<or> unat (rend (local_layers t)) < model_layers t"
    using assms(1) by (metis le_neq_implies_less word_unat_eq_iff unat_u32_of_nat assms(2))
  then show ?thesis
    using assms
    by (auto simp: select_next_def Let_def vec_index_def range_contains_unat model_layers_def)
qed

section \<open>What each operation does to the entries\<close>

abbreviation entry_at :: "'n route_table \<Rightarrow> nat \<Rightarrow> 'n \<Rightarrow> layer_remote_info option" where
  "entry_at t i n \<equiv> hm_get (remotes (remote_layers t ! i)) n"

lemma entry_at_tick:
  assumes "rt_wf t" and "i < model_layers t"
  shows "entry_at (on_tick now t) i n =
    (case entry_at t i n of None \<Rightarrow> None
     | Some info \<Rightarrow> if last_updated info + ROUTE_TIMEOUT_MS > now then Some info else None)"
proof -
  have "hm_wf (remotes (remote_layers t ! i))" using rt_wf_nth[OF assms] by (simp add: lrp_wf_def)
  then show ?thesis
    by (simp add: remote_layers_nth assms tick_layer_def Let_def hm_get_retain)
qed

lemma entry_at_disconnected:
  assumes "i < model_layers t"
  shows "entry_at (on_disconnected node t) i n = (if n = node then None else entry_at t i n)"
  using assms by (auto simp: remote_layers_nth disconnect_layer_def hm_get_remove)

lemma entry_at_apply_sync:
  assumes "i < model_layers t"
  shows "entry_at (apply_sync from rtt sync t) i n =
    (if n = from then
       (case vec_get (sync_layers sync) i of
          Some (Some info) \<Rightarrow> Some (info\<lparr>cost := cost info + rtt\<rparr>) | _ \<Rightarrow> None)
     else entry_at t i n)"
  using assms
  by (auto simp: remote_layers_nth apply_sync_layer_def hm_get_insert hm_get_remove split: option.split)

lemma create_sync_nth:
  assumes "create_sync now t = Inr s"
  shows "length (sync_layers s) = model_layers t"
    and "i < model_layers t \<Longrightarrow>
      \<exists>p. select_next t (word_of_nat i) = Inr p \<and> sync_layers s ! i = map_option (sync_entry now) p"
  using assms by (auto simp: create_sync_def res_bind_Inr_iff res_mapM_Inr)

lemma create_sync_total:
  assumes "unat (rend (local_layers t)) \<le> model_layers t" and "model_layers t < 2 ^ 32"
  shows "\<exists>s. create_sync now t = Inr s"
proof -
  have "\<exists>r. select_next t (word_of_nat i) = Inr r" if "i < model_layers t" for i
    using assms that by (simp add: select_next_total_aux unat_u32_of_nat)
  then obtain g where g: "\<And>i. i < model_layers t \<Longrightarrow> select_next t (word_of_nat i) = Inr (g i)"
    by metis
  then have "res_mapM (\<lambda>layer. res_bind (select_next t (word_of_nat layer))
      (\<lambda>p. Inr (map_option (sync_entry now) p))) [0..<model_layers t]
      = Inr (map (\<lambda>i. map_option (sync_entry now) (g i)) [0..<model_layers t])"
    by (intro res_mapM_total) simp
  then show ?thesis by (simp add: create_sync_def)
qed

section \<open>Iteration order\<close>

text \<open>Two tables that differ in the iteration order of their hash maps only.\<close>

definition same_entries :: "'n route_table \<Rightarrow> 'n route_table \<Rightarrow> bool" where
  "same_entries t t' \<longleftrightarrow> local_layers t = local_layers t' \<and>
     list_all2 (\<lambda>r r'. mset (remotes r) = mset (remotes r')) (remote_layers t) (remote_layers t')"

definition path_view :: "'n route_path \<Rightarrow> u32_range option \<times> u32_range option \<times> u32" where
  "path_view p = (rp_local p, map_option (\<lambda>(_, r, _, _). r) (rp_remote p), path_cost p)"

lemma best_cost_same:
  assumes "lrp_wf r" and "lrp_wf r'" and "mset (remotes r) = mset (remotes r')"
  shows "map_option (\<lambda>(_, info). cost info) (lrp_next r) = map_option (\<lambda>(_, info). cost info) (lrp_next r')"
  using min_by_cost_perm[OF assms(3)] assms(1,2) by (simp add: lrp_wf_def comp_def case_prod_beta')

lemma select_next_same_entries:
  assumes "rt_wf t" and "rt_wf t'" and "same_entries t t'"
  shows "map_sum id (map_option path_view) (select_next t l) =
    map_sum id (map_option path_view) (select_next t' l)"
proof -
  have ml: "model_layers t' = model_layers t" and ll: "local_layers t' = local_layers t"
    using assms(3) by (auto simp: same_entries_def model_layers_def dest: list_all2_lengthD)
  have best: "map_option (\<lambda>(_, info). cost info) (lrp_next (remote_layers t ! i)) =
      map_option (\<lambda>(_, info). cost info) (lrp_next (remote_layers t' ! i))" if "i < model_layers t" for i
    using that assms ml
    by (intro best_cost_same rt_wf_nth) (auto simp: same_entries_def list_all2_conv_all_nth model_layers_def)
  have "map_option (\<lambda>x. path_view \<lparr>rp_local = a,
          rp_remote = Some (fst x, r, cost (snd x), last_updated (snd x))\<rparr>) (lrp_next (remote_layers t ! i)) =
      map_option (\<lambda>x. path_view \<lparr>rp_local = a,
          rp_remote = Some (fst x, r, cost (snd x), last_updated (snd x))\<rparr>) (lrp_next (remote_layers t' ! i))"
    if "i < model_layers t" for a r i
    using best[OF that]
    by (cases "lrp_next (remote_layers t ! i)"; cases "lrp_next (remote_layers t' ! i)")
      (auto simp: path_view_def path_cost_def)
  then show ?thesis
    by (simp add: select_next_def ml ll Let_def vec_index_def option.map_comp comp_def
        case_prod_beta' flip: model_layers_def)
qed

section \<open>Properties\<close>

text \<open>
  C4. Whatever path the router selects for a layer, its local part followed by its remote
  part is exactly the sequence of layers from that layer to the last one: no layer is
  skipped, repeated or out of order.
\<close>

theorem select_next_tiles:
  assumes "select_next t l = Inr (Some p)" and "model_layers t < 2 ^ 32"
  shows "path_layers p = [unat l ..< model_layers t]"
  using assms by (rule select_next_tiles_aux)

definition demo_table :: "nat route_table" where
  "demo_table = apply_sync 2 10
     \<lparr>sync_layers = [None, Some \<lparr>cost = 0, last_updated = 100\<rparr>, Some \<lparr>cost = 0, last_updated = 100\<rparr>]\<rparr>
     (rt_new 3 (mk_range 0 1))"

lemma demo_table_code:
  "demo_table = \<lparr>remote_layers =
     [\<lparr>remotes = [], lrp_next = None\<rparr>,
      \<lparr>remotes = [(2, \<lparr>cost = 10, last_updated = 100\<rparr>)],
       lrp_next = Some (2, \<lparr>cost = 10, last_updated = 100\<rparr>)\<rparr>,
      \<lparr>remotes = [(2, \<lparr>cost = 10, last_updated = 100\<rparr>)],
       lrp_next = Some (2, \<lparr>cost = 10, last_updated = 100\<rparr>)\<rparr>],
     local_layers = mk_range 0 1\<rparr>"
  by (simp add: demo_table_def route_defs upt_rec numeral_3_eq_3 vec_get_def)

theorem select_next_tiles_witness:
  "\<exists>p. select_next demo_table 0 = Inr (Some p) \<and> path_layers p = [0, 1, 2]"
proof -
  let ?p = "\<lparr>rp_local = Some (mk_range 0 1), rp_remote = Some (2, mk_range 1 3, 10, 100)\<rparr>"
  have "select_next demo_table 0 = Inr (Some ?p)"
    by (simp add: demo_table_code select_next_def Let_def range_contains_def model_layers_def vec_index_def)
  moreover have "model_layers demo_table = 3" by (simp add: demo_table_code model_layers_def)
  moreover note select_next_tiles[OF calculation(1)]
  ultimately show ?thesis by (auto simp: upt_rec numeral_3_eq_3)
qed

text \<open>
  C18. After any sequence of ticks, disconnects and route syncs on a new table, the
  neighbour the router selects is one of the neighbours known for the layer where the
  remote part starts, with exactly the cost and time stamp recorded for it, and no known
  neighbour of that layer is cheaper.
\<close>

theorem select_next_cheapest:
  assumes "t = fold rt_step ops (rt_new n rng)"
    and "select_next t l = Inr (Some p)"
    and "rp_remote p = Some (dest, r, c, lu)"
  shows "entry_at t (unat (rstart r)) dest = Some \<lparr>cost = c, last_updated = lu\<rparr> \<and>
    (\<forall>m info. entry_at t (unat (rstart r)) m = Some info \<longrightarrow> c \<le> cost info)"
proof -
  have "rt_wf t" using rt_run_frame[OF rt_wf_new] assms(1) by blast
  from select_next_cheapest_aux[OF this assms(2,3)] show ?thesis by blast
qed

theorem select_next_cheapest_witness:
  "entry_at demo_table 1 2 = Some \<lparr>cost = 10, last_updated = 100\<rparr> \<and>
   select_next demo_table 0 =
     Inr (Some \<lparr>rp_local = Some (mk_range 0 1), rp_remote = Some (2, mk_range 1 3, 10, 100)\<rparr>)"
proof -
  let ?s = "\<lparr>sync_layers = [None, Some \<lparr>cost = 0, last_updated = 100\<rparr>, Some \<lparr>cost = 0, last_updated = 100\<rparr>]\<rparr>"
  let ?p = "\<lparr>rp_local = Some (mk_range 0 1), rp_remote = Some (2, mk_range 1 3, 10, 100)\<rparr>"
  have 1: "demo_table = fold rt_step [Sync 2 10 ?s] (rt_new 3 (mk_range 0 1))"
    by (simp add: demo_table_def)
  have 2: "select_next demo_table 0 = Inr (Some ?p)"
    by (simp add: demo_table_code select_next_def Let_def range_contains_def model_layers_def vec_index_def)
  show ?thesis using select_next_cheapest[OF 1 2] 2 by simp
qed

text \<open>
  With a local range inside the model, selecting the path for a layer returns exactly
  when the layer exists; any other layer is an out-of-bounds index, a panic. Making the
  sync message of a node never panics.
\<close>

theorem select_next_panics_iff:
  assumes "unat (rend (local_layers t)) \<le> model_layers t" and "model_layers t < 2 ^ 32"
  shows "(select_next t l = Inl IndexOutOfBounds \<longleftrightarrow> model_layers t \<le> unat l) \<and>
    (\<exists>s. create_sync now t = Inr s)"
proof -
  have "select_next t l = Inl q \<Longrightarrow> q = IndexOutOfBounds" for q
    by (auto simp: select_next_def Let_def vec_index_def split: if_splits)
  moreover have "(\<exists>r. select_next t l = Inr r) \<longleftrightarrow> unat l < model_layers t"
    using assms by (rule select_next_total_aux)
  ultimately show ?thesis
    using create_sync_total[OF assms] by (cases "select_next t l") auto
qed

theorem select_next_panics_iff_witness: "select_next demo_table 3 = Inl IndexOutOfBounds"
proof -
  have "unat (rend (local_layers demo_table)) \<le> model_layers demo_table" "model_layers demo_table < 2 ^ 32"
    "model_layers demo_table \<le> unat (3 :: u32)"
    by (simp_all add: demo_table_code model_layers_def)
  then show ?thesis using select_next_panics_iff[of demo_table 3] by simp
qed

text \<open>
  C19. A tick keeps an entry exactly when its time stamp plus the five-second timeout, in
  wrapping 64-bit arithmetic, lies after the current time, and changes no kept entry; a
  path selected after the tick never goes through an expired entry.
\<close>

theorem on_tick_expires:
  assumes "rt_wf t" and "i < model_layers t"
  shows "entry_at (on_tick now t) i n =
      (case entry_at t i n of None \<Rightarrow> None
       | Some info \<Rightarrow> if last_updated info + ROUTE_TIMEOUT_MS > now then Some info else None)
    \<and> (select_next (on_tick now t) l = Inr (Some p) \<and> rp_remote p = Some (dest, r, c, lu) \<longrightarrow>
        lu + ROUTE_TIMEOUT_MS > now)"
proof (intro conjI impI entry_at_tick[OF assms])
  assume p: "select_next (on_tick now t) l = Inr (Some p) \<and> rp_remote p = Some (dest, r, c, lu)"
  then have "unat (rstart r) < model_layers t" by (auto elim!: select_next_cases)
  moreover have "entry_at (on_tick now t) (unat (rstart r)) dest = Some \<lparr>cost = c, last_updated = lu\<rparr>"
    using p by (blast intro: select_next_cheapest_aux(1)[OF rt_wf_ops(1)[OF assms(1)]])
  ultimately show "lu + ROUTE_TIMEOUT_MS > now"
    using entry_at_tick[OF assms(1)] by (auto split: option.splits if_splits)
qed

definition demo_path :: "nat route_path" where
  "demo_path = \<lparr>rp_local = Some (mk_range 0 1), rp_remote = Some (2, mk_range 1 3, 10, 100)\<rparr>"

lemma demo_table_wf: "rt_wf demo_table" "model_layers demo_table = 3"
  by (simp_all add: demo_table_code rt_wf_def lrp_wf_def hm_wf_def model_layers_def)

theorem on_tick_expires_witness:
  "entry_at (on_tick 5100 demo_table) 1 2 = None \<and>
   select_next (on_tick 200 demo_table) 0 = Inr (Some demo_path) \<and> (200::u64) < 100 + ROUTE_TIMEOUT_MS"
proof -
  have e: "entry_at demo_table 1 2 = Some \<lparr>cost = 10, last_updated = 100\<rparr>"
    by (simp add: demo_table_code)
  have p: "select_next (on_tick 200 demo_table) 0 = Inr (Some demo_path)"
    by (simp add: demo_table_code demo_path_def select_next_def Let_def range_contains_def
        on_tick_def tick_layer_def hm_retain_def ROUTE_TIMEOUT_MS_def model_layers_def vec_index_def)
  show ?thesis
    using on_tick_expires[of demo_table 1 5100 2] e p
      on_tick_expires[of demo_table 1 200 2 0 demo_path 2 "mk_range 1 3" 10 100]
    by (simp add: demo_table_wf demo_path_def ROUTE_TIMEOUT_MS_def)
qed

text \<open>
  When a neighbour disconnects, its entries disappear from every layer, every other
  entry stays, and no path selected afterwards goes through it.
\<close>

theorem on_disconnected_removes:
  assumes "rt_wf t" and "i < model_layers t"
  shows "entry_at (on_disconnected node t) i n = (if n = node then None else entry_at t i n)
    \<and> (select_next (on_disconnected node t) l = Inr (Some p) \<and> rp_remote p = Some (dest, r, c, lu) \<longrightarrow>
        dest \<noteq> node)"
proof (intro conjI impI entry_at_disconnected[OF assms(2)])
  assume p: "select_next (on_disconnected node t) l = Inr (Some p) \<and> rp_remote p = Some (dest, r, c, lu)"
  then have "unat (rstart r) < model_layers t" by (auto elim!: select_next_cases)
  moreover have "entry_at (on_disconnected node t) (unat (rstart r)) dest = Some \<lparr>cost = c, last_updated = lu\<rparr>"
    using p by (blast intro: select_next_cheapest_aux(1)[OF rt_wf_ops(2)[OF assms(1)]])
  ultimately show "dest \<noteq> node" using entry_at_disconnected by fastforce
qed

theorem on_disconnected_removes_witness:
  "entry_at (on_disconnected 2 demo_table) 1 2 = None \<and>
   select_next (on_disconnected 5 demo_table) 0 = Inr (Some demo_path) \<and> (2::nat) \<noteq> 5"
proof -
  have p: "select_next (on_disconnected 5 demo_table) 0 = Inr (Some demo_path)"
    by (simp add: demo_table_code demo_path_def select_next_def Let_def range_contains_def
        on_disconnected_def disconnect_layer_def model_layers_def vec_index_def)
  show ?thesis
    using on_disconnected_removes[of demo_table 1 2 2] p
      on_disconnected_removes[of demo_table 1 5 2 0 demo_path 2 "mk_range 1 3" 10 100]
    by (simp add: demo_table_wf demo_path_def)
qed


lemma rt_new_local_path:
  "range_contains (mk_range a b) l \<Longrightarrow> b = word_of_nat n \<Longrightarrow>
   select_next (rt_new n (mk_range a b)) l =
     Inr (Some \<lparr>rp_local = Some (mk_range l b), rp_remote = None\<rparr>)"
  by (simp add: select_next_def)


text \<open>
  C20. The unspecified iteration order of Rust's hash maps is not observable in routing
  beyond the choice among equally cheap neighbours: two tables with the same entries in
  different order select paths with the same local part, the same remote layers and the
  same cost, or both select none, or both panic.
\<close>

theorem routing_order_independent:
  assumes "rt_wf t" and "rt_wf t'" and "same_entries t t'"
  shows "map_sum id (map_option path_view) (select_next t l) =
    map_sum id (map_option path_view) (select_next t' l)"
  using assms by (rule select_next_same_entries)

definition two_peers :: "(nat \<times> layer_remote_info) list" where
  "two_peers = [(1, \<lparr>cost = 5, last_updated = 7\<rparr>), (2, \<lparr>cost = 5, last_updated = 9\<rparr>)]"

theorem routing_order_independent_witness:
  "let t = \<lparr>remote_layers = [update_best \<lparr>remotes = two_peers, lrp_next = None\<rparr>],
              local_layers = mk_range 0 0\<rparr>;
       t' = \<lparr>remote_layers = [update_best \<lparr>remotes = rev two_peers, lrp_next = None\<rparr>],
              local_layers = mk_range 0 0\<rparr>
   in map_sum id (map_option path_view) (select_next t 0) =
      map_sum id (map_option path_view) (select_next t' 0) \<and> select_next t 0 \<noteq> select_next t' 0"
proof -
  let ?t = "\<lparr>remote_layers = [update_best \<lparr>remotes = two_peers, lrp_next = None\<rparr>],
              local_layers = mk_range 0 0\<rparr>"
  let ?t' = "\<lparr>remote_layers = [update_best \<lparr>remotes = rev two_peers, lrp_next = None\<rparr>],
              local_layers = mk_range 0 0\<rparr>"
  have "rt_wf ?t" "rt_wf ?t'" "same_entries ?t ?t'"
    by (simp_all add: rt_wf_def hm_wf_def two_peers_def same_entries_def)
  then have "map_sum id (map_option path_view) (select_next ?t 0) =
      map_sum id (map_option path_view) (select_next ?t' 0)" by (rule routing_order_independent)
  moreover have "select_next ?t 0 \<noteq> select_next ?t' 0"
    by (simp add: select_next_def model_layers_def vec_index_def two_peers_def range_contains_def)
  ultimately show ?thesis unfolding Let_def by blast
qed

end
