(* ===== verification/Protocol.thy ===== *)
theory Protocol
  imports Route_Table
begin

text \<open>
  The messages the processes exchange: the Protocol Buffers schemas of
  \<^verbatim>\<open>crates/protocol/protobuf\<close> (a \<open>oneof\<close> is an \<open>option\<close> of a datatype, a
  sub-message an \<open>option\<close>), the conversions of \<^verbatim>\<open>crates/protocol/src/lib.rs\<close>
  between the router's sync and its wire form, and the configuration of a chat. Floating
  point fields are kept as their IEEE bit patterns; nothing here computes with them.
\<close>

type_synonym f32 = "32 word"
type_synonym f64 = "64 word"
type_synonym node_id = string
type_synonym conn_id = u64
type_synonym session = u64

section \<open>Inference requests (llm.proto)\<close>

record start_req =
  sreq_session :: u64
  sreq_chat_id :: u64
  sreq_from_layer :: u32
  sreq_metadata :: bytes
  sreq_chain_index :: u32
  sreq_max_tokens :: u32

record start_res =
  sres_success :: bool
  sres_metadata :: bytes

record forward_req =
  freq_session :: u64
  freq_step :: u32
  freq_embedding :: bytes
  freq_index_pos :: u32
  freq_seq_len :: u32
  freq_metadata :: bytes
  freq_chain_index :: u32

record forward_res =
  fres_success :: bool
  fres_embedding :: bytes
  fres_metadata :: bytes

record end_req =
  ereq_session :: u64
  ereq_metadata :: bytes
  ereq_chain_index :: u32

record end_res =
  eres_success :: bool
  eres_metadata :: bytes

section \<open>Worker to worker (worker.proto)\<close>

record wire_layer_info =
  enable :: bool
  wcost :: u32
  wlast_updated :: u64

record sync_req =
  wire_layers :: "wire_layer_info list"

record rpc_req =
  rreq_seq :: u32
  rreq_cmd :: string
  rreq_payload :: bytes

record rpc_res =
  rres_seq :: u32
  rres_success :: bool
  rres_payload :: bytes

datatype worker_event =
    EvSyncReq sync_req
  | EvSyncRes
  | EvRpcReq rpc_req
  | EvRpcRes rpc_res

section \<open>Worker and registry (registry.proto)\<close>

datatype relay_payload =
    RelayOffer conn_id string
  | RelayAnswer conn_id string

text \<open>\<open>RelayData\<close> is a message with one optional field.\<close>

type_synonym relay_data = "relay_payload option"

record stats =
  network_in_bytes :: u64
  network_out_bytes :: u64
  token_in_sum :: u32
  token_out_sum :: u32
  network_in_bps :: u64
  network_out_bps :: u64
  token_in_tps :: f32
  token_out_tps :: f32

definition stats_default :: stats where
  "stats_default =
     \<lparr>network_in_bytes = 0, network_out_bytes = 0, token_in_sum = 0, token_out_sum = 0,
      network_in_bps = 0, network_out_bps = 0, token_in_tps = 0, token_out_tps = 0\<rparr>"

datatype to_registry_event =
    RegUpdate u32 u32
  | RegNeighbours
  | RegRelay string "relay_data option"
  | RegStats stats

datatype to_worker_event =
    WkUpdate "string list"
  | WkNeighbours "string list"
  | WkRelay string "relay_data option"

section \<open>Route sync on the wire\<close>

definition layer_to_wire :: "layer_remote_info option \<Rightarrow> wire_layer_info" where
  "layer_to_wire l = (case l of
       Some l \<Rightarrow> \<lparr>enable = True, wcost = cost l, wlast_updated = last_updated l\<rparr>
     | None \<Rightarrow> \<lparr>enable = False, wcost = 0, wlast_updated = 0\<rparr>)"

definition sync_req_from :: "route_sync \<Rightarrow> sync_req" where
  "sync_req_from value = \<lparr>wire_layers = map layer_to_wire (sync_layers value)\<rparr>"

definition layer_from_wire :: "wire_layer_info \<Rightarrow> layer_remote_info option" where
  "layer_from_wire l =
     (if enable l then Some \<lparr>cost = wcost l, last_updated = wlast_updated l\<rparr> else None)"

definition route_sync_from :: "sync_req \<Rightarrow> route_sync" where
  "route_sync_from value = \<lparr>sync_layers = map layer_from_wire (wire_layers value)\<rparr>"

lemma layer_wire_inverse: "layer_from_wire (layer_to_wire l) = l"
  by (simp add: layer_from_wire_def layer_to_wire_def split: option.split)

lemma layer_to_wire_enable: "enable (layer_to_wire l) \<longleftrightarrow> l \<noteq> None"
  by (simp add: layer_to_wire_def split: option.split)

lemma layer_wire_inverse': "enable w \<Longrightarrow> layer_to_wire (layer_from_wire w) = w"
  by (simp add: layer_from_wire_def layer_to_wire_def)

lemma route_sync_roundtrip_aux: "route_sync_from (sync_req_from s) = s"
  by (simp add: route_sync_from_def sync_req_from_def comp_def layer_wire_inverse)

section \<open>Chat configuration (model.rs)\<close>

record chat_cfg =
  seed :: u64
  temperature :: f64
  top_k :: "usize option"
  top_p :: "f64 option"
  max_len :: u32
  repeat_penalty :: f32
  repeat_last_n :: usize

text \<open>The bit patterns of \<open>0.8\<close> (double) and \<open>1.1\<close> (single).\<close>

definition chat_cfg_default :: chat_cfg where
  "chat_cfg_default =
     \<lparr>seed = 1234, temperature = 0x3FE999999999999A, top_k = None, top_p = None,
      max_len = 1024, repeat_penalty = 0x3F8CCCCD, repeat_last_n = 128\<rparr>"

section \<open>Properties\<close>

text \<open>
  The wire form of a route sync loses nothing: converting a sync to its message and
  back gives the same sync, for every table, so a neighbour applies exactly what the
  node created; and the absence of a route is never confused with a route of cost zero.
\<close>

theorem route_sync_roundtrip:
  "route_sync_from (sync_req_from s) = s \<and>
   map enable (wire_layers (sync_req_from s)) = map (\<lambda>l. l \<noteq> None) (sync_layers s)"
  by (intro conjI route_sync_roundtrip_aux) (simp add: sync_req_from_def comp_def layer_to_wire_enable)

section \<open>Protobuf streams\<close>

text \<open>
  The two \<open>ProtobufStream\<close>s of \<^verbatim>\<open>crates/registry/src/client/protobuf_stream.rs\<close> and
  \<^verbatim>\<open>server/protobuf_stream.rs\<close>: a message is one binary frame of a web socket, and every
  other frame, a ping as well as a text, is an error. The codec is a parameter.
\<close>

datatype ws_frame = BinaryFrame bytes | OtherFrame | FrameError string

definition ps_write :: "('m \<Rightarrow> bytes) \<Rightarrow> 'm \<Rightarrow> ws_frame" where
  "ps_write encode m = BinaryFrame (encode m)"

definition ps_read :: "(bytes \<Rightarrow> 'm option) \<Rightarrow> ws_frame \<Rightarrow> string + 'm" where
  "ps_read decode msg = (case msg of
       BinaryFrame buf \<Rightarrow> (case decode buf of Some m \<Rightarrow> Inr m | None \<Rightarrow> Inl ''InvalidData'')
     | OtherFrame \<Rightarrow> Inl ''OnlySupportBinary''
     | FrameError e \<Rightarrow> Inl e)"

lemma ps_roundtrip: "decode (encode m) = Some m \<Longrightarrow> ps_read decode (ps_write encode m) = Inr m"
  by (simp add: ps_read_def ps_write_def)

end
