(* ===== verification/Registry_Server.thy ===== *)
theory Registry_Server
  imports Protocol
begin

text \<open>
  The registry: the catalogue of models (\<^verbatim>\<open>crates/registry/src/lib.rs\<close>), the
  members of one model's swarm (\<^verbatim>\<open>server/session_manager.rs\<close>) and the server
  that multiplexes the web-socket connections over them (\<^verbatim>\<open>server/mod.rs\<close>). A
  channel end is identified by a number; what the server sends is the list of its
  outputs, each with the channel it goes to. The web-socket handler is the sequence of
  events one connection hands to the server.
\<close>

section \<open>The catalogue of models\<close>

record model_info =
  mi_id :: string
  mi_layers :: usize
  mi_memory :: usize

definition SUPPORTED_MODELS :: "model_info list" where
  "SUPPORTED_MODELS =
     [\<lparr>mi_id = ''llama32-1b'', mi_layers = 16, mi_memory = 3\<rparr>,
      \<lparr>mi_id = ''llama32-3b'', mi_layers = 28, mi_memory = 8\<rparr>,
      \<lparr>mi_id = ''phi3'', mi_layers = 32, mi_memory = 4\<rparr>]"

definition get_model_info :: "string \<Rightarrow> model_info option" where
  "get_model_info i = find (\<lambda>m. mi_id m = i) SUPPORTED_MODELS"

section \<open>Session manager\<close>

record node_info =
  ni_layers :: "u32_range option"
  ni_stats :: stats

record session_manager =
  sm_nodes :: "(node_id, node_info) hmap"
  sm_events :: "(node_id \<times> to_worker_event) list"

definition node_info_default :: node_info where
  "node_info_default = \<lparr>ni_layers = None, ni_stats = stats_default\<rparr>"

definition sm_default :: session_manager where
  "sm_default = \<lparr>sm_nodes = [], sm_events = []\<rparr>"

definition on_start :: "node_id \<Rightarrow> session_manager \<Rightarrow> session_manager" where
  "on_start node m = m\<lparr>sm_nodes := hm_insert node node_info_default (sm_nodes m)\<rparr>"

definition max_layer :: "(node_id, node_info) hmap \<Rightarrow> u32" where
  "max_layer nodes = fold (\<lambda>(_, info) acc. case ni_layers info of
       Some layers \<Rightarrow> if rend layers > acc then rend layers else acc
     | None \<Rightarrow> acc) nodes 0"

definition bump_layer :: "nat \<Rightarrow> usize list \<Rightarrow> usize list res" where
  "bump_layer layer layers =
     res_bind (vec_index layers layer) (\<lambda>c. Inr (layers[layer := c + 1]))"

definition add_node_layers :: "node_id \<times> node_info \<Rightarrow> usize list \<Rightarrow> usize list res" where
  "add_node_layers e layers = (case ni_layers (snd e) of
       Some node_layers \<Rightarrow> res_foldM bump_layer (range_list node_layers) layers
     | None \<Rightarrow> Inr layers)"

definition get_distribution :: "session_manager \<Rightarrow> usize list res" where
  "get_distribution m =
     res_foldM add_node_layers (sm_nodes m) (replicate (unat (max_layer (sm_nodes m))) 0)"

definition other_nodes :: "node_id \<Rightarrow> session_manager \<Rightarrow> node_id list" where
  "other_nodes node m = filter (\<lambda>n. n \<noteq> node) (hm_keys (sm_nodes m))"

definition update_node ::
    "node_id \<Rightarrow> (node_info \<Rightarrow> node_info) \<Rightarrow> session_manager \<Rightarrow> session_manager res" where
  "update_node node f m =
     res_bind (unwrap_option (ExpectFailed ''Should have node'') (hm_get (sm_nodes m) node))
       (\<lambda>info. Inr (m\<lparr>sm_nodes := hm_insert node (f info) (sm_nodes m)\<rparr>))"

definition push_event :: "node_id \<Rightarrow> to_worker_event \<Rightarrow> session_manager \<Rightarrow> session_manager" where
  "push_event dest ev m = m\<lparr>sm_events := push_back (sm_events m) (dest, ev)\<rparr>"

fun on_event :: "node_id \<Rightarrow> to_registry_event \<Rightarrow> session_manager \<Rightarrow> session_manager res" where
  "on_event node (RegUpdate from_layer to_layer) m =
     res_bind (update_node node (\<lambda>i. i\<lparr>ni_layers := Some (mk_range from_layer to_layer)\<rparr>) m)
       (\<lambda>m. Inr (push_event node (WkUpdate (other_nodes node m)) m))"
| "on_event node RegNeighbours m = Inr (push_event node (WkNeighbours (other_nodes node m)) m)"
| "on_event node (RegRelay dest data) m =
     Inr (if hm_contains (sm_nodes m) dest then push_event dest (WkRelay node data) m else m)"
| "on_event node (RegStats s) m = update_node node (\<lambda>i. i\<lparr>ni_stats := s\<rparr>) m"

definition on_end :: "node_id \<Rightarrow> session_manager \<Rightarrow> session_manager" where
  "on_end node m = m\<lparr>sm_nodes := hm_remove node (sm_nodes m)\<rparr>"

definition pop_out ::
    "session_manager \<Rightarrow> (node_id \<times> to_worker_event) option \<times> session_manager" where
  "pop_out m = (case pop_front (sm_events m) of
       None \<Rightarrow> (None, m)
     | Some (e, es) \<Rightarrow> (Some e, m\<lparr>sm_events := es\<rparr>))"

section \<open>The server\<close>

type_synonym chan = nat

record swarm_node =
  swn_id :: string
  swn_info :: node_info

record model_swarm_health =
  msh_model :: string
  msh_total_layers :: usize
  msh_memory :: usize
  msh_nodes :: "swarm_node list"

datatype stream_event =
    StStart string node_id chan
  | StEvent string node_id to_registry_event
  | StEnd string node_id
  | StDistribution string chan
  | StHealth chan

datatype reg_out =
    OutWorker chan to_worker_event
  | OutDistribution chan "usize list"
  | OutHealth chan "model_swarm_health list"

record registry_server =
  rs_models :: "(string, session_manager) hmap"
  rs_streams :: "(string \<times> node_id, chan) hmap"

definition rs_new :: registry_server where
  "rs_new = \<lparr>rs_models = [], rs_streams = []\<rparr>"

text \<open>\<open>entry(model).or_default()\<close>: the manager of a model, created empty on first use.\<close>

definition entry_of :: "registry_server \<Rightarrow> string \<Rightarrow> session_manager" where
  "entry_of s model = (case hm_get (rs_models s) model of Some m \<Rightarrow> m | None \<Rightarrow> sm_default)"

definition set_entry :: "string \<Rightarrow> session_manager \<Rightarrow> registry_server \<Rightarrow> registry_server" where
  "set_entry model m s = s\<lparr>rs_models := hm_insert model m (rs_models s)\<rparr>"

text \<open>The loop that pops every queued event and sends it to the stream of its destination.\<close>

function drain_out ::
    "(string \<times> node_id, chan) hmap \<Rightarrow> string \<Rightarrow> session_manager \<Rightarrow> reg_out list \<times> session_manager" where
  "drain_out streams model m = (case pop_out m of
       (None, m') \<Rightarrow> ([], m')
     | (Some (dest, out), m') \<Rightarrow>
         let (outs, m'') = drain_out streams model m'
         in ((case hm_get streams (model, dest) of Some tx \<Rightarrow> [OutWorker tx out] | None \<Rightarrow> []) @ outs, m''))"
  by pat_completeness auto
termination
  by (relation "measure (\<lambda>(_, _, m). length (sm_events m))")
    (auto simp: pop_out_def split: option.splits elim: pop_front.elims)

declare drain_out.simps [simp del]

definition health_of :: "string \<times> session_manager \<Rightarrow> model_swarm_health" where
  "health_of e =
     (let nodes = map (\<lambda>(node, info). \<lparr>swn_id = node, swn_info = info\<rparr>) (sm_nodes (snd e))
      in case get_model_info (fst e) of
           Some mi \<Rightarrow> \<lparr>msh_model = fst e, msh_total_layers = mi_layers mi,
                       msh_memory = mi_memory mi, msh_nodes = nodes\<rparr>
         | None \<Rightarrow> \<lparr>msh_model = fst e, msh_total_layers = 0, msh_memory = 0, msh_nodes = nodes\<rparr>)"

fun rs_recv :: "stream_event \<Rightarrow> registry_server \<Rightarrow> (registry_server \<times> reg_out list) res" where
  "rs_recv (StStart model node tx) s =
     (let s = s\<lparr>rs_streams := hm_insert (model, node) tx (rs_streams s)\<rparr>
      in Inr (set_entry model (on_start node (entry_of s model)) s, []))"
| "rs_recv (StEvent model node ev) s =
     res_bind (on_event node ev (entry_of s model)) (\<lambda>m.
       let (outs, m') = drain_out (rs_streams s) model m in Inr (set_entry model m' s, outs))"
| "rs_recv (StEnd model node) s =
     (let s = s\<lparr>rs_streams := hm_remove (model, node) (rs_streams s)\<rparr>
      in Inr (set_entry model (on_end node (entry_of s model)) s, []))"
| "rs_recv (StDistribution model tx) s =
     res_bind (case hm_get (rs_models s) model of Some m \<Rightarrow> get_distribution m | None \<Rightarrow> Inr [])
       (\<lambda>d. Inr (s, [OutDistribution tx d]))"
| "rs_recv (StHealth tx) s = Inr (s, [OutHealth tx (map health_of (rs_models s))])"

text \<open>\<open>RegistryServer::send\<close>.\<close>

definition rs_send :: "string \<Rightarrow> node_id \<Rightarrow> to_worker_event \<Rightarrow> registry_server \<Rightarrow> reg_out list" where
  "rs_send model node data s =
     (case hm_get (rs_streams s) (model, node) of Some tx \<Rightarrow> [OutWorker tx data] | None \<Rightarrow> [])"

fun rs_run :: "stream_event list \<Rightarrow> registry_server \<Rightarrow> (registry_server \<times> reg_out list) res" where
  "rs_run [] s = Inr (s, [])"
| "rs_run (e # es) s =
     res_bind (rs_recv e s) (\<lambda>(s', outs). res_bind (rs_run es s') (\<lambda>(s'', outs'). Inr (s'', outs @ outs')))"

section \<open>The web-socket handler\<close>

datatype ws_input =
    WsMsg "to_registry_event option"
  | WsReadEnd
  | WsOut to_worker_event
  | WsOutClosed

text \<open>What the handler makes of a frame: an error of the stream ends the loop.\<close>

definition ws_input_of :: "(bytes \<Rightarrow> to_registry_event option option) \<Rightarrow> ws_frame \<Rightarrow> ws_input" where
  "ws_input_of decode frame = (case ps_read decode frame of Inr ev \<Rightarrow> WsMsg ev | Inl _ \<Rightarrow> WsReadEnd)"

text \<open>The loop of the handler: the events it sends to the server and the messages it writes.\<close>

fun ws_loop :: "string \<Rightarrow> node_id \<Rightarrow> ws_input list \<Rightarrow> stream_event list \<times> to_worker_event list" where
  "ws_loop model node [] = ([], [])"
| "ws_loop model node (WsMsg (Some ev) # ins) =
     (let (evs, ws) = ws_loop model node ins in (StEvent model node ev # evs, ws))"
| "ws_loop model node (WsMsg None # ins) = ws_loop model node ins"
| "ws_loop model node (WsReadEnd # ins) = ([], [])"
| "ws_loop model node (WsOut out # ins) =
     (let (evs, ws) = ws_loop model node ins in (evs, out # ws))"
| "ws_loop model node (WsOutClosed # ins) = ([], [])"

definition ws_handler ::
    "string \<Rightarrow> node_id \<Rightarrow> chan \<Rightarrow> ws_input list \<Rightarrow> stream_event list \<times> to_worker_event list" where
  "ws_handler model node tx ins =
     (let (evs, ws) = ws_loop model node ins
      in (StStart model node tx # evs @ [StEnd model node], ws))"

section \<open>The distribution\<close>

definition serves :: "node_info \<Rightarrow> nat \<Rightarrow> bool" where
  "serves info i \<longleftrightarrow> (case ni_layers info of Some r \<Rightarrow> i \<in> set (range_list r) | None \<Rightarrow> False)"

definition servers_of :: "(node_id, node_info) hmap \<Rightarrow> nat \<Rightarrow> node_id set" where
  "servers_of nodes i = {n. \<exists>info. hm_get nodes n = Some info \<and> serves info i}"

lemma count_list_distinct: "distinct xs \<Longrightarrow> count_list xs k = (if k \<in> set xs then 1 else 0)"
  by (induction xs) auto

lemma bump_layers:
  assumes "\<forall>i \<in> set is. i < length l"
  shows "\<exists>l'. res_foldM bump_layer is l = Inr l' \<and> length l' = length l \<and>
    (\<forall>k < length l. l' ! k = l ! k + word_of_nat (count_list is k))"
  using assms
proof (induction "is" arbitrary: l)
  case Nil
  then show ?case by simp
next
  case (Cons i "is")
  let ?l = "l[i := l ! i + 1]"
  from Cons.prems Cons.IH[of ?l] obtain l' where
    l': "res_foldM bump_layer is ?l = Inr l'" "length l' = length l"
      "\<forall>k < length l. l' ! k = ?l ! k + word_of_nat (count_list is k)" by auto
  have "l' ! k = l ! k + word_of_nat (count_list (i # is) k)" if "k < length l" for k
    using l'(3) Cons.prems that by (auto simp: nth_list_update add.assoc)
  moreover have "res_foldM bump_layer (i # is) l = Inr l'"
    using l'(1) Cons.prems by (simp add: bump_layer_def vec_index_def)
  ultimately show ?case using l'(2) by blast
qed

lemma max_layer_fold:
  defines "f \<equiv> \<lambda>(_, info) acc. case ni_layers info of
       Some layers \<Rightarrow> if rend layers > acc then rend layers else acc | None \<Rightarrow> acc"
  shows "acc \<le> fold f nodes acc \<and>
    (\<forall>(n, info) \<in> set nodes. \<forall>r. ni_layers info = Some r \<longrightarrow> rend r \<le> fold f nodes acc) \<and>
    (fold f nodes acc = acc \<or> (\<exists>(n, info) \<in> set nodes. \<exists>r. ni_layers info = Some r \<and> rend r = fold f nodes acc))"
proof (induction nodes arbitrary: acc)
  case Nil
  then show ?case by simp
next
  case (Cons e nodes)
  obtain n info where e: "e = (n, info)" by (cases e)
  define acc' where "acc' = f e acc"
  have acc': "acc \<le> acc'" "\<And>r. ni_layers info = Some r \<Longrightarrow> rend r \<le> acc'"
      "acc' = acc \<or> (\<exists>r. ni_layers info = Some r \<and> rend r = acc')"
    by (auto simp: acc'_def f_def e split: option.splits)
  define F where "F = fold f nodes acc'"
  have F: "fold f (e # nodes) acc = F" by (simp add: F_def acc'_def)
  have IH: "acc' \<le> F" "\<And>n info r. (n, info) \<in> set nodes \<Longrightarrow> ni_layers info = Some r \<Longrightarrow> rend r \<le> F"
      "F = acc' \<or> (\<exists>(n, info) \<in> set nodes. \<exists>r. ni_layers info = Some r \<and> rend r = F)"
    using Cons[of acc'] by (auto simp: F_def)
  have "acc \<le> F" using acc'(1) IH(1) by (rule order_trans)
  moreover have "rend r \<le> F" if "(n', i') \<in> set (e # nodes)" "ni_layers i' = Some r" for n' i' r
    using that IH(2) order_trans[OF acc'(2) IH(1)] by (auto simp: e)
  moreover have "F = acc \<or> (\<exists>(n, info) \<in> set (e # nodes). \<exists>r. ni_layers info = Some r \<and> rend r = F)"
    using IH(3) acc'(3) by (auto simp: e)
  ultimately show ?case unfolding F by blast
qed

lemma max_layer_bound:
  "(n, info) \<in> set nodes \<Longrightarrow> ni_layers info = Some r \<Longrightarrow> rend r \<le> max_layer nodes"
  using max_layer_fold[of 0 nodes] by (auto simp: max_layer_def)

lemma max_layer_attained:
  "max_layer nodes = 0 \<or> (\<exists>n info r. (n, info) \<in> set nodes \<and> ni_layers info = Some r \<and> rend r = max_layer nodes)"
  using max_layer_fold[of 0 nodes] by (auto simp: max_layer_def)

lemma add_nodes_layers:
  assumes "\<And>n info r. (n, info) \<in> set nodes \<Longrightarrow> ni_layers info = Some r \<Longrightarrow> unat (rend r) \<le> length l"
  shows "\<exists>l'. res_foldM add_node_layers nodes l = Inr l' \<and> length l' = length l \<and>
    (\<forall>k < length l. l' ! k = l ! k + word_of_nat (length (filter (\<lambda>e. serves (snd e) k) nodes)))"
  using assms
proof (induction nodes arbitrary: l)
  case Nil
  then show ?case by simp
next
  case (Cons e nodes)
  have "\<exists>l'. add_node_layers e l = Inr l' \<and> length l' = length l \<and>
      (\<forall>k < length l. l' ! k = l ! k + (if serves (snd e) k then 1 else 0))"
  proof (cases "ni_layers (snd e)")
    case (Some r)
    have "(fst e, snd e) \<in> set (e # nodes)" by simp
    from Cons.prems[OF this Some] have "\<forall>i \<in> set (range_list r). i < length l"
      by (auto simp: range_list_def)
    from bump_layers[OF this] show ?thesis
      by (auto simp: add_node_layers_def serves_def Some count_list_distinct range_list_def)
  qed (simp add: add_node_layers_def serves_def)
  then obtain l1 where l1: "add_node_layers e l = Inr l1" "length l1 = length l"
      "\<And>k. k < length l \<Longrightarrow> l1 ! k = l ! k + (if serves (snd e) k then 1 else 0)" by auto
  have "\<exists>l'. res_foldM add_node_layers nodes l1 = Inr l' \<and> length l' = length l1 \<and>
    (\<forall>k < length l1. l' ! k = l1 ! k + word_of_nat (length (filter (\<lambda>e. serves (snd e) k) nodes)))"
    using Cons.prems l1(2) by (intro Cons.IH) (metis list.set_intros(2))
  with l1 show ?case by (auto simp: add.assoc)
qed

lemma servers_count:
  assumes "hm_wf nodes"
  shows "length (filter (\<lambda>e. serves (snd e) k) nodes) = card (servers_of nodes k)"
proof -
  have "distinct (map fst (filter (\<lambda>e. serves (snd e) k) nodes))"
    using assms by (simp add: hm_wf_def distinct_map_filter)
  then have "length (filter (\<lambda>e. serves (snd e) k) nodes) =
      card (set (map fst (filter (\<lambda>e. serves (snd e) k) nodes)))"
    by (metis distinct_card length_map)
  also have "set (map fst (filter (\<lambda>e. serves (snd e) k) nodes)) = servers_of nodes k"
    using assms by (auto simp: servers_of_def hm_get_mem) (force simp: image_iff)
  finally show ?thesis .
qed

lemma get_distribution_counts_aux:
  assumes "hm_wf (sm_nodes m)"
  shows "\<exists>d. get_distribution m = Inr d \<and> length d = unat (max_layer (sm_nodes m)) \<and>
    (\<forall>i < length d. d ! i = word_of_nat (card (servers_of (sm_nodes m) i)))"
proof -
  have "\<exists>l'. res_foldM add_node_layers (sm_nodes m) (replicate (unat (max_layer (sm_nodes m))) 0) = Inr l' \<and>
      length l' = length (replicate (unat (max_layer (sm_nodes m))) (0::usize)) \<and>
      (\<forall>k < length (replicate (unat (max_layer (sm_nodes m))) (0::usize)).
        l' ! k = replicate (unat (max_layer (sm_nodes m))) 0 ! k +
          word_of_nat (length (filter (\<lambda>e. serves (snd e) k) (sm_nodes m))))"
    by (rule add_nodes_layers) (auto dest: max_layer_bound simp: word_le_nat_alt)
  then show ?thesis using assms by (auto simp: get_distribution_def servers_count)
qed

section \<open>The invariant of the server\<close>

lemma drain_out_eq:
  "drain_out streams model m =
    (concat (map (\<lambda>(dest, out). case hm_get streams (model, dest) of
        Some tx \<Rightarrow> [OutWorker tx out] | None \<Rightarrow> []) (sm_events m)), m\<lparr>sm_events := []\<rparr>)"
proof (induction "sm_events m" arbitrary: m)
  case Nil
  then show ?case by (subst drain_out.simps) (simp add: pop_out_def)
next
  case (Cons e es)
  have "pop_out m = (Some e, m\<lparr>sm_events := es\<rparr>)"
    by (simp add: pop_out_def flip: Cons.hyps(2))
  with Cons.hyps(1)[of "m\<lparr>sm_events := es\<rparr>"] show ?case
    by (subst drain_out.simps) (simp add: case_prod_beta flip: Cons.hyps(2))
qed

lemma entry_of_set_entry [simp]:
  "entry_of (set_entry model m s) model' = (if model' = model then m else entry_of s model')"
  by (simp add: entry_of_def set_entry_def hm_get_insert)

lemma entry_of_streams [simp]: "entry_of (s\<lparr>rs_streams := x\<rparr>) model = entry_of s model"
  by (simp add: entry_of_def)

lemma set_entry_streams [simp]: "rs_streams (set_entry model m s) = rs_streams s"
  by (simp add: set_entry_def)

definition sm_inv :: "session_manager \<Rightarrow> node_id set \<Rightarrow> bool" where
  "sm_inv m N \<longleftrightarrow> hm_wf (sm_nodes m) \<and> hm_dom (sm_nodes m) = N \<and> sm_events m = []"

definition rs_inv :: "registry_server \<Rightarrow> (string \<times> node_id) set \<Rightarrow> bool" where
  "rs_inv s L \<longleftrightarrow> hm_wf (rs_streams s) \<and> hm_dom (rs_streams s) = L \<and>
     (\<forall>model. sm_inv (entry_of s model) {n. (model, n) \<in> L})"

lemma rs_inv_new: "rs_inv rs_new {}"
  by (simp add: rs_inv_def rs_new_def sm_inv_def entry_of_def sm_default_def)

text \<open>The connections that are open after an event.\<close>

fun live_after :: "stream_event \<Rightarrow> (string \<times> node_id) set \<Rightarrow> (string \<times> node_id) set" where
  "live_after (StStart model node _) L = insert (model, node) L"
| "live_after (StEnd model node) L = L - {(model, node)}"
| "live_after _ L = L"

text \<open>The events that need the sender to be a registered node.\<close>

fun needs_node :: "to_registry_event \<Rightarrow> bool" where
  "needs_node (RegUpdate _ _) = True"
| "needs_node (RegStats _) = True"
| "needs_node _ = False"

lemma update_node_cases:
  assumes "sm_inv m N"
  shows "update_node node f m =
    (if node \<in> N then Inr (m\<lparr>sm_nodes := hm_insert node (f (the (hm_get (sm_nodes m) node))) (sm_nodes m)\<rparr>)
     else Inl (ExpectFailed ''Should have node''))"
  using assms hm_dom_get[of node "sm_nodes m"]
  by (cases "hm_get (sm_nodes m) node") (auto simp: update_node_def sm_inv_def)

lemma on_event_cases:
  assumes "sm_inv m N"
  shows "on_event node ev m = Inl p \<longleftrightarrow>
      needs_node ev \<and> node \<notin> N \<and> p = ExpectFailed ''Should have node''"
    and "on_event node ev m = Inr m' \<Longrightarrow> sm_inv (m'\<lparr>sm_events := []\<rparr>) N"
proof -
  show "on_event node ev m = Inl p \<longleftrightarrow>
      needs_node ev \<and> node \<notin> N \<and> p = ExpectFailed ''Should have node''"
    by (cases ev) (auto simp: update_node_cases[OF assms])
  assume "on_event node ev m = Inr m'"
  then show "sm_inv (m'\<lparr>sm_events := []\<rparr>) N"
    using assms by (cases ev)
      (auto simp: update_node_cases[OF assms] push_event_def sm_inv_def split: if_splits)
qed

lemma rs_inv_update:
  assumes "rs_inv s L" and "hm_wf str" and "hm_dom str = L'" and "sm_inv m {n. (model, n) \<in> L'}"
    and "\<And>model'. model' \<noteq> model \<Longrightarrow> {n. (model', n) \<in> L'} = {n. (model', n) \<in> L}"
  shows "rs_inv (set_entry model m (s\<lparr>rs_streams := str\<rparr>)) L'"
  using assms by (auto simp: rs_inv_def)

lemma rs_recv_inv:
  assumes "rs_inv s L" and "rs_recv e s = Inr (s', outs)"
  shows "rs_inv s' (live_after e L)"
proof (cases e)
  case (StStart model node tx)
  have "rs_inv (set_entry model (on_start node (entry_of s model))
      (s\<lparr>rs_streams := hm_insert (model, node) tx (rs_streams s)\<rparr>)) (insert (model, node) L)"
    using assms(1) by (intro rs_inv_update[OF assms(1)]) (auto simp: rs_inv_def sm_inv_def on_start_def)
  with StStart assms(2) show ?thesis by (simp add: Let_def)
next
  case (StEvent model node ev)
  have inv: "sm_inv (entry_of s model) {n. (model, n) \<in> L}" using assms(1) by (simp add: rs_inv_def)
  from StEvent assms(2) obtain m where "on_event node ev (entry_of s model) = Inr m"
      "s' = set_entry model (m\<lparr>sm_events := []\<rparr>) s"
    by (auto simp: res_bind_Inr_iff drain_out_eq)
  with on_event_cases(2)[OF inv this(1)] assms(1) StEvent show ?thesis
    by (auto simp: rs_inv_def)
next
  case (StEnd model node)
  have "rs_inv (set_entry model (on_end node (entry_of s model))
      (s\<lparr>rs_streams := hm_remove (model, node) (rs_streams s)\<rparr>)) (L - {(model, node)})"
    using assms(1) by (intro rs_inv_update[OF assms(1)]) (auto simp: rs_inv_def sm_inv_def on_end_def)
  with StEnd assms(2) show ?thesis by (simp add: Let_def)
next
  case (StDistribution model tx)
  with assms show ?thesis by (auto simp: res_bind_Inr_iff)
next
  case (StHealth tx)
  with assms show ?thesis by simp
qed

lemma rs_recv_panic:
  assumes "rs_inv s L"
  shows "rs_recv e s = Inl p \<longleftrightarrow> p = ExpectFailed ''Should have node'' \<and>
    (\<exists>model node ev. e = StEvent model node ev \<and> needs_node ev \<and> (model, node) \<notin> L)"
proof (cases e)
  case (StEvent model node ev)
  have "sm_inv (entry_of s model) {n. (model, n) \<in> L}" using assms by (simp add: rs_inv_def)
  with StEvent show ?thesis
    by (auto simp: on_event_cases(1) res_bind_Inl_iff drain_out_eq)
next
  case (StDistribution model tx)
  have "\<exists>d. get_distribution m = Inr d" if "hm_get (rs_models s) model = Some m" for m
  proof -
    have "entry_of s model = m" using that by (simp add: entry_of_def)
    then have "hm_wf (sm_nodes m)" using assms by (auto simp: rs_inv_def sm_inv_def)
    then show ?thesis using get_distribution_counts_aux by blast
  qed
  with StDistribution show ?thesis
    by (auto simp: res_bind_Inl_iff split: option.splits)
qed (auto simp: Let_def)

section \<open>Traces\<close>

fun ev_key :: "stream_event \<Rightarrow> (string \<times> node_id) option" where
  "ev_key (StStart model node _) = Some (model, node)"
| "ev_key (StEvent model node _) = Some (model, node)"
| "ev_key (StEnd model node) = Some (model, node)"
| "ev_key _ = None"

text \<open>One connection at a time: a start, events, an end, and only then another start.\<close>

fun one_connection :: "bool \<Rightarrow> stream_event list \<Rightarrow> bool" where
  "one_connection live [] = True"
| "one_connection live (StStart _ _ _ # es) = (\<not> live \<and> one_connection True es)"
| "one_connection live (StEvent _ _ _ # es) = (live \<and> one_connection live es)"
| "one_connection live (StEnd _ _ # es) = (live \<and> one_connection False es)"
| "one_connection live (_ # es) = one_connection live es"

definition conformant :: "(string \<times> node_id) set \<Rightarrow> stream_event list \<Rightarrow> bool" where
  "conformant L es \<longleftrightarrow> (\<forall>k. one_connection (k \<in> L) (filter (\<lambda>e. ev_key e = Some k) es))"

lemma conformant_Cons:
  assumes "conformant L (e # es)"
  shows "conformant (live_after e L) es"
    and "e = StEvent model node ev \<Longrightarrow> (model, node) \<in> L"
proof -
  have k: "one_connection (k \<in> L) (filter (\<lambda>e. ev_key e = Some k) (e # es))" for k
    using assms unfolding conformant_def by blast
  have "one_connection (k \<in> live_after e L) (filter (\<lambda>e. ev_key e = Some k) es)" for k
    using k[of k] by (cases e) (auto split: if_splits)
  then show "conformant (live_after e L) es" by (simp add: conformant_def)
  show "(model, node) \<in> L" if "e = StEvent model node ev"
    using k[of "(model, node)"] that by simp
qed

lemma conformant_run:
  assumes "rs_inv s L" and "conformant L es"
  shows "\<exists>s' outs. rs_run es s = Inr (s', outs) \<and> rs_inv s' (fold live_after es L)"
  using assms
proof (induction es arbitrary: s L)
  case Nil
  then show ?case by simp
next
  case (Cons e es)
  have "rs_recv e s \<noteq> Inl p" for p
    using conformant_Cons(2)[OF Cons.prems(2)] by (auto simp: rs_recv_panic[OF Cons.prems(1)])
  then obtain s1 outs where r: "rs_recv e s = Inr (s1, outs)" by (cases "rs_recv e s") auto
  from Cons.IH[OF rs_recv_inv[OF Cons.prems(1) r] conformant_Cons(1)[OF Cons.prems(2)]] r
  show ?case by auto
qed

lemma ws_loop_events: "e \<in> set (fst (ws_loop model node ins)) \<Longrightarrow> \<exists>ev. e = StEvent model node ev"
  by (induction model node ins rule: ws_loop.induct) (auto simp: case_prod_beta)

lemma ws_handler_conformant: "conformant {} (fst (ws_handler model node tx ins))"
proof -
  have run: "one_connection True (xs @ [StEnd model node])"
    if "\<forall>e \<in> set xs. \<exists>ev. e = StEvent model node ev" for xs
    using that by (induction xs) auto
  have "filter (\<lambda>e. ev_key e = Some (model, node)) (fst (ws_loop model node ins)) = fst (ws_loop model node ins)"
    by (auto simp: filter_id_conv dest!: ws_loop_events)
  moreover have "filter (\<lambda>e. ev_key e = Some k) (fst (ws_loop model node ins)) = []" if "k \<noteq> (model, node)" for k
    using that by (auto simp: filter_empty_conv dest!: ws_loop_events)
  ultimately show ?thesis
    using run ws_loop_events by (auto simp: conformant_def ws_handler_def case_prod_beta)
qed

section \<open>Properties\<close>

text \<open>
  C24. The distribution the registry reports has one entry per layer up to the highest
  end announced by a node, and the entry of a layer is the number of nodes whose announced
  range contains it. Computing it never panics, whatever ranges the nodes announced.
\<close>

theorem get_distribution_counts:
  assumes "hm_wf (sm_nodes m)"
  shows "\<exists>d. get_distribution m = Inr d \<and> length d = unat (max_layer (sm_nodes m)) \<and>
    (\<forall>i < length d. d ! i = word_of_nat (card (servers_of (sm_nodes m) i))) \<and>
    (\<forall>n info r. hm_get (sm_nodes m) n = Some info \<longrightarrow> ni_layers info = Some r \<longrightarrow> unat (rend r) \<le> length d)"
proof -
  obtain d where d: "get_distribution m = Inr d" "length d = unat (max_layer (sm_nodes m))"
      "\<forall>i < length d. d ! i = word_of_nat (card (servers_of (sm_nodes m) i))"
    using get_distribution_counts_aux[OF assms] by blast
  have "unat (rend r) \<le> length d" if "hm_get (sm_nodes m) n = Some info" "ni_layers info = Some r" for n info r
    using max_layer_bound[of n info "sm_nodes m" r] that assms d(2)
    by (simp add: hm_get_mem word_le_nat_alt)
  with d show ?thesis by blast
qed

definition demo_sm :: session_manager where
  "demo_sm = \<lparr>sm_nodes = [(''a'', \<lparr>ni_layers = Some (mk_range 0 2), ni_stats = stats_default\<rparr>),
                         (''b'', \<lparr>ni_layers = Some (mk_range 1 3), ni_stats = stats_default\<rparr>)],
             sm_events = []\<rparr>"

theorem get_distribution_counts_witness:
  "\<exists>d. get_distribution demo_sm = Inr d \<and> length d = 3 \<and>
     d ! 1 = word_of_nat (card (servers_of (sm_nodes demo_sm) 1))"
proof -
  have "hm_wf (sm_nodes demo_sm)" by (simp add: demo_sm_def hm_wf_def)
  moreover have "max_layer (sm_nodes demo_sm) = 3" by (simp add: demo_sm_def max_layer_def)
  ultimately show ?thesis using get_distribution_counts[of demo_sm] by auto
qed

text \<open>
  C25. The server panics on an event exactly when the event is a layer update or a
  statistics report of a node that is not registered; in every other case it handles the
  event, queues are drained, and the registered nodes of every model are exactly the
  nodes with an open stream.
\<close>

theorem registry_panics_iff:
  assumes "rs_inv s L"
  shows "(\<forall>p. rs_recv e s = Inl p \<longleftrightarrow> p = ExpectFailed ''Should have node'' \<and>
      (\<exists>model node ev. e = StEvent model node ev \<and> needs_node ev \<and> (model, node) \<notin> L))
    \<and> (\<forall>s' outs. rs_recv e s = Inr (s', outs) \<longrightarrow> rs_inv s' (live_after e L))"
  by (intro conjI allI impI rs_recv_panic[OF assms] rs_recv_inv[OF assms])

theorem registry_panics_iff_witness:
  "rs_recv (StEvent ''phi3'' ''n'' (RegStats stats_default)) rs_new = Inl (ExpectFailed ''Should have node'')
   \<and> rs_inv (fst (projr (rs_recv (StStart ''phi3'' ''n'' 7) rs_new))) {(''phi3'', ''n'')}"
proof
  show "rs_recv (StEvent ''phi3'' ''n'' (RegStats stats_default)) rs_new = Inl (ExpectFailed ''Should have node'')"
    using registry_panics_iff[OF rs_inv_new, THEN conjunct1, rule_format, THEN iffD2] by fastforce
  obtain s' outs where r: "rs_recv (StStart ''phi3'' ''n'' 7) rs_new = Inr (s', outs)"
    by (simp add: Let_def)
  show "rs_inv (fst (projr (rs_recv (StStart ''phi3'' ''n'' 7) rs_new))) {(''phi3'', ''n'')}"
    unfolding r using registry_panics_iff[OF rs_inv_new, THEN conjunct2, rule_format, OF r] by simp
qed

text \<open>
  C26. As long as no two connections with the same model and node identifier overlap, the
  registry handles every interleaving of the connections' events without a panic, and at
  the end the registered nodes are those whose connection is still open. Every run of the
  web-socket handler is such a sequence for its own key.
\<close>

theorem registry_serves_conformant_traces:
  assumes "conformant {} es"
  shows "(\<exists>s outs. rs_run es rs_new = Inr (s, outs) \<and> rs_inv s (fold live_after es {}))
    \<and> conformant {} (fst (ws_handler model node tx ins))"
  using conformant_run[OF rs_inv_new assms] ws_handler_conformant by blast

theorem registry_serves_conformant_traces_witness:
  "\<exists>s outs. rs_run (fst (ws_handler ''phi3'' ''n'' 7 [WsMsg (Some (RegUpdate 0 4)), WsReadEnd])) rs_new = Inr (s, outs)"
  using registry_serves_conformant_traces
    [OF ws_handler_conformant[of "''phi3''" "''n''" 7 "[WsMsg (Some (RegUpdate 0 4)), WsReadEnd]"]] by blast

text \<open>
  Two overlapping connections under one identifier break this: the end of the first
  removes the node, and the next statistics report of the second (sent every second)
  panics the task that serves the whole registry.
\<close>

lemma duplicate_connection_panics:
  "rs_run [StStart ''phi3'' ''n'' 1, StStart ''phi3'' ''n'' 2, StEnd ''phi3'' ''n'',
           StEvent ''phi3'' ''n'' (RegStats stats_default)] rs_new = Inl (ExpectFailed ''Should have node'')"
  by (simp add: rs_new_def set_entry_def entry_of_def on_start_def on_end_def sm_default_def update_node_def Let_def)

lemma relay_out:
  assumes "rs_inv s L"
  shows "\<exists>s'. rs_recv (StEvent model node (RegRelay dest data)) s =
    Inr (s', if (model, dest) \<in> L
             then [OutWorker (the (hm_get (rs_streams s) (model, dest))) (WkRelay node data)] else [])"
proof -
  have inv: "sm_inv (entry_of s model) {n. (model, n) \<in> L}" "hm_dom (rs_streams s) = L"
    using assms by (auto simp: rs_inv_def)
  then have c: "hm_contains (sm_nodes (entry_of s model)) dest \<longleftrightarrow> (model, dest) \<in> L"
    and e: "sm_events (entry_of s model) = []"
    by (auto simp: hm_dom_contains sm_inv_def)
  have "(model, dest) \<in> L \<longleftrightarrow> hm_get (rs_streams s) (model, dest) \<noteq> None"
    using hm_dom_get[of "(model, dest)" "rs_streams s"] inv(2) by simp
  then show ?thesis
    by (auto simp: c e drain_out_eq push_event_def push_back_def)
qed

text \<open>
  A relayed message (an offer or an answer) reaches exactly the stream of its
  destination in the same model, with the sender's identifier, its content unchanged, and
  no other stream; if the destination is not registered nothing is sent.
\<close>

theorem relay_reaches_destination:
  assumes "rs_inv s L"
  shows "\<exists>s'. rs_recv (StEvent model node (RegRelay dest data)) s =
    Inr (s', if (model, dest) \<in> L
             then [OutWorker (the (hm_get (rs_streams s) (model, dest))) (WkRelay node data)] else [])"
  using assms by (rule relay_out)

theorem relay_reaches_destination_witness:
  "\<exists>s s'. rs_run [StStart ''phi3'' ''a'' 1, StStart ''phi3'' ''b'' 2] rs_new = Inr (s, []) \<and>
     rs_recv (StEvent ''phi3'' ''a'' (RegRelay ''b'' (Some (Some (RelayOffer 9 ''sdp''))))) s =
       Inr (s', [OutWorker 2 (WkRelay ''a'' (Some (Some (RelayOffer 9 ''sdp''))))])"
proof -
  let ?es = "[StStart ''phi3'' ''a'' 1, StStart ''phi3'' ''b'' 2]"
  have "conformant {} ?es"
    unfolding conformant_def by (auto split: if_splits)
  from conformant_run[OF rs_inv_new this] obtain s outs
    where s: "rs_run ?es rs_new = Inr (s, outs)" "rs_inv s {(''phi3'', ''a''), (''phi3'', ''b'')}"
    by (auto simp: insert_commute)
  then have "outs = []" "hm_get (rs_streams s) (''phi3'', ''b'') = Some 2"
    by (auto simp: rs_new_def set_entry_def Let_def)
  with s relay_reaches_destination[OF s(2), of "''phi3''" "''a''" "''b''"] show ?thesis by auto
qed

text \<open>
  The neighbours a node is told after announcing its layers are exactly the other
  registered nodes of its model, each once; the reply goes to the node's own stream.
\<close>

theorem update_reply_neighbours:
  assumes "rs_inv s L" and "(model, node) \<in> L"
  shows "\<exists>s' ns. rs_recv (StEvent model node (RegUpdate f t)) s =
      Inr (s', [OutWorker (the (hm_get (rs_streams s) (model, node))) (WkUpdate ns)]) \<and>
    distinct ns \<and> set ns = {n. (model, n) \<in> L} - {node} \<and>
    map_option ni_layers (hm_get (sm_nodes (entry_of s' model)) node) = Some (Some (mk_range f t))"
proof -
  define m where "m = entry_of s model"
  have inv: "sm_inv m {n. (model, n) \<in> L}" "hm_dom (rs_streams s) = L"
    using assms(1) by (auto simp: rs_inv_def m_def)
  obtain info where info: "hm_get (sm_nodes m) node = Some info"
    using inv(1) assms(2) hm_dom_get[of node "sm_nodes m"] by (auto simp: sm_inv_def)
  obtain tx where tx: "hm_get (rs_streams s) (model, node) = Some tx"
    using inv(2) assms(2) hm_dom_get[of "(model, node)" "rs_streams s"] by auto
  define m1 where "m1 = m\<lparr>sm_nodes := hm_insert node (info\<lparr>ni_layers := Some (mk_range f t)\<rparr>) (sm_nodes m)\<rparr>"
  have m1: "hm_wf (sm_nodes m1)" "hm_dom (sm_nodes m1) = {n. (model, n) \<in> L}" "sm_events m1 = []"
    using inv(1) assms(2) by (auto simp: sm_inv_def m1_def)
  let ?ns = "other_nodes node m1"
  have "rs_recv (StEvent model node (RegUpdate f t)) s =
      Inr (set_entry model (m1\<lparr>sm_events := []\<rparr>) s, [OutWorker tx (WkUpdate ?ns)])"
    using info tx m1(3)
    by (simp add: m_def[symmetric] update_node_def m1_def[symmetric] drain_out_eq push_event_def push_back_def)
  moreover have "distinct ?ns" "set ?ns = {n. (model, n) \<in> L} - {node}"
    using m1 by (auto simp: other_nodes_def hm_wf_def hm_dom_def)
  moreover have "hm_get (sm_nodes m1) node = Some (info\<lparr>ni_layers := Some (mk_range f t)\<rparr>)"
    by (simp add: m1_def hm_get_insert)
  ultimately show ?thesis using tx by auto
qed

theorem update_reply_neighbours_witness:
  "\<exists>s s' ns. rs_run [StStart ''phi3'' ''a'' 1, StStart ''phi3'' ''b'' 2] rs_new = Inr (s, []) \<and>
     rs_recv (StEvent ''phi3'' ''a'' (RegUpdate 0 4)) s = Inr (s', [OutWorker 1 (WkUpdate ns)]) \<and> set ns = {''b''}"
proof -
  let ?es = "[StStart ''phi3'' ''a'' 1, StStart ''phi3'' ''b'' 2]"
  have "conformant {} ?es"
    unfolding conformant_def by (auto split: if_splits)
  from conformant_run[OF rs_inv_new this] obtain s outs
    where s: "rs_run ?es rs_new = Inr (s, outs)" "rs_inv s {(''phi3'', ''a''), (''phi3'', ''b'')}"
    by (auto simp: insert_commute)
  then have "outs = []" "hm_get (rs_streams s) (''phi3'', ''a'') = Some 1"
    by (auto simp: rs_new_def set_entry_def Let_def)
  with s update_reply_neighbours[OF s(2), of "''phi3''" "''a''" 0 4] show ?thesis by auto
qed

end
