(* ===== verification/Registry_Client.thy ===== *)
theory Registry_Client
  imports Protocol
begin

text \<open>
  The worker's end of the registry connection,
  \<^verbatim>\<open>crates/registry/src/client/mod.rs\<close>. The web socket is outside the sources:
  what it accepts is a predicate on messages (\<open>write_ok\<close>) and what it delivers is the
  list of read results, whose end is the end of the stream.
\<close>

record registry_client =
  rc_queue :: "to_registry_event list"

datatype rc_event =
    RcAnswer node_id conn_id string
  | RcOffer node_id conn_id string
  | RcNeighbours "node_id list"

datatype answer_error = AnswerRemote string

definition rc_new :: registry_client where
  "rc_new = \<lparr>rc_queue = []\<rparr>"

definition rc_push :: "to_registry_event \<Rightarrow> registry_client \<Rightarrow> registry_client" where
  "rc_push ev c = c\<lparr>rc_queue := push_back (rc_queue c) ev\<rparr>"

definition rc_update_stats :: "stats \<Rightarrow> registry_client \<Rightarrow> registry_client" where
  "rc_update_stats s c = rc_push (RegStats s) c"

definition rc_update_layer :: "u32_range \<Rightarrow> registry_client \<Rightarrow> registry_client" where
  "rc_update_layer r c = rc_push (RegUpdate (rstart r) (rend r)) c"

definition find_neigbours :: "registry_client \<Rightarrow> registry_client" where
  "find_neigbours c = rc_push RegNeighbours c"

definition rc_offer :: "node_id \<Rightarrow> conn_id \<Rightarrow> string \<Rightarrow> registry_client \<Rightarrow> registry_client" where
  "rc_offer dest conn offer c = rc_push (RegRelay dest (Some (Some (RelayOffer conn offer)))) c"

text \<open>An error answer is unwrapped before it is queued: a panic.\<close>

definition rc_answer ::
    "node_id \<Rightarrow> conn_id \<Rightarrow> (answer_error + string) \<Rightarrow> registry_client \<Rightarrow> registry_client res" where
  "rc_answer dest conn ans c = (case ans of
       Inl _ \<Rightarrow> Inl UnwrapOnErr
     | Inr sdp \<Rightarrow> Inr (rc_push (RegRelay dest (Some (Some (RelayAnswer conn sdp)))) c))"

text \<open>
  The first loop of \<open>recv\<close>: pop and write until the queue is empty or a write fails.
  Returns whether every write succeeded, what was written and what is left.
\<close>

fun flush_queue ::
    "(to_registry_event \<Rightarrow> bool) \<Rightarrow> to_registry_event list
     \<Rightarrow> bool \<times> to_registry_event list \<times> to_registry_event list" where
  "flush_queue write_ok [] = (True, [], [])"
| "flush_queue write_ok (req # q) =
     (if write_ok req then (case flush_queue write_ok q of (ok, ws, rest) \<Rightarrow> (ok, req # ws, rest))
      else (False, [], q))"

text \<open>The second loop: read until an event, an error or the end of the stream.\<close>

type_synonym read_result = "string + to_worker_event option"

fun read_loop :: "read_result list \<Rightarrow> ((string + rc_event) option \<times> read_result list) res" where
  "read_loop [] = Inr (None, [])"
| "read_loop (Inl err # r) = Inr (Some (Inl err), r)"
| "read_loop (Inr None # r) = Inr (None, r)"
| "read_loop (Inr (Some (WkUpdate ns)) # r) = Inr (Some (Inr (RcNeighbours ns)), r)"
| "read_loop (Inr (Some (WkNeighbours _)) # r) = Inl TodoReached"
| "read_loop (Inr (Some (WkRelay source (Some (Some (RelayOffer conn sdp))))) # r) =
     Inr (Some (Inr (RcOffer source conn sdp)), r)"
| "read_loop (Inr (Some (WkRelay source (Some (Some (RelayAnswer conn sdp))))) # r) =
     Inr (Some (Inr (RcAnswer source conn sdp)), r)"
| "read_loop (Inr (Some (WkRelay source (Some None))) # r) = read_loop r"
| "read_loop (Inr (Some (WkRelay source None)) # r) = read_loop r"

record rc_recv_result =
  rcr_event :: "(string + rc_event) option"
  rcr_written :: "to_registry_event list"
  rcr_unread :: "read_result list"

definition rc_recv ::
    "(to_registry_event \<Rightarrow> bool) \<Rightarrow> read_result list \<Rightarrow> registry_client
     \<Rightarrow> (rc_recv_result \<times> registry_client) res" where
  "rc_recv write_ok reads c = (case flush_queue write_ok (rc_queue c) of (ok, ws, rest) \<Rightarrow>
     if ok then res_bind (read_loop reads) (\<lambda>(ev, reads').
         Inr (\<lparr>rcr_event = ev, rcr_written = ws, rcr_unread = reads'\<rparr>, c\<lparr>rc_queue := rest\<rparr>))
     else Inr (\<lparr>rcr_event = None, rcr_written = ws, rcr_unread = reads\<rparr>, c\<lparr>rc_queue := rest\<rparr>))"

lemma flush_queue_all:
  "(\<forall>x \<in> set q. write_ok x) \<Longrightarrow> flush_queue write_ok q = (True, q, [])"
  by (induction q) auto

lemma flush_queue_prefix:
  "flush_queue write_ok q = (ok, ws, rest) \<Longrightarrow>
   (if ok then q = ws \<and> rest = [] \<and> (\<forall>x \<in> set q. write_ok x) else \<exists>x. q = ws @ x # rest \<and> \<not> write_ok x)"
  by (induction q arbitrary: ok ws rest) (auto split: if_splits prod.splits)

lemma read_loop_panics:
  "read_loop reads = Inl p \<Longrightarrow> p = TodoReached \<and> (\<exists>ns. Inr (Some (WkNeighbours ns)) \<in> set reads)"
  by (induction reads rule: read_loop.induct) auto

section \<open>Properties\<close>

text \<open>
  While the socket accepts writes, one call of \<open>recv\<close> sends every queued message
  exactly once and in the order it was queued and leaves the queue empty; when a write
  fails, the messages before it were sent, the failed one is dropped and the later ones
  stay queued, and the caller is told that the connection is closed.
\<close>

theorem client_recv_flushes_in_order:
  assumes "rc_recv write_ok reads c = Inr (r, c')"
  shows "((\<forall>x \<in> set (rc_queue c). write_ok x) \<longrightarrow>
      rcr_written r = rc_queue c \<and> rc_queue c' = []) \<and>
    (\<not> (\<forall>x \<in> set (rc_queue c). write_ok x) \<longrightarrow> rcr_event r = None \<and>
      (\<exists>x. \<not> write_ok x \<and> rc_queue c = rcr_written r @ x # rc_queue c'))"
proof -
  obtain ok ws rest where f: "flush_queue write_ok (rc_queue c) = (ok, ws, rest)"
    by (metis prod_cases3)
  have "ok \<longleftrightarrow> (\<forall>x \<in> set (rc_queue c). write_ok x)"
    using flush_queue_prefix[OF f] by (cases ok) auto
  moreover have "rcr_written r = ws" "rc_queue c' = rest" "\<not> ok \<longrightarrow> rcr_event r = None"
    using assms by (cases ok; auto simp: rc_recv_def f res_bind_Inr_iff)+
  ultimately show ?thesis using flush_queue_prefix[OF f] by (cases ok) auto
qed

theorem client_recv_flushes_in_order_witness:
  "\<exists>r c'. rc_recv (\<lambda>_. True) [Inr (Some (WkUpdate [''b'']))] (rc_update_layer (mk_range 0 4) rc_new) = Inr (r, c')
     \<and> rcr_written r = [RegUpdate 0 4] \<and>
   (\<exists>r2 c2. rc_recv (\<lambda>x. x \<noteq> RegNeighbours) [] (find_neigbours (rc_update_layer (mk_range 0 4) rc_new)) = Inr (r2, c2)
     \<and> rcr_event r2 = None)"
proof -
  let ?c = "rc_update_layer (mk_range 0 4) rc_new"
  have q: "rc_queue ?c = [RegUpdate 0 4]" "rc_queue (find_neigbours ?c) = [RegUpdate 0 4, RegNeighbours]"
    by (simp_all add: rc_update_layer_def find_neigbours_def rc_push_def rc_new_def push_back_def)
  obtain r c' where 1: "rc_recv (\<lambda>_. True) [Inr (Some (WkUpdate [''b'']))] ?c = Inr (r, c')"
    by (simp add: rc_recv_def q)
  obtain r2 c2 where 2: "rc_recv (\<lambda>x. x \<noteq> RegNeighbours) [] (find_neigbours ?c) = Inr (r2, c2)"
    by (simp add: rc_recv_def q)
  from client_recv_flushes_in_order[OF 1] client_recv_flushes_in_order[OF 2] 1 2 show ?thesis
    by (simp add: q)
qed

text \<open>
  Two paths of the client panic instead of reporting: a reply to \<open>find_neigbours\<close>
  reaches a \<open>todo!\<close>, and an error answer is unwrapped.
\<close>

lemma neighbours_reply_panics:
  "rc_recv (\<lambda>_. True) [Inr (Some (WkNeighbours ns))] (find_neigbours rc_new) = Inl TodoReached"
  by (simp add: rc_recv_def find_neigbours_def rc_push_def rc_new_def push_back_def)

lemma error_answer_panics: "rc_answer dest conn (Inl e) c = Inl UnwrapOnErr"
  by (simp add: rc_answer_def)

end
