(* ===== verification/Connection_Buffer.thy ===== *)
theory Connection_Buffer
  imports Prelude
begin

text \<open>
  Framing and flow control of a peer connection: \<open>ConnectionChunk\<close> and
  \<open>ConnectionBuffer\<close> of \<^verbatim>\<open>crates/p2p-network/src/node/remote_conn.rs\<close>. A
  frame is cut into chunks, small frames overtake large ones, every chunk is acknowledged,
  and at most \<open>AIR_LIMIT\<close> bytes are sent and not yet acknowledged.

  The binary codec (the \<open>bincode\<close> crate) is not in the sources. It is a parameter: the
  configuration record holds the two const generics and the three functions of the codec
  the code calls, and \<open>codec_ok\<close> states what is documented of them.

  Shown here: reassembly of any interleaving of any frames; the accounting invariant of the
  bytes in the air; and, for two buffers connected by a link that may reorder, that the
  peers keep this invariant at both ends.
\<close>

section \<open>Data\<close>

datatype connection_chunk =
    Chunk u32 u16 u16 bytes
  | ChunkAck u32 u16 u16

record buf_cfg =
  CHUNK_SIZE :: nat
  AIR_LIMIT :: usize
  bincode_serialize :: "connection_chunk \<Rightarrow> bytes"
  bincode_deserialize :: "bytes \<Rightarrow> connection_chunk option"
  bincode_serialized_size :: "connection_chunk \<Rightarrow> u64"

definition codec_ok :: "buf_cfg \<Rightarrow> bool" where
  "codec_ok cfg \<longleftrightarrow> (\<forall>c. bincode_deserialize cfg (bincode_serialize cfg c) = Some c)"

record incoming_frame =
  if_chunk_count :: u16
  if_chunks :: "(u16, bytes) hmap"

record outgoing_frame =
  of_chunks :: "(u16, usize) hmap"

record connection_buffer =
  frame_id_seed :: u32
  high_priority :: "connection_chunk list"
  low_priority :: "connection_chunk list"
  incomings :: "(u32, incoming_frame) hmap"
  outgoings :: "(u32, outgoing_frame) hmap"
  outs :: "bytes list"
  in_air :: usize

definition cb_default :: connection_buffer where
  "cb_default = \<lparr>frame_id_seed = 0, high_priority = [], low_priority = [], incomings = [],
     outgoings = [], outs = [], in_air = 0\<rparr>"

section \<open>Operations\<close>

definition in_air_size :: "buf_cfg \<Rightarrow> connection_chunk \<Rightarrow> usize" where
  "in_air_size cfg c = (case c of
       Chunk _ _ _ _ \<Rightarrow> bincode_serialized_size cfg c
     | ChunkAck _ _ _ \<Rightarrow> 0)"

text \<open>The chunks of a frame; the number of pieces is cast to sixteen bits.\<close>

definition frame_chunks :: "buf_cfg \<Rightarrow> u32 \<Rightarrow> bytes \<Rightarrow> connection_chunk list" where
  "frame_chunks cfg frame_id data =
     (if length data \<le> CHUNK_SIZE cfg then [Chunk frame_id 0 1 data]
      else let chunks = chunks_of (CHUNK_SIZE cfg) data; chunk_count = word_of_nat (length chunks) in
        map (\<lambda>(chunk_id, chunk). Chunk frame_id (word_of_nat chunk_id) chunk_count chunk)
          (enumerate 0 chunks))"

definition register_chunk :: "buf_cfg \<Rightarrow> connection_chunk \<Rightarrow> (u16, usize) hmap \<Rightarrow> (u16, usize) hmap" where
  "register_chunk cfg c m = (case c of
       Chunk _ chunk_id _ _ \<Rightarrow> hm_insert chunk_id (in_air_size cfg c) m
     | ChunkAck _ _ _ \<Rightarrow> m)"

definition push_frame :: "buf_cfg \<Rightarrow> bytes \<Rightarrow> connection_buffer \<Rightarrow> connection_buffer" where
  "push_frame cfg data b =
     (let frame_id = frame_id_seed b;
          cs = frame_chunks cfg frame_id data;
          frame = \<lparr>of_chunks = fold (register_chunk cfg) cs []\<rparr>;
          b = b\<lparr>frame_id_seed := frame_id_seed b + 1,
                outgoings := hm_insert frame_id frame (outgoings b)\<rparr>
      in if length data \<le> CHUNK_SIZE cfg
         then b\<lparr>high_priority := high_priority b @ cs\<rparr>
         else b\<lparr>low_priority := low_priority b @ cs\<rparr>)"

definition receive_chunk :: "u32 \<Rightarrow> u16 \<Rightarrow> u16 \<Rightarrow> bytes \<Rightarrow> connection_buffer \<Rightarrow> connection_buffer" where
  "receive_chunk frame_id chunk_id chunk_count data b =
     (let b = b\<lparr>high_priority := push_back (high_priority b) (ChunkAck frame_id chunk_id chunk_count)\<rparr>
      in if chunk_count = 1 then b\<lparr>outs := push_back (outs b) data\<rparr>
         else let frame0 = (case hm_get (incomings b) frame_id of
                    Some frame \<Rightarrow> frame
                  | None \<Rightarrow> \<lparr>if_chunk_count = chunk_count, if_chunks = []\<rparr>);
                  frame = frame0\<lparr>if_chunks := hm_insert chunk_id data (if_chunks frame0)\<rparr>
              in if length (if_chunks frame) = unat (if_chunk_count frame)
                 then b\<lparr>incomings := hm_remove frame_id (incomings b),
                        outs := push_back (outs b) (concat (map snd (bt_iter (if_chunks frame))))\<rparr>
                 else b\<lparr>incomings := hm_insert frame_id frame (incomings b)\<rparr>)"

definition receive_ack :: "u32 \<Rightarrow> u16 \<Rightarrow> connection_buffer \<Rightarrow> connection_buffer" where
  "receive_ack frame_id chunk_id b = (case hm_get (outgoings b) frame_id of
       None \<Rightarrow> b
     | Some frame \<Rightarrow> (case hm_get (of_chunks frame) chunk_id of
           None \<Rightarrow> b
         | Some sz \<Rightarrow>
             let chunks = hm_remove chunk_id (of_chunks frame)
             in b\<lparr>in_air := in_air b - sz,
                  outgoings := (if chunks = [] then hm_remove frame_id (outgoings b)
                                else hm_insert frame_id (frame\<lparr>of_chunks := chunks\<rparr>) (outgoings b))\<rparr>))"

definition on_received :: "buf_cfg \<Rightarrow> bytes \<Rightarrow> connection_buffer \<Rightarrow> unit option \<times> connection_buffer" where
  "on_received cfg data b = (case bincode_deserialize cfg data of
       None \<Rightarrow> (None, b)
     | Some (Chunk frame_id chunk_id chunk_count data) \<Rightarrow>
         (Some (), receive_chunk frame_id chunk_id chunk_count data b)
     | Some (ChunkAck frame_id chunk_id chunk_count) \<Rightarrow> (Some (), receive_ack frame_id chunk_id b))"

text \<open>The queue in the order \<open>pop_send\<close> looks at it.\<close>

definition send_queue :: "connection_buffer \<Rightarrow> connection_chunk list" where
  "send_queue b = high_priority b @ low_priority b"

definition pop_queue :: "connection_buffer \<Rightarrow> connection_buffer" where
  "pop_queue b = (case high_priority b of
       _ # h \<Rightarrow> b\<lparr>high_priority := h\<rparr>
     | [] \<Rightarrow> b\<lparr>low_priority := tl (low_priority b)\<rparr>)"

definition pop_send :: "buf_cfg \<Rightarrow> connection_buffer \<Rightarrow> bytes option \<times> connection_buffer" where
  "pop_send cfg b = (case send_queue b of
       [] \<Rightarrow> (None, b)
     | first # _ \<Rightarrow>
         let first_size = in_air_size cfg first in
         if first_size + in_air b \<le> AIR_LIMIT cfg
         then (Some (bincode_serialize cfg first), (pop_queue b)\<lparr>in_air := in_air b + first_size\<rparr>)
         else (None, b))"

definition pop_recv :: "connection_buffer \<Rightarrow> bytes option \<times> connection_buffer" where
  "pop_recv b = (case pop_front (outs b) of
       None \<Rightarrow> (None, b)
     | Some (d, ds) \<Rightarrow> (Some d, b\<lparr>outs := ds\<rparr>))"

section \<open>The chunks of a frame\<close>

fun chunk_frame :: "connection_chunk \<Rightarrow> u32" where
  "chunk_frame (Chunk f _ _ _) = f"
| "chunk_frame (ChunkAck f _ _) = f"

fun chunk_key :: "connection_chunk \<Rightarrow> (u32 \<times> u16) option" where
  "chunk_key (Chunk f i _ _) = Some (f, i)"
| "chunk_key (ChunkAck _ _ _) = None"

fun chunk_entry :: "connection_chunk \<Rightarrow> u16 \<times> bytes" where
  "chunk_entry (Chunk _ i _ d) = (i, d)"
| "chunk_entry (ChunkAck _ i _) = (i, [])"

definition piece_count :: "buf_cfg \<Rightarrow> bytes \<Rightarrow> nat" where
  "piece_count cfg data =
     (if length data \<le> CHUNK_SIZE cfg then 1 else length (chunks_of (CHUNK_SIZE cfg) data))"

definition pieces :: "buf_cfg \<Rightarrow> bytes \<Rightarrow> bytes list" where
  "pieces cfg data = (if length data \<le> CHUNK_SIZE cfg then [data] else chunks_of (CHUNK_SIZE cfg) data)"

lemma piece_count_pieces: "piece_count cfg data = length (pieces cfg data)"
  by (simp add: piece_count_def pieces_def)

lemma concat_pieces: "0 < CHUNK_SIZE cfg \<Longrightarrow> concat (pieces cfg data) = data"
  by (simp add: pieces_def concat_chunks_of)

lemma frame_chunks_pieces:
  "frame_chunks cfg f data =
    map (\<lambda>(i, d). Chunk f (word_of_nat i) (word_of_nat (piece_count cfg data)) d) (enumerate 0 (pieces cfg data))"
  by (simp add: frame_chunks_def piece_count_def pieces_def Let_def)

lemma length_frame_chunks: "length (frame_chunks cfg f data) = piece_count cfg data"
  by (simp add: frame_chunks_pieces piece_count_pieces)

lemma frame_chunks_nonempty: "0 < CHUNK_SIZE cfg \<Longrightarrow> frame_chunks cfg f data \<noteq> []"
proof -
  assume "0 < CHUNK_SIZE cfg"
  then have "pieces cfg data \<noteq> []" using concat_pieces[of cfg data] by (auto simp: pieces_def)
  then show ?thesis by (simp add: frame_chunks_pieces enumerate_eq_zip)
qed

lemma frame_chunks_nth:
  "i < piece_count cfg data \<Longrightarrow>
   frame_chunks cfg f data ! i = Chunk f (word_of_nat i) (word_of_nat (piece_count cfg data)) (pieces cfg data ! i)"
  by (simp add: frame_chunks_pieces nth_enumerate_eq piece_count_pieces)

lemma frame_chunks_mem:
  "c \<in> set (frame_chunks cfg f data) \<longleftrightarrow> (\<exists>i < piece_count cfg data.
     c = Chunk f (word_of_nat i) (word_of_nat (piece_count cfg data)) (pieces cfg data ! i))"
  by (auto simp: in_set_conv_nth length_frame_chunks frame_chunks_nth)

lemma chunk_entries:
  "map chunk_entry (frame_chunks cfg f data) = map (\<lambda>(i, d). (word_of_nat i, d)) (enumerate 0 (pieces cfg data))"
  by (auto simp: frame_chunks_pieces)

lemma word_of_nat_u16_inj: "inj_on (word_of_nat :: nat \<Rightarrow> u16) {0..<2 ^ 16}"
  by (rule inj_on_inverseI[of _ unat]) (simp add: unat_u16_of_nat)

lemma frame_ids:
  assumes "piece_count cfg data \<le> 2 ^ 16"
  shows "map (fst \<circ> chunk_entry) (frame_chunks cfg f data) = map word_of_nat [0..<piece_count cfg data]"
    and "distinct (map (fst \<circ> chunk_entry) (frame_chunks cfg f data))"
    and "sorted (map (fst \<circ> chunk_entry) (frame_chunks cfg f data))"
proof -
  show eq: "map (fst \<circ> chunk_entry) (frame_chunks cfg f data) = map word_of_nat [0..<piece_count cfg data]"
    by (rule nth_equalityI) (simp_all add: length_frame_chunks frame_chunks_nth)
  show "distinct (map (fst \<circ> chunk_entry) (frame_chunks cfg f data))"
    unfolding eq distinct_map using assms
    by (auto intro: inj_on_subset[OF word_of_nat_u16_inj])
  show "sorted (map (fst \<circ> chunk_entry) (frame_chunks cfg f data))"
    unfolding eq sorted_iff_nth_mono using assms by (auto simp: word_le_nat_alt unat_u16_of_nat)
qed

section \<open>Reassembly\<close>

text \<open>What a decoded message does to the buffer.\<close>

definition deliver :: "connection_chunk \<Rightarrow> connection_buffer \<Rightarrow> connection_buffer" where
  "deliver c b = (case c of
       Chunk f i n d \<Rightarrow> receive_chunk f i n d b
     | ChunkAck f i n \<Rightarrow> receive_ack f i b)"

lemma on_received_deliver:
  "codec_ok cfg \<Longrightarrow> on_received cfg (bincode_serialize cfg c) b = (Some (), deliver c b)"
  by (simp add: on_received_def codec_ok_def deliver_def split: connection_chunk.splits)

text \<open>The chunks of frame \<open>f\<close> among the chunks received.\<close>

definition arrived :: "u32 \<Rightarrow> connection_chunk set \<Rightarrow> connection_chunk set" where
  "arrived f C = {c \<in> C. chunk_frame c = f}"

text \<open>The state of the reassembly of a frame of which the chunks \<open>g\<close> have arrived.\<close>

definition assembling :: "buf_cfg \<Rightarrow> u32 \<Rightarrow> bytes \<Rightarrow> connection_chunk set \<Rightarrow> incoming_frame option \<Rightarrow> bool" where
  "assembling cfg f data g fo \<longleftrightarrow>
     (if piece_count cfg data = 1 \<or> g = {} \<or> g = set (frame_chunks cfg f data) then fo = None
      else \<exists>fr. fo = Some fr \<and> if_chunk_count fr = word_of_nat (piece_count cfg data) \<and>
             hm_wf (if_chunks fr) \<and> set (if_chunks fr) = chunk_entry ` g)"

lemma chunk_entry_inj:
  assumes "piece_count cfg data \<le> 2 ^ 16"
  shows "inj_on (fst \<circ> chunk_entry) (set (frame_chunks cfg f data))"
  using frame_ids(2)[OF assms] by (simp add: distinct_map)

lemma distinct_frame_chunks: "piece_count cfg data \<le> 2 ^ 16 \<Longrightarrow> distinct (frame_chunks cfg f data)"
  using frame_ids(2) by (auto simp: distinct_map)

lemma frame_chunks_frame: "c \<in> set (frame_chunks cfg f data) \<Longrightarrow> chunk_frame c = f"
  by (auto simp: frame_chunks_mem)

lemma concat_entries:
  "0 < CHUNK_SIZE cfg \<Longrightarrow> concat (map snd (map chunk_entry (frame_chunks cfg f data))) = data"
proof -
  assume "0 < CHUNK_SIZE cfg"
  moreover have "map snd (map chunk_entry (frame_chunks cfg f data)) = pieces cfg data"
    by (rule nth_equalityI) (simp_all add: length_frame_chunks frame_chunks_nth piece_count_pieces)
  ultimately show ?thesis by (simp add: concat_pieces)
qed

lemma complete_frame:
  assumes "0 < CHUNK_SIZE cfg" and "piece_count cfg data \<le> 2 ^ 16"
    and "hm_wf m" and "set m = chunk_entry ` set (frame_chunks cfg f data)"
  shows "concat (map snd (bt_iter m)) = data"
proof -
  have "bt_iter m = map chunk_entry (frame_chunks cfg f data)"
    using assms(3,4) frame_ids[OF assms(2), of f] by (intro bt_iter_unique) (simp_all add: hm_wf_def)
  with concat_entries[OF assms(1), of f data] show ?thesis by simp
qed

text \<open>One chunk of a frame of several chunks extends the set of chunks that have arrived.\<close>

lemma hm_insert_arrived:
  assumes pc: "piece_count cfg data \<le> 2 ^ 16"
    and g: "g \<subseteq> set (frame_chunks cfg f data)" and c: "c \<in> set (frame_chunks cfg f data)" "c \<notin> g"
    and m: "hm_wf m" "set m = chunk_entry ` g"
  defines "m' \<equiv> hm_insert (fst (chunk_entry c)) (snd (chunk_entry c)) m"
  shows "set m' = chunk_entry ` insert c g" and "length m' = card (insert c g)" and "hm_wf m'"
proof -
  have inj: "inj_on (fst \<circ> chunk_entry) (insert c g)"
    by (rule inj_on_subset[OF chunk_entry_inj[OF pc, of f]]) (use g c(1) in auto)
  show wf: "hm_wf m'" using m(1) by (simp add: m'_def)
  have "{e \<in> set m. fst e \<noteq> fst (chunk_entry c)} = set m"
    using inj c(2) m(2) by (auto simp: inj_on_def)
  then show set: "set m' = chunk_entry ` insert c g" using m by (simp add: m'_def set_hm_insert)
  have "length m' = card (fst ` set m')"
    using wf unfolding hm_wf_def by (metis distinct_card length_map set_map)
  also have "\<dots> = card (insert c g)" using inj unfolding set by (simp only: image_image card_image comp_def)
  finally show "length m' = card (insert c g)" .
qed

lemma deliver_multi:
  assumes "0 < CHUNK_SIZE cfg" and pc: "piece_count cfg data < 2 ^ 16" "piece_count cfg data \<noteq> 1"
    and g: "g \<subseteq> set (frame_chunks cfg f data)" and c: "c \<in> set (frame_chunks cfg f data)" "c \<notin> g"
    and inc: "assembling cfg f data g (hm_get (incomings b) f)"
  shows "assembling cfg f data (insert c g) (hm_get (incomings (deliver c b)) f)"
    and "outs (deliver c b) = outs b @ (if insert c g = set (frame_chunks cfg f data) then [data] else [])"
    and "f' \<noteq> f \<Longrightarrow> hm_get (incomings (deliver c b)) f' = hm_get (incomings b) f'"
proof -
  let ?n = "word_of_nat (piece_count cfg data) :: u16"
  obtain i d where cc: "c = Chunk f i ?n d" using c(1) by (auto simp: frame_chunks_mem)
  have pc': "piece_count cfg data \<le> 2 ^ 16" using pc by simp
  have un: "unat ?n = piece_count cfg data" using pc by (simp add: unat_u16_of_nat)
  then have n1: "?n \<noteq> 1" using pc(2) by auto
  define fr0 where "fr0 = (case hm_get (incomings b) f of Some fr \<Rightarrow> fr
    | None \<Rightarrow> \<lparr>if_chunk_count = ?n, if_chunks = []\<rparr>)"
  have "g \<noteq> set (frame_chunks cfg f data)" using c by auto
  then have fr0: "if_chunk_count fr0 = ?n" "hm_wf (if_chunks fr0)" "set (if_chunks fr0) = chunk_entry ` g"
    using inc pc(2) by (auto simp: assembling_def fr0_def split: if_splits)
  define m' where "m' = hm_insert i d (if_chunks fr0)"
  have m': "set m' = chunk_entry ` insert c g" "length m' = card (insert c g)" "hm_wf m'"
    using hm_insert_arrived[OF pc' g c fr0(2,3)] by (simp_all add: m'_def cc)
  have cf: "card (set (frame_chunks cfg f data)) = piece_count cfg data"
    using distinct_card[OF distinct_frame_chunks[OF pc', of f]] by (simp add: length_frame_chunks)
  have "insert c g \<subseteq> set (frame_chunks cfg f data)" using g c(1) by simp
  then have "card (insert c g) = piece_count cfg data \<longleftrightarrow> insert c g = set (frame_chunks cfg f data)"
    using cf by (metis List.finite_set card_subset_eq)
  then have full: "length m' = unat ?n \<longleftrightarrow> insert c g = set (frame_chunks cfg f data)"
    by (simp only: m'(2) un)
  have "deliver c b = (if insert c g = set (frame_chunks cfg f data)
    then b\<lparr>high_priority := push_back (high_priority b) (ChunkAck f i ?n),
           incomings := hm_remove f (incomings b), outs := push_back (outs b) (concat (map snd (bt_iter m')))\<rparr>
    else b\<lparr>high_priority := push_back (high_priority b) (ChunkAck f i ?n),
           incomings := hm_insert f (fr0\<lparr>if_chunks := m'\<rparr>) (incomings b)\<rparr>)"
    using fr0(1) n1 full by (simp add: cc deliver_def receive_chunk_def Let_def fr0_def m'_def del: length_map)
  moreover have "concat (map snd (bt_iter m')) = data" if "insert c g = set (frame_chunks cfg f data)"
    by (rule complete_frame[OF assms(1) pc' m'(3), of f]) (simp only: m'(1) that)
  ultimately show "assembling cfg f data (insert c g) (hm_get (incomings (deliver c b)) f)"
    "outs (deliver c b) = outs b @ (if insert c g = set (frame_chunks cfg f data) then [data] else [])"
    "f' \<noteq> f \<Longrightarrow> hm_get (incomings (deliver c b)) f' = hm_get (incomings b) f'"
    using m' fr0(1) pc(2)
    by (auto simp: assembling_def hm_get_insert hm_get_remove push_back_def)
qed

lemma deliver_single:
  assumes "0 < CHUNK_SIZE cfg" and pc: "piece_count cfg data = 1" and c: "c \<in> set (frame_chunks cfg f data)"
  shows "set (frame_chunks cfg f data) = {c}" and "outs (deliver c b) = outs b @ [data]"
    and "incomings (deliver c b) = incomings b"
proof -
  have cc: "c = Chunk f 0 1 (pieces cfg data ! 0)" using pc c by (auto simp: frame_chunks_mem)
  have "length (pieces cfg data) = 1" using pc by (simp add: piece_count_pieces)
  then have "pieces cfg data = [pieces cfg data ! 0]" by (auto simp: length_Suc_conv)
  then have "pieces cfg data ! 0 = data" using concat_pieces[OF assms(1), of data] by (metis concat.simps(1,2) append_Nil2)
  with cc show "outs (deliver c b) = outs b @ [data]" "incomings (deliver c b) = incomings b"
    by (simp_all add: deliver_def receive_chunk_def push_back_def Let_def)
  show "set (frame_chunks cfg f data) = {c}" using pc c by (auto simp: frame_chunks_mem)
qed

definition completed :: "buf_cfg \<Rightarrow> connection_chunk set \<Rightarrow> u32 \<times> bytes \<Rightarrow> bool" where
  "completed cfg C = (\<lambda>(f, data). set (frame_chunks cfg f data) \<subseteq> C)"

definition all_chunks :: "buf_cfg \<Rightarrow> (u32 \<times> bytes) list \<Rightarrow> connection_chunk set" where
  "all_chunks cfg frames = (\<Union>(f, data) \<in> set frames. set (frame_chunks cfg f data))"

lemma mset_filter_extra:
  assumes "distinct xs" "a \<in> set xs" "\<not> P a"
  shows "mset (filter (\<lambda>x. P x \<or> x = a) xs) = add_mset a (mset (filter P xs))"
proof -
  from assms obtain ys zs where "xs = ys @ a # zs" by (meson split_list)
  moreover from this assms have "filter (\<lambda>x. P x \<or> x = a) ys = filter P ys"
    "filter (\<lambda>x. P x \<or> x = a) zs = filter P zs" by (auto intro!: filter_cong)
  ultimately show ?thesis using assms(3) by simp
qed

lemma frame_unique:
  "distinct (map fst frames) \<Longrightarrow> (f, d) \<in> set frames \<Longrightarrow> (f, d') \<in> set frames \<Longrightarrow> d = d'"
  by (metis map_of_eq_Some_iff option.inject)

lemma arrived_frame:
  assumes "distinct (map fst frames)" "(f, data) \<in> set frames" "C \<subseteq> all_chunks cfg frames"
  shows "arrived f C \<subseteq> set (frame_chunks cfg f data)"
proof
  fix c
  assume "c \<in> arrived f C"
  then have "c \<in> all_chunks cfg frames" "chunk_frame c = f" using assms(3) by (auto simp: arrived_def)
  then obtain d where "(f, d) \<in> set frames" "c \<in> set (frame_chunks cfg f d)"
    by (auto simp: all_chunks_def dest: frame_chunks_frame)
  with frame_unique[OF assms(1,2)] show "c \<in> set (frame_chunks cfg f data)" by simp
qed

lemma completed_arrived: "completed cfg C (f, data) \<longleftrightarrow> set (frame_chunks cfg f data) \<subseteq> arrived f C"
  by (auto simp: completed_def arrived_def dest: frame_chunks_frame)

lemma completed_insert:
  assumes d: "distinct (map fst frames)" and m: "(f, data) \<in> set frames"
    and c: "c \<in> set (frame_chunks cfg f data)" "c \<notin> C" and C: "C \<subseteq> all_chunks cfg frames"
  shows "mset (map snd (filter (completed cfg (insert c C)) frames)) =
    mset (map snd (filter (completed cfg C) frames)) +
      (if insert c (arrived f C) = set (frame_chunks cfg f data) then {#data#} else {#})"
proof -
  let ?full = "insert c (arrived f C) = set (frame_chunks cfg f data)"
  have sub: "arrived f C \<subseteq> set (frame_chunks cfg f data)" by (rule arrived_frame[OF d m C])
  have cf: "chunk_frame c = f" using c(1) by (rule frame_chunks_frame)
  then have ins: "arrived f (insert c C) = insert c (arrived f C)" by (auto simp: arrived_def)
  have new: "completed cfg (insert c C) (f, data) \<longleftrightarrow> ?full"
    using sub c(1) unfolding completed_arrived ins by auto
  have old: "\<not> completed cfg C (f, data)" using c by (auto simp: completed_def)
  have other: "completed cfg (insert c C) x \<longleftrightarrow> completed cfg C x" if "x \<in> set frames" "x \<noteq> (f, data)" for x
  proof (cases x)
    case (Pair f' d')
    then have "f' \<noteq> f" using that d m by (auto dest: frame_unique)
    then have "arrived f' (insert c C) = arrived f' C" using cf by (auto simp: arrived_def)
    then show ?thesis by (simp add: Pair completed_arrived)
  qed
  have "filter (completed cfg (insert c C)) frames =
    (if ?full then filter (\<lambda>x. completed cfg C x \<or> x = (f, data)) frames else filter (completed cfg C) frames)"
    using new other old by (auto intro!: filter_cong)
  moreover have "distinct frames" using d by (simp add: distinct_map)
  ultimately show ?thesis
    using mset_filter_extra[OF _ m, of "completed cfg C"] old by simp
qed

text \<open>
  \<open>base\<close> is what the output queue held at the start and \<open>taken\<close> what has been read
  from it since.
\<close>

definition reassembly_inv ::
  "buf_cfg \<Rightarrow> (u32 \<times> bytes) list \<Rightarrow> bytes multiset \<Rightarrow> bytes multiset \<Rightarrow> connection_chunk set \<Rightarrow>
    connection_buffer \<Rightarrow> bool" where
  "reassembly_inv cfg frames base taken C b \<longleftrightarrow>
     taken + mset (outs b) = base + mset (map snd (filter (completed cfg C) frames)) \<and>
     (\<forall>(f, data) \<in> set frames. assembling cfg f data (arrived f C) (hm_get (incomings b) f))"

lemma reassembly_step:
  assumes "0 < CHUNK_SIZE cfg" and d: "distinct (map fst frames)"
    and pc: "\<And>f data. (f, data) \<in> set frames \<Longrightarrow> piece_count cfg data < 2 ^ 16"
    and C: "insert c C \<subseteq> all_chunks cfg frames" "c \<notin> C"
    and inv: "reassembly_inv cfg frames base taken C b"
  shows "reassembly_inv cfg frames base taken (insert c C) (deliver c b)"
proof -
  obtain f data where m: "(f, data) \<in> set frames" and c: "c \<in> set (frame_chunks cfg f data)"
    using C(1) by (auto simp: all_chunks_def)
  have C': "C \<subseteq> all_chunks cfg frames" using C(1) by simp
  have cf: "chunk_frame c = f" using c by (rule frame_chunks_frame)
  have sub: "arrived f C \<subseteq> set (frame_chunks cfg f data)" by (rule arrived_frame[OF d m C'])
  have cn: "c \<notin> arrived f C" using C(2) by (simp add: arrived_def)
  have inc: "assembling cfg f data (arrived f C) (hm_get (incomings b) f)"
    using inv m by (auto simp: reassembly_inv_def)
  have step: "assembling cfg f data (insert c (arrived f C)) (hm_get (incomings (deliver c b)) f) \<and>
    outs (deliver c b) = outs b @ (if insert c (arrived f C) = set (frame_chunks cfg f data) then [data] else []) \<and>
    (\<forall>f'. f' \<noteq> f \<longrightarrow> hm_get (incomings (deliver c b)) f' = hm_get (incomings b) f')"
  proof (cases "piece_count cfg data = 1")
    case True
    with deliver_single[OF assms(1) True c] inc sub cn show ?thesis
      by (auto simp: assembling_def)
  next
    case False
    with deliver_multi[OF assms(1) pc[OF m] False sub c cn inc] show ?thesis by blast
  qed
  have "arrived f' (insert c C) = (if f' = f then insert c (arrived f C) else arrived f' C)" for f'
    using cf by (auto simp: arrived_def)
  moreover have "d' = data" if "(f, d') \<in> set frames" for d' using frame_unique[OF d m that] by simp
  ultimately have "\<forall>(f', d') \<in> set frames. assembling cfg f' d' (arrived f' (insert c C)) (hm_get (incomings (deliver c b)) f')"
    using inv step by (auto simp: reassembly_inv_def)
  moreover have "taken + mset (outs (deliver c b)) = base + mset (map snd (filter (completed cfg (insert c C)) frames))"
    using inv step unfolding completed_insert[OF d m c C(2) C'] by (auto simp: reassembly_inv_def)
  ultimately show ?thesis by (simp add: reassembly_inv_def)
qed

section \<open>Bytes in the air\<close>

fun is_chunk :: "connection_chunk \<Rightarrow> bool" where
  "is_chunk (Chunk _ _ _ _) = True"
| "is_chunk (ChunkAck _ _ _) = False"

fun chunk_id :: "connection_chunk \<Rightarrow> u32 \<times> u16" where
  "chunk_id (Chunk f i _ _) = (f, i)"
| "chunk_id (ChunkAck f i _) = (f, i)"

text \<open>The size recorded for a chunk that is not acknowledged yet.\<close>

definition pending :: "connection_buffer \<Rightarrow> u32 \<times> u16 \<Rightarrow> usize option" where
  "pending b = (\<lambda>(f, i). case hm_get (outgoings b) f of None \<Rightarrow> None | Some fr \<Rightarrow> hm_get (of_chunks fr) i)"

definition queued :: "connection_buffer \<Rightarrow> connection_chunk multiset" where
  "queued b = filter_mset is_chunk (mset (send_queue b))"

definition queued_acks :: "connection_buffer \<Rightarrow> connection_chunk multiset" where
  "queued_acks b = filter_mset (\<lambda>c. \<not> is_chunk c) (mset (send_queue b))"

definition queued_ids :: "connection_buffer \<Rightarrow> (u32 \<times> u16) set" where
  "queued_ids b = chunk_id ` set_mset (queued b)"

text \<open>Sent and not acknowledged.\<close>

definition inflight :: "connection_buffer \<Rightarrow> (u32 \<times> u16) set" where
  "inflight b = dom (pending b) - queued_ids b"

definition air_bytes :: "connection_buffer \<Rightarrow> nat" where
  "air_bytes b = (\<Sum>k \<in> inflight b. unat (the (pending b k)))"

definition size_ok :: "buf_cfg \<Rightarrow> bool" where
  "size_ok cfg \<longleftrightarrow> 0 < CHUNK_SIZE cfg \<and> (\<forall>f i n d. length d \<le> CHUNK_SIZE cfg \<longrightarrow>
     unat (bincode_serialized_size cfg (Chunk f i n d)) + unat (AIR_LIMIT cfg) < 2 ^ 64)"

definition acct :: "buf_cfg \<Rightarrow> connection_buffer \<Rightarrow> bool" where
  "acct cfg b \<longleftrightarrow>
     (\<forall>c \<in># queued b. pending b (chunk_id c) = Some (in_air_size cfg c) \<and>
        unat (in_air_size cfg c) + unat (AIR_LIMIT cfg) < 2 ^ 64) \<and>
     (\<forall>k. count (image_mset chunk_id (queued b)) k \<le> 1) \<and>
     unat (in_air b) = air_bytes b \<and> in_air b \<le> AIR_LIMIT cfg"

lemma acct_default: "acct cfg cb_default"
  by (simp add: acct_def cb_default_def queued_def send_queue_def air_bytes_def inflight_def pending_def dom_def)

lemma finite_inflight [simp]: "finite (inflight b)"
  by simp

lemma air_bytes_cong:
  "pending b' = pending b \<Longrightarrow> queued b' = queued b \<Longrightarrow> air_bytes b' = air_bytes b"
  by (simp add: air_bytes_def inflight_def queued_ids_def)

subsection \<open>Sending\<close>

lemma pop_send_Some:
  assumes "pop_send cfg b = (Some m, b')"
  obtains c q where "send_queue b = c # q" "m = bincode_serialize cfg c" "send_queue b' = q"
    "in_air_size cfg c + in_air b \<le> AIR_LIMIT cfg" "in_air b' = in_air b + in_air_size cfg c"
    "outgoings b' = outgoings b" "incomings b' = incomings b" "outs b' = outs b"
    "frame_id_seed b' = frame_id_seed b"
  using assms
  by (cases "high_priority b"; cases "low_priority b")
    (auto simp: pop_send_def send_queue_def pop_queue_def Let_def split: if_splits)

lemma acct_pop_send:
  assumes "acct cfg b" and "pop_send cfg b = (Some m, b')"
  shows "acct cfg b'"
proof -
  from assms(2) obtain c q where p: "send_queue b = c # q" "send_queue b' = q"
    "in_air_size cfg c + in_air b \<le> AIR_LIMIT cfg" "in_air b' = in_air b + in_air_size cfg c"
    "outgoings b' = outgoings b"
    by (rule pop_send_Some)
  have pend: "pending b' = pending b" by (simp add: pending_def p)
  show ?thesis
  proof (cases "is_chunk c")
    case False
    then have q: "queued b' = queued b" and "in_air_size cfg c = 0"
      by (cases c; simp add: queued_def p in_air_size_def)+
    with assms(1) pend p(4) air_bytes_cong[OF pend q] show ?thesis by (simp add: acct_def)
  next
    case True
    then have q: "queued b = add_mset c (queued b')" by (simp add: queued_def p)
    have c1: "count (image_mset chunk_id (queued b)) k \<le> 1" for k using assms(1) unfolding acct_def by blast
    have "chunk_id c \<notin># image_mset chunk_id (queued b')"
      using c1[of "chunk_id c"] by (simp add: q count_eq_zero_iff del: set_image_mset)
    then have fresh: "chunk_id c \<notin> queued_ids b'" by (simp add: queued_ids_def)
    have pc: "pending b (chunk_id c) = Some (in_air_size cfg c)" and
      sz: "unat (in_air_size cfg c) + unat (AIR_LIMIT cfg) < 2 ^ 64"
      using assms(1) by (simp_all add: acct_def q)
    have "inflight b' = insert (chunk_id c) (inflight b)"
      using fresh pc by (simp only: inflight_def pend queued_ids_def q) (auto simp: image_iff)
    moreover have "chunk_id c \<notin> inflight b" by (simp add: inflight_def queued_ids_def q)
    ultimately have air: "air_bytes b' = air_bytes b + unat (in_air_size cfg c)"
      using pc by (simp add: air_bytes_def pend)
    have "unat (in_air b) \<le> unat (AIR_LIMIT cfg)" using assms(1) by (simp add: acct_def word_le_nat_alt)
    then have "unat (in_air b') = air_bytes b'"
      using air sz assms(1) by (simp add: p(4) acct_def unat_add_no_wrap)
    moreover have "count (image_mset chunk_id (queued b')) k \<le> 1" for k
      using c1[of k] by (simp add: q split: if_splits)
    ultimately show ?thesis
      using assms(1) p(3,4) by (simp add: acct_def pend q add.commute)
  qed
qed

subsection \<open>Receiving\<close>

lemma acct_cong:
  assumes "acct cfg b" "outgoings b' = outgoings b" "queued b' = queued b" "in_air b' = in_air b"
  shows "acct cfg b'"
proof -
  have "pending b' = pending b" using assms(2) by (simp add: pending_def)
  with air_bytes_cong[OF this assms(3)] assms show ?thesis by (simp add: acct_def)
qed

lemma receive_chunk_sel [simp]:
  "outgoings (receive_chunk f i n d b) = outgoings b"
  "in_air (receive_chunk f i n d b) = in_air b"
  "high_priority (receive_chunk f i n d b) = high_priority b @ [ChunkAck f i n]"
  "low_priority (receive_chunk f i n d b) = low_priority b"
  "frame_id_seed (receive_chunk f i n d b) = frame_id_seed b"
  by (simp_all add: receive_chunk_def Let_def push_back_def)

lemma queued_receive_chunk [simp]:
  "queued (receive_chunk f i n d b) = queued b"
  "queued_acks (receive_chunk f i n d b) = add_mset (ChunkAck f i n) (queued_acks b)"
  by (simp_all add: queued_def queued_acks_def send_queue_def)

lemma acct_receive_chunk: "acct cfg b \<Longrightarrow> acct cfg (receive_chunk f i n d b)"
  by (rule acct_cong) simp_all

lemma receive_ack_sel [simp]:
  "high_priority (receive_ack f i b) = high_priority b"
  "low_priority (receive_ack f i b) = low_priority b"
  "frame_id_seed (receive_ack f i b) = frame_id_seed b"
  "incomings (receive_ack f i b) = incomings b"
  "outs (receive_ack f i b) = outs b"
  by (simp_all add: receive_ack_def Let_def split: option.splits)

lemma queued_receive_ack [simp]:
  "queued (receive_ack f i b) = queued b" "queued_acks (receive_ack f i b) = queued_acks b"
  by (simp_all add: queued_def queued_acks_def send_queue_def)

lemma pending_receive_ack: "pending (receive_ack f i b) = (pending b)((f, i) := None)"
proof (rule ext, clarify)
  fix g j
  show "pending (receive_ack f i b) (g, j) = ((pending b)((f, i) := None)) (g, j)"
  proof (cases "hm_get (outgoings b) f")
    case None
    then show ?thesis by (auto simp: pending_def receive_ack_def)
  next
    case (Some fr)
    have "hm_get (of_chunks fr) j = None" if "hm_remove i (of_chunks fr) = []" "j \<noteq> i"
      using that hm_get_remove[of i "of_chunks fr" j] by simp
    with Some show ?thesis
      by (cases "hm_get (of_chunks fr) i")
        (auto simp: pending_def receive_ack_def Let_def hm_get_insert hm_get_remove)
  qed
qed

lemma in_air_receive_ack:
  "in_air (receive_ack f i b) = in_air b - (case pending b (f, i) of None \<Rightarrow> 0 | Some sz \<Rightarrow> sz)"
  by (simp add: pending_def receive_ack_def Let_def split: option.splits)

lemma acct_receive_ack:
  assumes "acct cfg b" and "(f, i) \<notin> queued_ids b"
  shows "acct cfg (receive_ack f i b)"
proof (cases "pending b (f, i)")
  case None
  then have "pending (receive_ack f i b) = pending b" by (auto simp: pending_receive_ack)
  with None assms(1) air_bytes_cong[OF this queued_receive_ack(1)] show ?thesis
    by (simp add: acct_def in_air_receive_ack)
next
  case (Some sz)
  let ?b = "receive_ack f i b"
  have "(f, i) \<in> inflight b" using Some assms(2) by (simp add: inflight_def dom_def)
  moreover have "inflight ?b = inflight b - {(f, i)}"
    by (auto simp: inflight_def pending_receive_ack queued_ids_def)
  ultimately have air: "air_bytes b = unat sz + air_bytes ?b"
    using Some by (simp add: air_bytes_def pending_receive_ack sum.remove[of "inflight b" "(f, i)"])
  with assms(1) have le: "sz \<le> in_air b" by (simp add: acct_def word_le_nat_alt)
  have ia: "in_air ?b = in_air b - sz" by (simp add: in_air_receive_ack Some)
  have "unat (in_air ?b) = air_bytes ?b"
    using assms(1) air le by (simp add: ia acct_def unat_sub_if')
  moreover have "in_air ?b \<le> AIR_LIMIT cfg"
    using assms(1) le by (auto simp: ia acct_def word_le_nat_alt unat_sub_if')
  moreover have "chunk_id c \<noteq> (f, i)" if "c \<in># queued b" for c
    using assms(2) that by (force simp: queued_ids_def)
  ultimately show ?thesis using assms(1) by (auto simp: acct_def pending_receive_ack)
qed

subsection \<open>Pushing a frame\<close>

lemma fold_register:
  "hm_get (fold (register_chunk cfg) cs m) i =
    (case find (\<lambda>c. is_chunk c \<and> snd (chunk_id c) = i) (rev cs) of
       None \<Rightarrow> hm_get m i | Some c \<Rightarrow> Some (in_air_size cfg c))"
proof (induction cs rule: rev_induct)
  case Nil
  then show ?case by simp
next
  case (snoc c cs)
  then show ?case by (cases c) (auto simp: register_chunk_def hm_get_insert)
qed

lemma push_frame_sel:
  "send_queue (push_frame cfg data b) =
    (if length data \<le> CHUNK_SIZE cfg
     then high_priority b @ frame_chunks cfg (frame_id_seed b) data @ low_priority b
     else send_queue b @ frame_chunks cfg (frame_id_seed b) data)"
  "in_air (push_frame cfg data b) = in_air b"
  "incomings (push_frame cfg data b) = incomings b"
  "outs (push_frame cfg data b) = outs b"
  "frame_id_seed (push_frame cfg data b) = frame_id_seed b + 1"
  by (simp_all add: push_frame_def Let_def send_queue_def)

lemma queued_push_frame:
  "queued (push_frame cfg data b) = queued b + mset (frame_chunks cfg (frame_id_seed b) data)"
  "queued_acks (push_frame cfg data b) = queued_acks b"
proof -
  have "filter is_chunk (frame_chunks cfg f data) = frame_chunks cfg f data"
    "filter (\<lambda>c. \<not> is_chunk c) (frame_chunks cfg f data) = []" for f
    by (auto simp: filter_empty_conv frame_chunks_mem intro!: filter_True)
  then show "queued (push_frame cfg data b) = queued b + mset (frame_chunks cfg (frame_id_seed b) data)"
    "queued_acks (push_frame cfg data b) = queued_acks b"
    unfolding queued_def queued_acks_def push_frame_sel(1)
    by (simp_all add: send_queue_def flip: mset_filter)
qed

lemma find_SomeD: "find P xs = Some x \<Longrightarrow> x \<in> set xs \<and> P x"
  by (induction xs) (auto split: if_splits)

lemma register_frame:
  assumes "piece_count cfg data \<le> 2 ^ 16"
  shows "hm_get (fold (register_chunk cfg) (frame_chunks cfg f data) []) i = Some sz \<longleftrightarrow>
    (\<exists>c \<in> set (frame_chunks cfg f data). chunk_id c = (f, i) \<and> sz = in_air_size cfg c)"
proof -
  have ids: "is_chunk c \<and> fst (chunk_entry c) = snd (chunk_id c) \<and> fst (chunk_id c) = f"
    if "c \<in> set (frame_chunks cfg f data)" for c
    using that by (auto simp: frame_chunks_mem)
  have uniq: "c = c'" if "c \<in> set (frame_chunks cfg f data)" "c' \<in> set (frame_chunks cfg f data)"
    "snd (chunk_id c) = snd (chunk_id c')" for c c'
    using chunk_entry_inj[OF assms, of f] that ids[OF that(1)] ids[OF that(2)] by (auto simp: inj_on_def)
  let ?P = "\<lambda>c. is_chunk c \<and> snd (chunk_id c) = i"
  show ?thesis
  proof (cases "find ?P (rev (frame_chunks cfg f data))")
    case None
    then have "\<nexists>c. c \<in> set (frame_chunks cfg f data) \<and> snd (chunk_id c) = i"
      using ids by (auto simp: find_None_iff)
    with None show ?thesis by (auto simp: fold_register)
  next
    case (Some c)
    then have "c \<in> set (frame_chunks cfg f data)" "snd (chunk_id c) = i"
      using find_SomeD[OF Some] by auto
    then show ?thesis using ids uniq by (auto simp: fold_register Some prod_eq_iff)
  qed
qed

lemma pending_push_frame:
  assumes "piece_count cfg data \<le> 2 ^ 16" and "hm_get (outgoings b) (frame_id_seed b) = None"
  shows "pending (push_frame cfg data b) k = Some sz \<longleftrightarrow> pending b k = Some sz \<or>
    (\<exists>c \<in> set (frame_chunks cfg (frame_id_seed b) data). chunk_id c = k \<and> sz = in_air_size cfg c)"
proof (cases k)
  case (Pair f i)
  have id: "fst (chunk_id c) = frame_id_seed b" if "c \<in> set (frame_chunks cfg (frame_id_seed b) data)" for c
    using that by (auto simp: frame_chunks_mem)
  have og: "hm_get (outgoings (push_frame cfg data b)) g = (if g = frame_id_seed b
    then Some \<lparr>of_chunks = fold (register_chunk cfg) (frame_chunks cfg g data) []\<rparr> else hm_get (outgoings b) g)" for g
    by (simp add: push_frame_def Let_def hm_get_insert)
  show ?thesis
  proof (cases "f = frame_id_seed b")
    case True
    then have "pending b k = None" using assms(2) by (simp add: Pair pending_def)
    then show ?thesis using True assms(1) by (simp add: Pair pending_def[of "push_frame cfg data b"] og register_frame)
  next
    case False
    then have "chunk_id c \<noteq> k" if "c \<in> set (frame_chunks cfg (frame_id_seed b) data)" for c
      using id[OF that] by (auto simp: Pair)
    with False show ?thesis by (auto simp: Pair pending_def og)
  qed
qed

lemma frame_chunk_data:
  assumes "c \<in> set (frame_chunks cfg f data)"
  obtains i n d where "c = Chunk f i n d" "length d \<le> CHUNK_SIZE cfg"
proof -
  obtain i where i: "i < piece_count cfg data"
    "c = Chunk f (word_of_nat i) (word_of_nat (piece_count cfg data)) (pieces cfg data ! i)"
    using assms by (auto simp: frame_chunks_mem)
  then have "pieces cfg data ! i \<in> set (pieces cfg data)" by (simp add: piece_count_pieces)
  then have "length (pieces cfg data ! i) \<le> CHUNK_SIZE cfg"
    by (auto simp: pieces_def dest: chunks_of_bound split: if_splits)
  with i(2) that show ?thesis by blast
qed

lemma frame_chunk_size:
  assumes "size_ok cfg" and "c \<in> set (frame_chunks cfg f data)"
  shows "unat (in_air_size cfg c) + unat (AIR_LIMIT cfg) < 2 ^ 64"
proof -
  obtain i n d where "c = Chunk f i n d" "length d \<le> CHUNK_SIZE cfg" using assms(2) by (rule frame_chunk_data)
  then show ?thesis using assms(1) by (simp add: in_air_size_def size_ok_def)
qed

lemma frame_chunk_ids:
  assumes "piece_count cfg data \<le> 2 ^ 16"
  shows "distinct (map chunk_id (frame_chunks cfg f data))"
proof -
  have "snd (chunk_id c) = (fst \<circ> chunk_entry) c" if "c \<in> set (frame_chunks cfg f data)" for c
    using that by (auto simp: frame_chunks_mem)
  then have "map (snd \<circ> chunk_id) (frame_chunks cfg f data) = map (fst \<circ> chunk_entry) (frame_chunks cfg f data)"
    by (intro map_cong) auto
  then have "distinct (map (snd \<circ> chunk_id) (frame_chunks cfg f data))" using frame_ids(2)[OF assms] by metis
  then show ?thesis unfolding map_map[symmetric] by (simp only: distinct_map)
qed

lemma acct_push_frame:
  assumes "acct cfg b" "size_ok cfg" and pc: "piece_count cfg data \<le> 2 ^ 16"
    and fresh: "hm_get (outgoings b) (frame_id_seed b) = None"
  shows "acct cfg (push_frame cfg data b)"
proof -
  let ?b = "push_frame cfg data b" and ?cs = "frame_chunks cfg (frame_id_seed b) data"
  note P = pending_push_frame[OF pc fresh]
  have old: "pending b k = None" if "c \<in> set ?cs" "chunk_id c = k" for c k
    using that fresh by (auto simp: frame_chunks_mem pending_def)
  have q: "pending b (chunk_id c) = Some (in_air_size cfg c)" if "c \<in># queued b" for c
    using assms(1) that by (simp add: acct_def)
  have disj: "chunk_id c \<noteq> chunk_id c'" if "c \<in># queued b" "c' \<in> set ?cs" for c c'
    using q[OF that(1)] old[OF that(2) refl] by auto
  have "inflight ?b = inflight b"
  proof (rule set_eqI)
    fix k
    show "k \<in> inflight ?b \<longleftrightarrow> k \<in> inflight b"
      using P[of k] old[of _ k] unfolding inflight_def dom_def queued_ids_def queued_push_frame
      by (cases "k \<in> chunk_id ` set ?cs") (auto simp: image_iff)
  qed
  moreover have "pending ?b k = pending b k" if "k \<in> inflight b" for k
    using that P[of k] by (auto simp: inflight_def)
  ultimately have "air_bytes ?b = air_bytes b" by (simp add: air_bytes_def)
  moreover have "count (image_mset chunk_id (queued ?b)) k \<le> 1" for k
  proof (cases "k \<in> chunk_id ` set ?cs")
    case True
    then have "k \<notin># image_mset chunk_id (queued b)" using disj by (auto simp: image_iff) metis
    then have "count (image_mset chunk_id (queued b)) k = 0" by (simp only: not_in_iff)
    moreover have "count (mset (map chunk_id ?cs)) k \<le> 1"
      using frame_chunk_ids[OF pc, of "frame_id_seed b"] 
      by (simp add: distinct_count_atmost_1 del: split_paired_All mset_map)
    ultimately show ?thesis by (simp add: queued_push_frame)
  next
    case False
    then have "count (mset (map chunk_id ?cs)) k = 0" by (simp add: count_eq_zero_iff)
    moreover have "count (image_mset chunk_id (queued b)) k \<le> 1" using assms(1) unfolding acct_def by blast
    ultimately show ?thesis by (simp add: queued_push_frame)
  qed
  ultimately show ?thesis
    using assms(1) frame_chunk_size[OF assms(2)] q P
    unfolding acct_def by (auto simp: queued_push_frame push_frame_sel)
qed

section \<open>Two peers and a link\<close>

definition decode :: "buf_cfg \<Rightarrow> bytes \<Rightarrow> connection_chunk" where
  "decode cfg m = the (bincode_deserialize cfg m)"

definition wire_chunks :: "buf_cfg \<Rightarrow> bytes list \<Rightarrow> connection_chunk multiset" where
  "wire_chunks cfg w = filter_mset is_chunk (mset (map (decode cfg) w))"

definition wire_acks :: "buf_cfg \<Rightarrow> bytes list \<Rightarrow> connection_chunk multiset" where
  "wire_acks cfg w = filter_mset (\<lambda>c. \<not> is_chunk c) (mset (map (decode cfg) w))"

text \<open>The frames a peer has pushed, with the identifiers they were given.\<close>

definition numbered :: "bytes list \<Rightarrow> (u32 \<times> bytes) list" where
  "numbered ds = map (\<lambda>(i, d). (word_of_nat i, d)) (enumerate 0 ds)"

text \<open>
  The invariant of one direction: \<open>s\<close> sends to \<open>r\<close> over the wire \<open>w\<close>,
  \<open>v\<close> is the wire back, \<open>ds\<close> the frames pushed at \<open>s\<close> and \<open>taken\<close> the
  frames read at \<open>r\<close>. Each chunk that is not acknowledged is in exactly one place: the
  queue of the sender, the wire, or, as an acknowledgement, the queue of the receiver or
  the wire back.
\<close>

definition outstanding ::
  "buf_cfg \<Rightarrow> connection_buffer \<Rightarrow> connection_buffer \<Rightarrow> bytes list \<Rightarrow> bytes list \<Rightarrow> connection_chunk multiset" where
  "outstanding cfg s r w v = queued s + wire_chunks cfg w + queued_acks r + wire_acks cfg v"

definition unsent :: "buf_cfg \<Rightarrow> connection_buffer \<Rightarrow> bytes list \<Rightarrow> connection_chunk multiset" where
  "unsent cfg s w = queued s + wire_chunks cfg w"

definition dir_inv ::
  "buf_cfg \<Rightarrow> connection_buffer \<Rightarrow> connection_buffer \<Rightarrow> bytes list \<Rightarrow> bytes list \<Rightarrow>
    bytes list \<Rightarrow> bytes list \<Rightarrow> bool" where
  "dir_inv cfg s r w v ds taken \<longleftrightarrow>
     (\<forall>m \<in> set w. bincode_deserialize cfg m \<noteq> None) \<and>
     frame_id_seed s = word_of_nat (length ds) \<and> length ds < 2 ^ 32 \<and>
     (\<forall>d \<in> set ds. piece_count cfg d < 2 ^ 16) \<and>
     acct cfg s \<and>
     image_mset chunk_id (outstanding cfg s r w v) = mset_set (dom (pending s)) \<and>
     set_mset (unsent cfg s w) \<subseteq> all_chunks cfg (numbered ds) \<and>
     (\<forall>f. hm_get (outgoings s) f \<noteq> None \<longrightarrow> f \<in> fst ` set (numbered ds)) \<and>
     reassembly_inv cfg (numbered ds) {#} (mset taken)
       (all_chunks cfg (numbered ds) - set_mset (unsent cfg s w)) r \<and>
     (\<forall>f. hm_get (incomings r) f \<noteq> None \<longrightarrow> f \<in> fst ` set (numbered ds))"

lemma numbered_snoc: "numbered (ds @ [d]) = numbered ds @ [(word_of_nat (length ds), d)]"
  by (simp add: numbered_def enumerate_append_eq)

lemma numbered_fst: "map fst (numbered ds) = map word_of_nat [0..<length ds]"
  unfolding numbered_def by (rule nth_equalityI) (auto simp: nth_enumerate_eq)

lemma numbered_snd: "map snd (numbered ds) = ds"
  unfolding numbered_def by (rule nth_equalityI) (auto simp: nth_enumerate_eq)

lemma numbered_distinct: "length ds \<le> 2 ^ 32 \<Longrightarrow> distinct (map fst (numbered ds))"
proof -
  assume "length ds \<le> 2 ^ 32"
  moreover have "inj_on (word_of_nat :: nat \<Rightarrow> u32) {0..<2 ^ 32}"
    by (rule inj_on_inverseI[of _ unat]) (simp add: unat_u32_of_nat)
  ultimately show ?thesis unfolding numbered_fst distinct_map
    by (auto intro: inj_on_subset)
qed

lemma numbered_data: "(f, d) \<in> set (numbered ds) \<Longrightarrow> d \<in> set ds"
  by (metis numbered_snd snd_conv image_eqI list.set_map)

lemma all_chunks_snoc:
  "all_chunks cfg (frames @ [(f, d)]) = all_chunks cfg frames \<union> set (frame_chunks cfg f d)"
  by (auto simp: all_chunks_def)

lemma dir_cong:
  assumes "dir_inv cfg s r w v ds taken"
    and "frame_id_seed s' = frame_id_seed s" "queued s' = queued s" "outgoings s' = outgoings s"
    "in_air s' = in_air s"
    and "queued_acks r' + wire_acks cfg v' = queued_acks r + wire_acks cfg v" "incomings r' = incomings r"
    "mset taken' + mset (outs r') = mset taken + mset (outs r)"
    and "wire_chunks cfg w' = wire_chunks cfg w" "\<forall>m \<in> set w'. bincode_deserialize cfg m \<noteq> None"
  shows "dir_inv cfg s' r' w' v' ds taken'"
proof -
  have "pending s' = pending s" using assms(4) by (simp add: pending_def)
  moreover have "outstanding cfg s' r' w' v' = outstanding cfg s r w v"
    using assms(3,6,9) by (simp add: outstanding_def add.assoc)
  moreover have "unsent cfg s' w' = unsent cfg s w" using assms(3,9) by (simp add: unsent_def)
  moreover have "acct cfg s'" using assms(1) by (intro acct_cong[OF _ assms(4,3,5)]) (simp add: dir_inv_def)
  ultimately show ?thesis using assms by (simp add: dir_inv_def reassembly_inv_def)
qed

lemma dir_cong_sender:
  assumes "dir_inv cfg s r w v ds taken" "frame_id_seed s' = frame_id_seed s" "queued s' = queued s"
    "outgoings s' = outgoings s" "in_air s' = in_air s"
  shows "dir_inv cfg s' r w v ds taken"
  by (rule dir_cong[OF assms]) (use assms(1) in \<open>auto simp: dir_inv_def\<close>)

lemma dir_cong_receiver:
  assumes "dir_inv cfg s r w v ds taken" "queued_acks r' = queued_acks r" "incomings r' = incomings r"
    "mset taken' + mset (outs r') = mset taken + mset (outs r)"
  shows "dir_inv cfg s r' w v ds taken'"
  by (rule dir_cong[OF assms(1)]) (use assms in \<open>auto simp: dir_inv_def\<close>)

lemma mset_set_takeout:
  assumes "finite D" "add_mset k M = mset_set D"
  shows "k \<in> D" and "M = mset_set (D - {k})" and "k \<notin># M"
proof -
  show k: "k \<in> D" using assms by (metis finite_set_mset_mset_set union_single_eq_member)
  show M: "M = mset_set (D - {k})"
    using assms mset_set.remove[OF assms(1) k] by simp
  show "k \<notin># M" using assms(1) by (simp add: M)
qed

lemma dir_push:
  assumes inv: "dir_inv cfg s r w v ds taken" and sz: "size_ok cfg"
    and len: "length ds + 1 < 2 ^ 32" and pc: "piece_count cfg data < 2 ^ 16"
  shows "dir_inv cfg (push_frame cfg data s) r w v (ds @ [data]) taken"
proof -
  let ?f = "frame_id_seed s" and ?s = "push_frame cfg data s"
  let ?cs = "frame_chunks cfg ?f data" and ?U = "all_chunks cfg (numbered ds)"
  let ?C = "?U - set_mset (unsent cfg s w)"
  have f: "?f = word_of_nat (length ds)" using inv by (simp add: dir_inv_def)
  have snoc: "numbered (ds @ [data]) = numbered ds @ [(?f, data)]" by (simp add: numbered_snoc f)
  have "distinct (map fst (numbered (ds @ [data])))" using len by (intro numbered_distinct) simp
  then have new: "?f \<notin> fst ` set (numbered ds)" by (simp add: snoc)
  then have fresh: "hm_get (outgoings s) ?f = None" using inv unfolding dir_inv_def by blast
  have inc: "hm_get (incomings r) ?f = None" using inv new unfolding dir_inv_def by blast
  have pc': "piece_count cfg data \<le> 2 ^ 16" using pc by simp
  have P: "dom (pending ?s) = dom (pending s) \<union> set (map chunk_id ?cs)"
  proof (rule set_eqI)
    fix k
    show "k \<in> dom (pending ?s) \<longleftrightarrow> k \<in> dom (pending s) \<union> set (map chunk_id ?cs)"
      using pending_push_frame[OF pc' fresh, of k] by (auto simp: dom_def)
  qed
  have disj: "dom (pending s) \<inter> set (map chunk_id ?cs) = {}"
    using fresh by (auto simp: frame_chunks_mem pending_def dom_def)
  have cf: "chunk_frame c \<in> fst ` set (numbered ds)" if "c \<in> ?U" for c
    using that by (force simp: all_chunks_def dest: frame_chunks_frame)
  then have csU: "set ?cs \<inter> ?U = {}" using new frame_chunks_frame[of _ cfg ?f data] by (metis disjoint_iff)
  have "mset_set (dom (pending ?s)) = mset_set (dom (pending s)) + mset (map chunk_id ?cs)"
    using frame_chunk_ids[OF pc'] disj
    unfolding P by (subst mset_set_Union) (simp_all del: set_map mset_map add: mset_set_set)
  moreover have "outstanding cfg ?s r w v = outstanding cfg s r w v + mset ?cs"
    by (simp add: outstanding_def queued_push_frame ac_simps)
  ultimately have ids: "image_mset chunk_id (outstanding cfg ?s r w v) = mset_set (dom (pending ?s))"
    using inv by (simp add: dir_inv_def)
  have un: "unsent cfg ?s w = unsent cfg s w + mset ?cs"
    by (simp add: unsent_def queued_push_frame ac_simps)
  then have C: "all_chunks cfg (numbered (ds @ [data])) - set_mset (unsent cfg ?s w) = ?C"
    using csU by (auto simp: snoc all_chunks_snoc)
  have "?cs \<noteq> []" using sz by (intro frame_chunks_nonempty) (simp add: size_ok_def)
  then have "\<not> completed cfg ?C (?f, data)"
    using csU by (cases ?cs) (auto simp: completed_def)
  moreover have "chunk_frame c \<noteq> ?f" if "c \<in> ?U" for c using cf[OF that] new by metis
  then have "arrived ?f ?C = {}" by (auto simp: arrived_def)
  ultimately have "reassembly_inv cfg (numbered (ds @ [data])) {#} (mset taken) ?C r"
    using inv inc by (auto simp: reassembly_inv_def dir_inv_def snoc assembling_def)
  moreover have "acct cfg ?s" using inv by (intro acct_push_frame sz pc' fresh) (simp add: dir_inv_def)
  moreover have "hm_get (outgoings ?s) g \<noteq> None \<longrightarrow> g \<in> fst ` set (numbered (ds @ [data]))" for g
    using inv by (auto simp: push_frame_def Let_def hm_get_insert snoc dir_inv_def)
  moreover have "set_mset (unsent cfg ?s w) \<subseteq> all_chunks cfg (numbered (ds @ [data]))"
    using inv by (auto simp: un snoc all_chunks_snoc dir_inv_def)
  ultimately show ?thesis
    using inv len pc ids C by (auto simp: dir_inv_def push_frame_sel(5) snoc)
qed

lemma dir_send:
  assumes inv: "dir_inv cfg s r w v ds taken" and codec: "codec_ok cfg"
    and pop: "pop_send cfg s = (Some m, s')"
  shows "dir_inv cfg s' r (w @ [m]) v ds taken"
proof -
  from pop obtain c q where p: "send_queue s = c # q" "m = bincode_serialize cfg c" "send_queue s' = q"
    "outgoings s' = outgoings s" "frame_id_seed s' = frame_id_seed s"
    by (rule pop_send_Some)
  have dec: "bincode_deserialize cfg m = Some c" using codec p(2) by (simp add: codec_ok_def)
  then have "unsent cfg s' (w @ [m]) = unsent cfg s w"
    by (simp add: unsent_def queued_def p wire_chunks_def decode_def)
  moreover from this have "outstanding cfg s' r (w @ [m]) v = outstanding cfg s r w v"
    unfolding outstanding_def unsent_def by (simp only:)
  moreover have "pending s' = pending s" by (simp add: pending_def p)
  moreover have "acct cfg s'" by (rule acct_pop_send[OF _ pop]) (use inv in \<open>simp add: dir_inv_def\<close>)
  ultimately show ?thesis using inv p dec by (simp add: dir_inv_def)
qed

lemma dir_send_back:
  assumes inv: "dir_inv cfg s r w v ds taken" and codec: "codec_ok cfg"
    and pop: "pop_send cfg r = (Some m, r')"
  shows "dir_inv cfg s r' w (v @ [m]) ds taken"
proof -
  from pop obtain c q where p: "send_queue r = c # q" "m = bincode_serialize cfg c" "send_queue r' = q"
    "incomings r' = incomings r" "outs r' = outs r"
    by (rule pop_send_Some)
  have "decode cfg m = c" using codec p(2) by (simp add: codec_ok_def decode_def)
  then show ?thesis using inv p
    by (intro dir_cong[OF inv]) (simp_all add: queued_acks_def wire_acks_def dir_inv_def)
qed

lemma incomings_receive_chunk:
  "hm_get (incomings (receive_chunk f i n d b)) g \<noteq> None \<Longrightarrow> g = f \<or> hm_get (incomings b) g \<noteq> None"
  by (auto simp: receive_chunk_def Let_def hm_get_insert hm_get_remove split: if_splits)

lemma on_received_Some:
  "bincode_deserialize cfg m = Some c \<Longrightarrow> on_received cfg m b = (Some (), deliver c b)"
  by (simp add: on_received_def deliver_def split: connection_chunk.splits)

lemma dir_recv_chunk:
  assumes inv: "dir_inv cfg s r (xs @ m # ys) v ds taken" and sz: "size_ok cfg"
    and dec: "bincode_deserialize cfg m = Some c" and c: "is_chunk c"
  shows "dir_inv cfg s (deliver c r) (xs @ ys) v ds taken"
proof -
  let ?U = "all_chunks cfg (numbered ds)" and ?un = "unsent cfg s (xs @ ys)"
  obtain f i n d where cc: "c = Chunk f i n d" using c by (cases c) auto
  have w: "wire_chunks cfg (xs @ m # ys) = add_mset c (wire_chunks cfg (xs @ ys))"
    using dec c by (simp add: wire_chunks_def decode_def)
  have un: "unsent cfg s (xs @ m # ys) = add_mset c ?un" by (simp add: unsent_def w)
  have "outstanding cfg s r (xs @ m # ys) v = add_mset c (outstanding cfg s r (xs @ ys) v)"
    by (simp add: outstanding_def w)
  moreover have "image_mset chunk_id (outstanding cfg s r (xs @ m # ys) v) = mset_set (dom (pending s))"
    using inv by (simp add: dir_inv_def)
  ultimately have add: "add_mset (chunk_id c) (image_mset chunk_id (outstanding cfg s r (xs @ ys) v)) =
      mset_set (dom (pending s))" by simp
  have "chunk_id c \<notin># image_mset chunk_id (outstanding cfg s r (xs @ ys) v)"
    by (rule mset_set_takeout(3)[OF _ add]) simp
  then have cn: "c \<notin># ?un" by (auto simp: outstanding_def unsent_def)
  have ids: "image_mset chunk_id (outstanding cfg s (deliver c r) (xs @ ys) v) = mset_set (dom (pending s))"
    unfolding add[symmetric] by (simp add: outstanding_def deliver_def cc)
  have U: "set_mset (add_mset c ?un) \<subseteq> ?U" using inv unfolding un[symmetric] by (simp add: dir_inv_def)
  then have C: "?U - set_mset ?un = insert c (?U - set_mset (add_mset c ?un))" using cn by auto
  have re: "reassembly_inv cfg (numbered ds) {#} (mset taken) (?U - set_mset ?un) (deliver c r)"
    unfolding C
  proof (rule reassembly_step)
    show "reassembly_inv cfg (numbered ds) {#} (mset taken) (?U - set_mset (add_mset c ?un)) r"
      using inv unfolding un[symmetric] by (simp add: dir_inv_def)
    show "distinct (map fst (numbered ds))" using inv by (intro numbered_distinct) (simp add: dir_inv_def)
    show "\<And>g data. (g, data) \<in> set (numbered ds) \<Longrightarrow> piece_count cfg data < 2 ^ 16"
      using inv by (auto simp: dir_inv_def dest: numbered_data)
  qed (use U sz in \<open>auto simp: size_ok_def\<close>)
  have "f \<in> fst ` set (numbered ds)"
    using U by (force simp: cc all_chunks_def frame_chunks_mem)
  moreover have "hm_get (incomings r) g \<noteq> None \<Longrightarrow> g \<in> fst ` set (numbered ds)" for g
    using inv unfolding dir_inv_def by blast
  ultimately have "hm_get (incomings (deliver c r)) g \<noteq> None \<longrightarrow> g \<in> fst ` set (numbered ds)" for g
    using incomings_receive_chunk[of f i n d r g] by (simp add: cc deliver_def) blast
  then show ?thesis using inv re ids U by (auto simp: dir_inv_def)
qed

lemma dir_recv:
  assumes inv: "dir_inv cfg s r (xs @ m # ys) v ds taken" and sz: "size_ok cfg"
    and rcv: "on_received cfg m r = (res, r')"
  shows "dir_inv cfg s r' (xs @ ys) v ds taken"
proof -
  obtain c where dec: "bincode_deserialize cfg m = Some c" using inv by (auto simp: dir_inv_def)
  then have r': "r' = deliver c r" using rcv by (simp add: on_received_Some)
  show ?thesis
  proof (cases c)
    case (Chunk f i n d)
    then show ?thesis unfolding r' by (intro dir_recv_chunk[OF inv sz dec]) simp
  next
    case (ChunkAck f i n)
    then show ?thesis using inv dec unfolding r'
      by (intro dir_cong[OF inv]) (auto simp: deliver_def wire_chunks_def decode_def dir_inv_def)
  qed
qed

lemma dir_recv_ack:
  assumes inv: "dir_inv cfg s r w (xs @ m # ys) ds taken"
    and dec: "bincode_deserialize cfg m = Some (ChunkAck f i n)"
  shows "dir_inv cfg (receive_ack f i s) r w (xs @ ys) ds taken"
proof -
  let ?s = "receive_ack f i s"
  have "outstanding cfg s r w (xs @ m # ys) = add_mset (ChunkAck f i n) (outstanding cfg s r w (xs @ ys))"
    using dec by (simp add: outstanding_def wire_acks_def decode_def)
  moreover have "image_mset chunk_id (outstanding cfg s r w (xs @ m # ys)) = mset_set (dom (pending s))"
    using inv by (simp add: dir_inv_def)
  ultimately have add: "add_mset (f, i) (image_mset chunk_id (outstanding cfg s r w (xs @ ys))) =
      mset_set (dom (pending s))" by simp
  note out = mset_set_takeout[OF _ add, OF finite]
  have "(f, i) \<notin> queued_ids s" using out(3) by (auto simp: queued_ids_def outstanding_def)
  then have "acct cfg ?s" using inv by (intro acct_receive_ack) (simp_all add: dir_inv_def)
  moreover have "outstanding cfg ?s r w (xs @ ys) = outstanding cfg s r w (xs @ ys)"
    "unsent cfg ?s w = unsent cfg s w" by (simp_all add: outstanding_def unsent_def)
  moreover have "dom (pending ?s) = dom (pending s) - {(f, i)}" by (simp add: pending_receive_ack)
  moreover have "hm_get (outgoings ?s) g \<noteq> None \<Longrightarrow> hm_get (outgoings s) g \<noteq> None" for g
    by (auto simp: receive_ack_def Let_def hm_get_insert hm_get_remove split: option.splits if_splits)
  ultimately show ?thesis using inv out(2) by (simp add: dir_inv_def)
qed

lemma dir_recv_back:
  assumes inv: "dir_inv cfg s r w (xs @ m # ys) ds taken"
    and rcv: "on_received cfg m s = (res, s')" and "bincode_deserialize cfg m \<noteq> None"
  shows "dir_inv cfg s' r w (xs @ ys) ds taken"
proof -
  obtain c where Some: "bincode_deserialize cfg m = Some c" using assms(3) by blast
  then have s': "s' = deliver c s" using rcv by (simp add: on_received_Some)
  show ?thesis
  proof (cases c)
    case (Chunk f i n d)
    then show ?thesis using inv Some unfolding s'
      by (intro dir_cong[OF inv]) (auto simp: deliver_def wire_acks_def decode_def dir_inv_def)
  next
    case (ChunkAck f i n)
    then show ?thesis unfolding s' using dir_recv_ack[OF inv] Some by (simp add: deliver_def)
  qed
qed

subsection \<open>The step relation\<close>

text \<open>
  The two peers are \<open>True\<close> and \<open>False\<close>; \<open>wire l x\<close> holds what \<open>x\<close> has sent and
  the other has not received, and a receive step takes any message of it, so the link may
  reorder. \<open>pushed\<close> and \<open>taken\<close> are histories: the frames given to
  \<open>push_frame\<close> and the frames \<open>pop_recv\<close> has returned. A frame is pushed only while
  the identifiers have not wrapped around and its chunks fit in the sixteen-bit count.
\<close>

record link =
  peer :: "bool \<Rightarrow> connection_buffer"
  wire :: "bool \<Rightarrow> bytes list"
  pushed :: "bool \<Rightarrow> bytes list"
  taken :: "bool \<Rightarrow> bytes list"

definition link_init :: link where
  "link_init = \<lparr>peer = (\<lambda>_. cb_default), wire = (\<lambda>_. []), pushed = (\<lambda>_. []), taken = (\<lambda>_. [])\<rparr>"

inductive link_step :: "buf_cfg \<Rightarrow> link \<Rightarrow> link \<Rightarrow> bool" for cfg where
  link_push:
    "length (pushed l x) + 1 < 2 ^ 32 \<Longrightarrow> length data \<le> 65535 * CHUNK_SIZE cfg \<Longrightarrow>
     link_step cfg l (l\<lparr>peer := (peer l)(x := push_frame cfg data (peer l x)),
                        pushed := (pushed l)(x := pushed l x @ [data])\<rparr>)"
| link_send:
    "pop_send cfg (peer l x) = (Some m, b) \<Longrightarrow>
     link_step cfg l (l\<lparr>peer := (peer l)(x := b), wire := (wire l)(x := wire l x @ [m])\<rparr>)"
| link_recv:
    "wire l (\<not> x) = us @ m # vs \<Longrightarrow> on_received cfg m (peer l x) = (res, b) \<Longrightarrow>
     link_step cfg l (l\<lparr>peer := (peer l)(x := b), wire := (wire l)(\<not> x := us @ vs)\<rparr>)"
| link_read:
    "pop_recv (peer l x) = (Some d, b) \<Longrightarrow>
     link_step cfg l (l\<lparr>peer := (peer l)(x := b), taken := (taken l)(x := taken l x @ [d])\<rparr>)"

definition link_inv :: "buf_cfg \<Rightarrow> link \<Rightarrow> bool" where
  "link_inv cfg l \<longleftrightarrow>
     (\<forall>x. dir_inv cfg (peer l x) (peer l (\<not> x)) (wire l x) (wire l (\<not> x)) (pushed l x) (taken l (\<not> x)))"

lemma link_inv_init: "link_inv cfg link_init"
  using acct_default
  by (simp add: link_inv_def link_init_def dir_inv_def outstanding_def unsent_def queued_def queued_acks_def
      send_queue_def cb_default_def wire_chunks_def wire_acks_def numbered_def all_chunks_def
      reassembly_inv_def pending_def dom_def)

lemma piece_count_bound:
  assumes "0 < CHUNK_SIZE cfg" "length data \<le> 65535 * CHUNK_SIZE cfg"
  shows "piece_count cfg data < 2 ^ 16"
proof -
  have "length data + CHUNK_SIZE cfg - 1 < 65536 * CHUNK_SIZE cfg" using assms by simp
  then have "(length data + CHUNK_SIZE cfg - 1) div CHUNK_SIZE cfg < 65536"
    by (simp add: div_less_iff_less_mult assms(1))
  then show ?thesis using assms(1) by (simp add: piece_count_def length_chunks_of)
qed

lemma link_inv_step:
  assumes ok: "codec_ok cfg" "size_ok cfg" and step: "link_step cfg l l'" and inv: "link_inv cfg l"
  shows "link_inv cfg l'"
proof -
  have I: "dir_inv cfg (peer l x) (peer l (\<not> x)) (wire l x) (wire l (\<not> x)) (pushed l x) (taken l (\<not> x))" for x
    using inv by (simp add: link_inv_def)
  have two: "link_inv cfg k" if "dir_inv cfg (peer k x) (peer k (\<not> x)) (wire k x) (wire k (\<not> x)) (pushed k x) (taken k (\<not> x))"
    "dir_inv cfg (peer k (\<not> x)) (peer k x) (wire k (\<not> x)) (wire k x) (pushed k (\<not> x)) (taken k x)" for k x
    unfolding link_inv_def all_bool_eq using that by (cases x) simp_all
  note I' = I[of "\<not> y" for y, simplified]
  show ?thesis
    using step
  proof cases
    case (link_push x data)
    have pc: "piece_count cfg data < 2 ^ 16"
      using ok(2) link_push(3) by (intro piece_count_bound) (simp_all add: size_ok_def)
    have "dir_inv cfg (peer l (\<not> x)) (push_frame cfg data (peer l x)) (wire l (\<not> x)) (wire l x)
        (pushed l (\<not> x)) (taken l x)"
      by (rule dir_cong_receiver[OF I']) (simp_all add: queued_push_frame push_frame_sel)
    with dir_push[OF I[of x] ok(2) link_push(2) pc] show ?thesis
      unfolding link_push(1) by (intro two[of _ x]) simp_all
  next
    case (link_send x m b)
    show ?thesis unfolding link_send(1)
      by (rule two[of _ x]) (use dir_send[OF I ok(1) link_send(2)] dir_send_back[OF I' ok(1) link_send(2)] in simp_all)
  next
    case (link_recv x us m vs res b)
    have m: "bincode_deserialize cfg m \<noteq> None" using I[of "\<not> x"] by (simp add: dir_inv_def link_recv(2))
    show ?thesis unfolding link_recv(1)
      by (rule two[of _ x])
        (use dir_recv[OF _ ok(2) link_recv(3)] dir_recv_back[OF _ link_recv(3) m] I[of x] I'[of x] in
          \<open>simp_all add: link_recv(2)\<close>)
  next
    case (link_read x d b)
    have b: "queued b = queued (peer l x)" "queued_acks b = queued_acks (peer l x)" "outgoings b = outgoings (peer l x)"
      "in_air b = in_air (peer l x)" "incomings b = incomings (peer l x)"
      "frame_id_seed b = frame_id_seed (peer l x)" "outs (peer l x) = d # outs b"
      using link_read(2) by (auto simp: pop_recv_def queued_def queued_acks_def send_queue_def
          split: option.splits elim: pop_front.elims)
    have "dir_inv cfg b (peer l (\<not> x)) (wire l x) (wire l (\<not> x)) (pushed l x) (taken l (\<not> x))"
      by (rule dir_cong_sender[OF I]) (simp_all add: b)
    moreover have "dir_inv cfg (peer l (\<not> x)) b (wire l (\<not> x)) (wire l x) (pushed l (\<not> x)) (taken l x @ [d])"
      by (rule dir_cong_receiver[OF I']) (simp_all add: b)
    ultimately show ?thesis unfolding link_read(1) by (intro two[of _ x]) simp_all
  qed
qed

subsection \<open>Runs\<close>

datatype link_act = Push bool bytes | Send bool | Recv bool nat | Read bool

definition link_exec :: "buf_cfg \<Rightarrow> link_act \<Rightarrow> link \<Rightarrow> link option" where
  "link_exec cfg a l = (case a of
       Push x data \<Rightarrow>
         if length (pushed l x) + 1 < 2 ^ 32 \<and> length data \<le> 65535 * CHUNK_SIZE cfg
         then Some (l\<lparr>peer := (peer l)(x := push_frame cfg data (peer l x)),
                      pushed := (pushed l)(x := pushed l x @ [data])\<rparr>)
         else None
     | Send x \<Rightarrow> (case pop_send cfg (peer l x) of
         (None, _) \<Rightarrow> None
       | (Some m, b) \<Rightarrow> Some (l\<lparr>peer := (peer l)(x := b), wire := (wire l)(x := wire l x @ [m])\<rparr>))
     | Recv x i \<Rightarrow>
         if i < length (wire l (\<not> x))
         then Some (l\<lparr>peer := (peer l)(x := snd (on_received cfg (wire l (\<not> x) ! i) (peer l x))),
                      wire := (wire l)(\<not> x := take i (wire l (\<not> x)) @ drop (Suc i) (wire l (\<not> x)))\<rparr>)
         else None
     | Read x \<Rightarrow> (case pop_recv (peer l x) of
         (None, _) \<Rightarrow> None
       | (Some d, b) \<Rightarrow> Some (l\<lparr>peer := (peer l)(x := b), taken := (taken l)(x := taken l x @ [d])\<rparr>)))"

fun link_run :: "buf_cfg \<Rightarrow> link_act list \<Rightarrow> link \<Rightarrow> link option" where
  "link_run cfg [] l = Some l"
| "link_run cfg (a # acts) l = (case link_exec cfg a l of None \<Rightarrow> None | Some l' \<Rightarrow> link_run cfg acts l')"

lemma link_exec_step: "link_exec cfg a l = Some l' \<Longrightarrow> link_step cfg l l'"
proof (cases a)
  case (Recv x i)
  assume e: "link_exec cfg a l = Some l'"
  obtain res b where "on_received cfg (wire l (\<not> x) ! i) (peer l x) = (res, b)" by fastforce
  with e Recv show ?thesis
    by (auto simp: link_exec_def split: if_splits intro!: link_recv id_take_nth_drop)
qed (auto simp: link_exec_def split: if_splits prod.splits option.splits intro: link_push link_send link_read)

lemma link_run_steps: "link_run cfg acts l = Some l' \<Longrightarrow> (link_step cfg)\<^sup>*\<^sup>* l l'"
proof (induction acts arbitrary: l)
  case (Cons a acts)
  then show ?case
    by (auto split: option.splits intro: converse_rtranclp_into_rtranclp link_exec_step)
qed simp

text \<open>
  A codec with the properties that are assumed: a tag, the header fields in little-endian
  order, and the data.
\<close>

definition enc16 :: "u16 \<Rightarrow> bytes" where
  "enc16 w = [word_of_nat (unat w mod 256), word_of_nat (unat w div 256)]"

definition dec16 :: "u8 \<Rightarrow> u8 \<Rightarrow> u16" where
  "dec16 a b = word_of_nat (unat a + 256 * unat b)"

definition enc32 :: "u32 \<Rightarrow> bytes" where
  "enc32 w = enc16 (word_of_nat (unat w mod 65536)) @ enc16 (word_of_nat (unat w div 65536))"

definition dec32 :: "u8 \<Rightarrow> u8 \<Rightarrow> u8 \<Rightarrow> u8 \<Rightarrow> u32" where
  "dec32 a b c d = word_of_nat (unat (dec16 a b) + 65536 * unat (dec16 c d))"

fun le_serialize :: "connection_chunk \<Rightarrow> bytes" where
  "le_serialize (Chunk f i n d) = 0 # enc32 f @ enc16 i @ enc16 n @ d"
| "le_serialize (ChunkAck f i n) = 1 # enc32 f @ enc16 i @ enc16 n"

fun le_deserialize :: "bytes \<Rightarrow> connection_chunk option" where
  "le_deserialize (t # a # b # c # d # e # f # g # h # rest) =
     (if t = 0 then Some (Chunk (dec32 a b c d) (dec16 e f) (dec16 g h) rest)
      else if t = 1 \<and> rest = [] then Some (ChunkAck (dec32 a b c d) (dec16 e f) (dec16 g h)) else None)"
| "le_deserialize _ = None"

definition sample_cfg :: buf_cfg where
  "sample_cfg = \<lparr>CHUNK_SIZE = 4, AIR_LIMIT = 25, bincode_serialize = le_serialize,
     bincode_deserialize = le_deserialize,
     bincode_serialized_size = (\<lambda>c. word_of_nat (length (le_serialize c)))\<rparr>"

lemma dec16_enc16: "dec16 (word_of_nat (unat w mod 256)) (word_of_nat (unat w div 256)) = w"
proof -
  have "unat w < 65536" using unsigned_less[of w] by simp
  then have "unat w div 256 < 256" by simp
  then show ?thesis by (simp add: dec16_def unat_of_nat)
qed

lemma le_roundtrip: "le_deserialize (le_serialize c) = Some c"
proof -
  have 32: "dec32 (word_of_nat (unat (word_of_nat (unat w mod 65536) :: u16) mod 256))
      (word_of_nat (unat (word_of_nat (unat w mod 65536) :: u16) div 256))
      (word_of_nat (unat (word_of_nat (unat w div 65536) :: u16) mod 256))
      (word_of_nat (unat (word_of_nat (unat w div 65536) :: u16) div 256)) = w" for w
  proof -
    have "unat w < 65536 * 65536" using unsigned_less[of w] by simp
    then have "unat w div 65536 < 65536" by (simp add: div_less_iff_less_mult)
    then show ?thesis unfolding dec32_def dec16_enc16 by (simp add: unat_of_nat)
  qed
  show ?thesis by (cases c) (simp_all add: enc32_def enc16_def dec16_enc16 32 del: unat_of_nat)
qed

lemma sample_codec_ok: "codec_ok sample_cfg"
  by (simp add: codec_ok_def sample_cfg_def le_roundtrip)

lemma sample_size: "bincode_serialized_size sample_cfg (Chunk f i n d) = word_of_nat (length d + 9)"
  by (simp add: sample_cfg_def enc32_def enc16_def)

lemma sample_size_unat: "length d \<le> 4 \<Longrightarrow> unat (bincode_serialized_size sample_cfg (Chunk f i n d)) = length d + 9"
  unfolding sample_size by (rule unat_u64_of_nat) simp

lemma sample_limits: "CHUNK_SIZE sample_cfg = 4" "AIR_LIMIT sample_cfg = 25"
  by (simp_all add: sample_cfg_def)

lemma sample_size_ok: "size_ok sample_cfg"
  by (simp add: size_ok_def sample_limits sample_size_unat)

section \<open>Properties\<close>

interpretation link: preserved "link_step cfg" "\<lambda>l. codec_ok cfg \<and> size_ok cfg \<and> link_inv cfg l" for cfg
  by unfold_locales (auto intro: link_inv_step)

lemma reach_link_inv:
  assumes "codec_ok cfg" "size_ok cfg" "(link_step cfg)\<^sup>*\<^sup>* link_init l"
  shows "dir_inv cfg (peer l x) (peer l (\<not> x)) (wire l x) (wire l (\<not> x)) (pushed l x) (taken l (\<not> x))"
  using link.reachable[OF assms(3)] link_inv_init assms(1,2) by (simp add: link_inv_def)

lemma completed_subset: "mset (map snd (filter P (numbered ds))) \<subseteq># mset ds"
proof -
  have "mset (map snd (filter P (numbered ds))) \<subseteq># mset (map snd (numbered ds))"
    by (simp add: image_mset_subseteq_mono)
  then show ?thesis by (simp only: numbered_snd)
qed

text \<open>
  C3. On a link that may reorder messages, in both directions at once, every reachable
  state satisfies: the frames the receiver has reassembled (read or still queued in
  \<open>outs\<close>) are frames the sender pushed, none altered and none more often than it was
  pushed.
\<close>

theorem link_no_duplicate_no_forgery:
  assumes "codec_ok cfg" and "size_ok cfg" and "(link_step cfg)\<^sup>*\<^sup>* link_init l"
  shows "mset (taken l (\<not> x)) + mset (outs (peer l (\<not> x))) \<subseteq># mset (pushed l x)"
  using reach_link_inv[OF assms, of x] completed_subset
  by (simp add: dir_inv_def reassembly_inv_def)

text \<open>
  C16. Flow control: in every reachable state the counter of bytes in the air is exactly the
  sum of the sizes of the chunks sent and not acknowledged, so it never wraps, and it stays
  within \<open>AIR_LIMIT\<close>.
\<close>

theorem link_flow_control:
  assumes "codec_ok cfg" and "size_ok cfg" and "(link_step cfg)\<^sup>*\<^sup>* link_init l"
  shows "unat (in_air (peer l x)) = air_bytes (peer l x) \<and> air_bytes (peer l x) \<le> unat (AIR_LIMIT cfg)"
  using reach_link_inv[OF assms, of x] by (simp add: dir_inv_def acct_def word_le_nat_alt)

text \<open>Every chunk fits in an empty air window.\<close>

definition limit_ok :: "buf_cfg \<Rightarrow> bool" where
  "limit_ok cfg \<longleftrightarrow> (\<forall>f i n d. length d \<le> CHUNK_SIZE cfg \<longrightarrow>
     bincode_serialized_size cfg (Chunk f i n d) \<le> AIR_LIMIT cfg)"

lemma pop_send_None:
  "fst (pop_send cfg b) = None \<longleftrightarrow>
   (\<forall>c q. send_queue b = c # q \<longrightarrow> \<not> in_air_size cfg c + in_air b \<le> AIR_LIMIT cfg)"
  by (cases "send_queue b") (simp_all add: pop_send_def Let_def)

lemma acks_never_wait:
  assumes "acct cfg b" "fst (pop_send cfg b) = None" "queued b = {#}"
  shows "send_queue b = []"
proof (cases "send_queue b")
  case (Cons c q)
  then have "\<not> is_chunk c" using assms(3) by (auto simp: queued_def split: if_splits)
  then have "in_air_size cfg c = 0" by (cases c) (simp_all add: in_air_size_def)
  moreover have "in_air b \<le> AIR_LIMIT cfg" using assms(1) by (simp add: acct_def)
  ultimately show ?thesis using assms(2) Cons by (simp add: pop_send_None)
qed simp

lemma empty_air_sends:
  assumes "acct cfg b" "fst (pop_send cfg b) = None" "in_air b = 0" "limit_ok cfg"
    and "set_mset (queued b) \<subseteq> all_chunks cfg frames"
  shows "send_queue b = []"
proof (cases "send_queue b")
  case (Cons c q)
  have "in_air_size cfg c \<le> AIR_LIMIT cfg"
  proof (cases "is_chunk c")
    case True
    then have "c \<in> all_chunks cfg frames" using assms(5) Cons by (auto simp: queued_def)
    then obtain f data where "c \<in> set (frame_chunks cfg f data)" by (auto simp: all_chunks_def)
    then obtain i n d where "c = Chunk f i n d" "length d \<le> CHUNK_SIZE cfg" by (rule frame_chunk_data)
    then show ?thesis using assms(4) by (simp add: in_air_size_def limit_ok_def)
  next
    case False
    then show ?thesis by (cases c) (simp_all add: in_air_size_def)
  qed
  then show ?thesis using assms(2,3) Cons by (simp add: pop_send_None)
qed simp

text \<open>
  C15. Nothing is lost: in a reachable state where both wires are empty, neither peer can
  send, and the receiver has no data of its own waiting, every frame pushed has been
  delivered, and the sender's window is empty again.
\<close>

theorem link_drains:
  assumes ok: "codec_ok cfg" "size_ok cfg" "limit_ok cfg" and reach: "(link_step cfg)\<^sup>*\<^sup>* link_init l"
    and wires: "\<forall>y. wire l y = []" and idle: "\<forall>y. fst (pop_send cfg (peer l y)) = None"
    and quiet: "queued (peer l (\<not> x)) = {#}"
  shows "mset (taken l (\<not> x)) + mset (outs (peer l (\<not> x))) = mset (pushed l x) \<and>
    in_air (peer l x) = 0 \<and> dom (pending (peer l x)) = {}"
proof -
  let ?s = "peer l x" and ?r = "peer l (\<not> x)"
  have I: "dir_inv cfg ?s ?r [] [] (pushed l x) (taken l (\<not> x))"
    and R: "dir_inv cfg ?r ?s [] [] (pushed l (\<not> x)) (taken l x)"
    using reach_link_inv[OF ok(1,2) reach, of x] reach_link_inv[OF ok(1,2) reach, of "\<not> x"] wires by simp_all
  have "send_queue ?r = []" using R idle quiet by (intro acks_never_wait[where cfg = cfg]) (simp_all add: dir_inv_def)
  then have "outstanding cfg ?s ?r [] [] = queued ?s"
    by (simp add: outstanding_def queued_acks_def wire_chunks_def wire_acks_def)
  then have ids: "image_mset chunk_id (queued ?s) = mset_set (dom (pending ?s))"
    using I by (simp add: dir_inv_def)
  then have "queued_ids ?s = dom (pending ?s)"
    unfolding queued_ids_def by (metis finite finite_set_mset_mset_set set_image_mset)
  then have "in_air ?s = 0" using I by (simp add: dir_inv_def acct_def air_bytes_def inflight_def unat_eq_0)
  moreover from this have "send_queue ?s = []"
    using I idle ok(3) by (intro empty_air_sends[where cfg = cfg and frames = "numbered (pushed l x)"])
      (auto simp: dir_inv_def unsent_def)
  then have q: "queued ?s = {#}" by (simp add: queued_def)
  then have "dom (pending ?s) = {}" using ids by (metis finite image_mset_empty mset_set_empty_iff)
  moreover have "filter (completed cfg (all_chunks cfg (numbered (pushed l x)))) (numbered (pushed l x)) = numbered (pushed l x)"
    by (rule filter_True) (force simp: completed_def all_chunks_def)
  then have "mset (taken l (\<not> x)) + mset (outs ?r) = mset (pushed l x)"
    using I q numbered_snd[of "pushed l x"]
    by (simp add: dir_inv_def unsent_def wire_chunks_def reassembly_inv_def flip: mset_map)
  ultimately show ?thesis by simp
qed

text \<open>Two peers whose heads do not fit, with what they have delivered so far.\<close>

definition blocked :: "buf_cfg \<Rightarrow> (bool \<Rightarrow> bytes multiset) \<Rightarrow> link \<Rightarrow> bool" where
  "blocked cfg got k \<longleftrightarrow> (\<forall>y. wire k y = [] \<and> high_priority (peer k y) \<noteq> [] \<and> fst (pop_send cfg (peer k y)) = None \<and>
     mset (taken k y) + mset (outs (peer k y)) = got y)"

lemma blocked_push:
  assumes "high_priority b \<noteq> []" "fst (pop_send cfg b) = None"
  shows "high_priority (push_frame cfg data b) \<noteq> []" "fst (pop_send cfg (push_frame cfg data b)) = None"
  using assms by (auto simp: pop_send_None push_frame_def Let_def send_queue_def neq_Nil_conv)

lemma blocked_step:
  assumes "link_step cfg k k'" "blocked cfg got k"
  shows "blocked cfg got k'"
  using assms(1)
proof cases
  case (link_push z data)
  show ?thesis using assms(2) blocked_push unfolding blocked_def link_push(1) by (auto simp: push_frame_sel)
next
  case (link_send z m b)
  with assms(2) show ?thesis unfolding blocked_def by (metis fst_conv option.distinct(1))
next
  case (link_recv z us m vs res b)
  with assms(2) show ?thesis by (simp add: blocked_def)
next
  case (link_read z d b)
  have "high_priority b = high_priority (peer k z)" "send_queue b = send_queue (peer k z)"
    "in_air b = in_air (peer k z)" "outs (peer k z) = d # outs b"
    using link_read(2) by (auto simp: pop_recv_def send_queue_def split: option.splits elim: pop_front.elims)
  moreover have "mset (taken k z) + mset (outs (peer k z)) = got z" using assms(2) by (simp add: blocked_def)
  ultimately show ?thesis using assms(2) unfolding blocked_def link_read(1) by (auto simp: pop_send_None)
qed

interpretation blocked: preserved "link_step cfg" "blocked cfg got" for cfg got
  by unfold_locales (rule blocked_step)

text \<open>
  C17. Acknowledgements wait behind data: when the first chunk of the high-priority queue of
  each peer does not fit in its window and the wires are empty, no message is ever sent
  again, whatever frames are pushed later, and nothing more is delivered. The witness is a
  state that four small frames, two from each side, reach from the empty buffers.
\<close>

theorem blocked_heads_deadlock:
  assumes "\<forall>y. wire l y = [] \<and> high_priority (peer l y) \<noteq> [] \<and> fst (pop_send cfg (peer l y)) = None"
    and "(link_step cfg)\<^sup>*\<^sup>* l l'"
  shows "wire l' x = [] \<and> fst (pop_send cfg (peer l' x)) = None \<and>
    mset (taken l' x) + mset (outs (peer l' x)) = mset (taken l x) + mset (outs (peer l x))"
  using blocked.reachable[OF assms(2), of "\<lambda>y. mset (taken l y) + mset (outs (peer l y))"] assms(1) by (simp add: blocked_def)

subsection \<open>Witnesses\<close>

text \<open>
  A run with a frame of two chunks that arrive in the reverse order and are read and
  acknowledged; and the run into the deadlock.
\<close>

definition sample_run :: "link_act list" where
  "sample_run = [Push True [1, 2, 3, 4, 5], Send True, Send True, Recv False 1, Recv False 0, Read False,
     Send False, Send False, Recv True 0, Recv True 0]"

definition sample_link :: link where
  "sample_link = (case link_run sample_cfg sample_run link_init of None \<Rightarrow> link_init | Some l \<Rightarrow> l)"

lemma sample_link_reached: "(link_step sample_cfg)\<^sup>*\<^sup>* link_init sample_link"
  by (auto simp: sample_link_def intro: link_run_steps split: option.split)

lemma sample_chunks:
  "frame_chunks sample_cfg f [1, 2, 3, 4, 5] = [Chunk f 0 2 [1, 2, 3, 4], Chunk f 1 2 [5]]"
  "frame_chunks sample_cfg f [1, 2, 3, 4] = [Chunk f 0 1 [1, 2, 3, 4]]"
  by (simp_all add: frame_chunks_def sample_cfg_def chunks_of.simps Let_def)

lemmas run_simps = link_exec_def link_init_def cb_default_def push_frame_def Let_def sample_chunks sample_limits
  in_air_size_def register_chunk_def sample_size pop_send_def send_queue_def pop_queue_def on_received_Some
  sample_codec_ok[unfolded codec_ok_def] deliver_def receive_chunk_def receive_ack_def push_back_def
  bt_iter_def pop_recv_def

lemma sample_link_eval:
  "peer sample_link x = cb_default\<lparr>frame_id_seed := (if x then 1 else 0)\<rparr>" "wire sample_link x = []"
  "pushed sample_link x = (if x then [[1, 2, 3, 4, 5]] else [])"
  "taken sample_link x = (if x then [] else [[1, 2, 3, 4, 5]])"
  by (cases x; simp add: sample_link_def sample_run_def run_simps split del: if_split)+

lemma sample_limit_ok: "limit_ok sample_cfg"
  by (simp add: limit_ok_def sample_limits word_le_nat_alt sample_size_unat)

theorem link_no_duplicate_no_forgery_witness:
  "(link_step sample_cfg)\<^sup>*\<^sup>* link_init sample_link \<and>
   {#[1, 2, 3, 4, 5]#} \<subseteq># mset (pushed sample_link True)"
  using link_no_duplicate_no_forgery[OF sample_codec_ok sample_size_ok sample_link_reached, of True]
    sample_link_reached by (simp add: sample_link_eval cb_default_def)

theorem link_flow_control_witness:
  "(link_step sample_cfg)\<^sup>*\<^sup>* link_init sample_link \<and> air_bytes (peer sample_link True) \<le> 25"
  using link_flow_control[OF sample_codec_ok sample_size_ok sample_link_reached, of True]
    sample_link_reached by (simp add: sample_limits)

theorem link_drains_witness:
  "pushed sample_link True = [[1, 2, 3, 4, 5]] \<and> dom (pending (peer sample_link True)) = {} \<and>
   mset (taken sample_link False) + mset (outs (peer sample_link False)) = mset (pushed sample_link True)"
  using link_drains[OF sample_codec_ok sample_size_ok sample_limit_ok sample_link_reached, of True]
  by (simp add: sample_link_eval cb_default_def pop_send_def send_queue_def queued_def)

definition deadlock_run :: "link_act list" where
  "deadlock_run = [Push True [1, 2, 3, 4], Push True [1, 2, 3, 4], Push False [1, 2, 3, 4],
     Push False [1, 2, 3, 4], Send True, Send False, Recv True 0, Recv False 0]"

definition deadlock_link :: link where
  "deadlock_link = (case link_run sample_cfg deadlock_run link_init of None \<Rightarrow> link_init | Some l \<Rightarrow> l)"

lemma deadlock_reached: "(link_step sample_cfg)\<^sup>*\<^sup>* link_init deadlock_link"
  by (auto simp: deadlock_link_def intro: link_run_steps split: option.split)

lemma deadlock_eval:
  "wire deadlock_link x = []" "fst (pop_send sample_cfg (peer deadlock_link x)) = None"
  "high_priority (peer deadlock_link x) = [Chunk 1 0 1 [1, 2, 3, 4], ChunkAck 0 0 1]"
  "pushed deadlock_link x = [[1, 2, 3, 4], [1, 2, 3, 4]]"
  "taken deadlock_link x = []" "outs (peer deadlock_link x) = [[1, 2, 3, 4]]"
  by (cases x; simp add: deadlock_link_def deadlock_run_def run_simps split del: if_split)+

theorem blocked_heads_deadlock_witness:
  "(link_step sample_cfg)\<^sup>*\<^sup>* link_init deadlock_link \<and>
   pushed deadlock_link True = [[1, 2, 3, 4], [1, 2, 3, 4]] \<and>
   fst (pop_send sample_cfg (peer deadlock_link True)) = None \<and>
   mset (taken deadlock_link False) + mset (outs (peer deadlock_link False)) = {#[1, 2, 3, 4]#}"
  using blocked_heads_deadlock[of deadlock_link sample_cfg deadlock_link False]
    deadlock_reached by (simp add: deadlock_eval)

end
