(* ===== verification/Shared_Port.thy ===== *)
theory Shared_Port
  imports Prelude
begin

text \<open>
  Demultiplexing of the one UDP socket of a node: \<open>SharedUdpPort\<close> of
  \<^verbatim>\<open>crates/p2p-network/src/shared_port.rs\<close>. A packet belongs to the connection its
  source address is mapped to; an unknown source is mapped by the user name of the STUN
  packet it sent.

  The STUN parser is the \<open>str0m\<close> crate's. It is an argument: \<open>parse\<close> stands for
  \<open>StunMessage::parse\<close> and \<open>split_username\<close> for the method of that name. Nothing is
  assumed of them.
\<close>

section \<open>State and operations\<close>

record ('addr, 'task) shared_udp_port =
  task_remotes :: "('addr, 'task) hmap"
  task_remotes_map :: "('task, 'addr list) hmap"
  task_ufrags :: "(string, 'task) hmap"
  task_ufrags_reverse :: "('task, string) hmap"

definition sp_default :: "('addr, 'task) shared_udp_port" where
  "sp_default = \<lparr>task_remotes = [], task_remotes_map = [], task_ufrags = [], task_ufrags_reverse = []\<rparr>"

definition add_ufrag ::
  "string \<Rightarrow> 'task \<Rightarrow> ('addr, 'task) shared_udp_port \<Rightarrow> ('addr, 'task) shared_udp_port" where
  "add_ufrag ufrag task p = p\<lparr>task_ufrags := hm_insert ufrag task (task_ufrags p),
     task_ufrags_reverse := hm_insert task ufrag (task_ufrags_reverse p)\<rparr>"

text \<open>Each \<open>?\<close> leaves what was done before it.\<close>

definition remove_task ::
  "'task \<Rightarrow> ('addr, 'task) shared_udp_port \<Rightarrow> unit option \<times> ('addr, 'task) shared_udp_port" where
  "remove_task task p = (case hm_get (task_ufrags_reverse p) task of
       None \<Rightarrow> (None, p)
     | Some ufrag \<Rightarrow>
         let p1 = p\<lparr>task_ufrags_reverse := hm_remove task (task_ufrags_reverse p)\<rparr> in
         (case hm_get (task_ufrags p1) ufrag of
            None \<Rightarrow> (None, p1)
          | Some _ \<Rightarrow>
              let p2 = p1\<lparr>task_ufrags := hm_remove ufrag (task_ufrags p1)\<rparr> in
              (case hm_get (task_remotes_map p2) task of
                 None \<Rightarrow> (None, p2)
               | Some remotes \<Rightarrow>
                   (Some (), p2\<lparr>task_remotes_map := hm_remove task (task_remotes_map p2),
                                task_remotes := fold hm_remove remotes (task_remotes p2)\<rparr>))))"

definition map_remote ::
  "(bytes \<Rightarrow> 'm option) \<Rightarrow> ('m \<Rightarrow> (string \<times> string) option) \<Rightarrow> 'addr \<Rightarrow> bytes \<Rightarrow>
    ('addr, 'task) shared_udp_port \<Rightarrow> 'task option \<times> ('addr, 'task) shared_udp_port" where
  "map_remote parse split_username remote buf p = (case hm_get (task_remotes p) remote of
       Some task \<Rightarrow> (Some task, p)
     | None \<Rightarrow> (case parse buf of
         None \<Rightarrow> (None, p)
       | Some msg \<Rightarrow> (case split_username msg of
           None \<Rightarrow> (None, p)
         | Some (stun_username, _) \<Rightarrow> (case hm_get (task_ufrags p) stun_username of
             None \<Rightarrow> (None, p)
           | Some task \<Rightarrow>
               let remotes = (case hm_get (task_remotes_map p) task of None \<Rightarrow> [] | Some rs \<Rightarrow> rs)
               in (Some task,
                   p\<lparr>task_remotes := hm_insert remote task (task_remotes p),
                     task_remotes_map := hm_insert task (remotes @ [remote]) (task_remotes_map p)\<rparr>)))))"

section \<open>The four maps agree\<close>

definition remotes_of :: "('addr, 'task) shared_udp_port \<Rightarrow> 'task \<Rightarrow> 'addr list" where
  "remotes_of p t = (case hm_get (task_remotes_map p) t of None \<Rightarrow> [] | Some rs \<Rightarrow> rs)"

definition sp_inv :: "('addr, 'task) shared_udp_port \<Rightarrow> bool" where
  "sp_inv p \<longleftrightarrow>
     (\<forall>u t. hm_get (task_ufrags p) u = Some t \<longleftrightarrow> hm_get (task_ufrags_reverse p) t = Some u) \<and>
     (\<forall>r t. hm_get (task_remotes p) r = Some t \<longleftrightarrow> r \<in> set (remotes_of p t)) \<and>
     (\<forall>t. hm_get (task_remotes_map p) t \<noteq> None \<longrightarrow> hm_get (task_ufrags_reverse p) t \<noteq> None)"

lemma sp_inv_default: "sp_inv sp_default"
  by (simp add: sp_inv_def sp_default_def remotes_of_def)

lemma sp_inv_add_ufrag:
  assumes "sp_inv p" "hm_get (task_ufrags p) u = None" "hm_get (task_ufrags_reverse p) t = None"
  shows "sp_inv (add_ufrag u t p)"
proof -
  have "hm_get (task_ufrags_reverse p) t' \<noteq> Some u" "hm_get (task_ufrags p) u' \<noteq> Some t" for t' u'
    using assms by (metis option.distinct(1) sp_inv_def)+
  then show ?thesis using assms(1) by (auto simp: sp_inv_def add_ufrag_def remotes_of_def hm_get_insert)
qed

lemma hm_get_fold_remove: "hm_get (fold hm_remove ks m) k = (if k \<in> set ks then None else hm_get m k)"
  by (induction ks arbitrary: m) (auto simp: hm_get_remove)

text \<open>With the maps in agreement, removing a task removes all of it and nothing else.\<close>

lemma remove_task_views:
  fixes p :: "('addr, 'task) shared_udp_port" and t :: 'task
  assumes "sp_inv p"
  defines "p' \<equiv> snd (remove_task t p)"
  shows "hm_get (task_ufrags p') u = (if hm_get (task_ufrags p) u = Some t then None else hm_get (task_ufrags p) u)"
    and "hm_get (task_remotes p') r = (if hm_get (task_remotes p) r = Some t then None else hm_get (task_remotes p) r)"
    and "remotes_of p' s = (if s = t then [] else remotes_of p s)"
    and "hm_get (task_ufrags_reverse p') s = (if s = t then None else hm_get (task_ufrags_reverse p) s)"
    and "hm_get (task_remotes_map p') s = (if s = t then None else hm_get (task_remotes_map p) s)"
proof -
  have u: "hm_get (task_ufrags p) v = Some s \<longleftrightarrow> hm_get (task_ufrags_reverse p) s = Some v" for v s
    using assms(1) by (simp add: sp_inv_def)
  have r: "hm_get (task_remotes p) a = Some s \<longleftrightarrow> a \<in> set (remotes_of p s)" for a s
    using assms(1) by (simp add: sp_inv_def)
  have m: "hm_get (task_ufrags_reverse p) s = None \<Longrightarrow> hm_get (task_remotes_map p) s = None" for s
    using assms(1) by (auto simp: sp_inv_def)
  have "hm_get (task_ufrags p') u = (if hm_get (task_ufrags p) u = Some t then None else hm_get (task_ufrags p) u) \<and>
    hm_get (task_remotes p') r = (if hm_get (task_remotes p) r = Some t then None else hm_get (task_remotes p) r) \<and>
    hm_get (task_ufrags_reverse p') s = (if s = t then None else hm_get (task_ufrags_reverse p) s) \<and>
    hm_get (task_remotes_map p') s = (if s = t then None else hm_get (task_remotes_map p) s)"
  proof (cases "hm_get (task_ufrags_reverse p) t")
    case None
    then have p': "p' = p" by (simp add: p'_def remove_task_def)
    have "remotes_of p t = []" using m[OF None] by (simp add: remotes_of_def)
    then show ?thesis using None m[OF None] u[of _ t] r[of _ t] by (auto simp: p')
  next
    case (Some v)
    then have tv: "hm_get (task_ufrags p) v = Some t" by (simp add: u)
    have uv: "hm_get (task_ufrags p) u = Some t \<longleftrightarrow> u = v" using Some by (auto simp: u)
    show ?thesis
    proof (cases "hm_get (task_remotes_map p) t")
      case None
      then have "p' = p\<lparr>task_ufrags_reverse := hm_remove t (task_ufrags_reverse p), task_ufrags := hm_remove v (task_ufrags p)\<rparr>"
        using Some tv by (simp add: p'_def remove_task_def Let_def)
      moreover have "remotes_of p t = []" using None by (simp add: remotes_of_def)
      ultimately show ?thesis using None r[of _ t] uv by (auto simp: hm_get_remove)
    next
      case (Some rs)
      then have p': "task_ufrags_reverse p' = hm_remove t (task_ufrags_reverse p)"
        "task_ufrags p' = hm_remove v (task_ufrags p)" "task_remotes_map p' = hm_remove t (task_remotes_map p)"
        "task_remotes p' = fold hm_remove rs (task_remotes p)"
        using \<open>hm_get (task_ufrags_reverse p) t = Some v\<close> tv
        by (simp_all add: p'_def remove_task_def Let_def)
      have "hm_get (task_remotes p) r = Some t \<longleftrightarrow> r \<in> set rs" using r[of _ t] Some by (simp add: remotes_of_def)
      then show ?thesis using uv by (simp add: p' hm_get_fold_remove hm_get_remove)
    qed
  qed
  then show "hm_get (task_ufrags p') u = (if hm_get (task_ufrags p) u = Some t then None else hm_get (task_ufrags p) u)"
    "hm_get (task_remotes p') r = (if hm_get (task_remotes p) r = Some t then None else hm_get (task_remotes p) r)"
    "hm_get (task_ufrags_reverse p') s = (if s = t then None else hm_get (task_ufrags_reverse p) s)"
    "hm_get (task_remotes_map p') s = (if s = t then None else hm_get (task_remotes_map p) s)"
    by blast+
  then show "remotes_of p' s = (if s = t then [] else remotes_of p s)" by (simp add: remotes_of_def)
qed

lemma sp_inv_remove_task: "sp_inv p \<Longrightarrow> sp_inv (snd (remove_task t p))"
  by (simp add: sp_inv_def[of "snd (remove_task t p)"] remove_task_views)
    (auto simp: sp_inv_def, (metis option.inject)+)

lemma sp_inv_map_remote:
  assumes "sp_inv p"
  shows "sp_inv (snd (map_remote parse split_username r buf p))"
proof (cases "\<exists>t p'. map_remote parse split_username r buf p = (Some t, p') \<and> p' \<noteq> p")
  case False
  then show ?thesis using assms
    by (auto simp: map_remote_def Let_def split: option.splits prod.splits if_splits)
next
  case True
  then obtain t u where t: "hm_get (task_remotes p) r = None" "hm_get (task_ufrags p) u = Some t"
    "snd (map_remote parse split_username r buf p) =
      p\<lparr>task_remotes := hm_insert r t (task_remotes p),
        task_remotes_map := hm_insert t (remotes_of p t @ [r]) (task_remotes_map p)\<rparr>"
    by (auto simp: map_remote_def Let_def remotes_of_def split: option.splits prod.splits)
  have "r \<notin> set (remotes_of p s)" for s using assms t(1) by (metis option.distinct(1) sp_inv_def)
  moreover have "hm_get (task_ufrags_reverse p) t = Some u" using assms t(2) by (simp add: sp_inv_def)
  ultimately show ?thesis using assms unfolding t(3) sp_inv_def
    by (auto simp: hm_get_insert remotes_of_def)
qed

datatype ('addr, 'task) sp_op = AddUfrag string 'task | RemoveTask 'task | Packet 'addr bytes

fun sp_step ::
  "(bytes \<Rightarrow> 'm option) \<Rightarrow> ('m \<Rightarrow> (string \<times> string) option) \<Rightarrow> ('addr, 'task) sp_op \<Rightarrow>
    ('addr, 'task) shared_udp_port \<Rightarrow> ('addr, 'task) shared_udp_port" where
  "sp_step parse split (AddUfrag u t) p = add_ufrag u t p"
| "sp_step parse split (RemoveTask t) p = snd (remove_task t p)"
| "sp_step parse split (Packet r buf) p = snd (map_remote parse split r buf p)"

text \<open>The identifiers of connections and of ICE user fragments are drawn at random; fresh means unused.\<close>

fun sp_fresh :: "('addr, 'task) sp_op \<Rightarrow> ('addr, 'task) shared_udp_port \<Rightarrow> bool" where
  "sp_fresh (AddUfrag u t) p \<longleftrightarrow> hm_get (task_ufrags p) u = None \<and> hm_get (task_ufrags_reverse p) t = None"
| "sp_fresh _ p \<longleftrightarrow> True"

fun sp_run ::
  "(bytes \<Rightarrow> 'm option) \<Rightarrow> ('m \<Rightarrow> (string \<times> string) option) \<Rightarrow> ('addr, 'task) sp_op list \<Rightarrow>
    ('addr, 'task) shared_udp_port \<Rightarrow> ('addr, 'task) shared_udp_port option" where
  "sp_run parse split [] p = Some p"
| "sp_run parse split (x # xs) p = (if sp_fresh x p then sp_run parse split xs (sp_step parse split x p) else None)"

lemma sp_run_inv: "sp_run parse split ops p = Some p' \<Longrightarrow> sp_inv p \<Longrightarrow> sp_inv p'"
proof (induction ops arbitrary: p)
  case (Cons x xs)
  then show ?case
    by (cases x) (auto split: if_splits intro: sp_inv_add_ufrag sp_inv_remove_task sp_inv_map_remote)
qed simp

section \<open>Properties\<close>

text \<open>
  C27. After any run in which connections and user fragments are fresh, removing a
  connection makes it unreachable for every packet from every address, and every packet
  that went to another connection still goes there.
\<close>

theorem removed_task_unreachable:
  assumes "sp_run parse split ops sp_default = Some p"
  shows "fst (map_remote parse split r buf (snd (remove_task t p))) \<noteq> Some t \<and>
    (fst (map_remote parse split r buf p) = Some s \<and> s \<noteq> t \<longrightarrow>
       fst (map_remote parse split r buf (snd (remove_task t p))) = Some s)"
proof -
  have "sp_inv p" using sp_run_inv[OF assms sp_inv_default] .
  note v = remove_task_views[OF this]
  show ?thesis
    by (auto simp: map_remote_def Let_def v split: option.splits prod.splits)
qed

text \<open>
  A source address stays with its connection: once a packet from it has been mapped,
  every later packet from it, whatever it contains, is mapped to the same connection until
  that connection is removed.
\<close>

theorem mapped_remote_is_sticky:
  assumes "fst (map_remote parse split r buf p) = Some t"
    and "sp_inv p" and "\<forall>x \<in> set ops. x \<noteq> RemoveTask t"
    and "sp_run parse split ops (snd (map_remote parse split r buf p)) = Some p'"
  shows "map_remote parse split r buf' p' = (Some t, p')"
proof -
  have keep: "hm_get (task_remotes (sp_step parse split x q)) r = Some t"
    if "hm_get (task_remotes q) r = Some t" "sp_inv q" "x \<noteq> RemoveTask t" for x q
    using that by (cases x)
      (auto simp: add_ufrag_def remove_task_views map_remote_def Let_def hm_get_insert split: option.splits prod.splits)
  have run: "hm_get (task_remotes q') r = Some t"
    if "sp_run parse split xs q = Some q'" "hm_get (task_remotes q) r = Some t" "sp_inv q"
      "\<forall>x \<in> set xs. x \<noteq> RemoveTask t" for xs q q'
    using that
  proof (induction xs arbitrary: q)
    case (Cons x xs)
    then have "sp_inv (sp_step parse split x q)"
      using sp_run_inv[of parse split "[x]" q "sp_step parse split x q"] by (auto split: if_splits)
    with Cons keep[of q x] show ?case by (auto split: if_splits)
  qed simp
  have "hm_get (task_remotes (snd (map_remote parse split r buf p))) r = Some t"
    using assms(1) by (auto simp: map_remote_def Let_def hm_get_insert split: option.splits prod.splits)
  from run[OF assms(4) this sp_inv_map_remote[OF assms(2)] assms(3)]
  show ?thesis by (simp add: map_remote_def)
qed

subsection \<open>Witnesses\<close>

definition demo_split :: "bytes \<Rightarrow> (string \<times> string) option" where
  "demo_split b = (if b = [1] then Some (''ua'', ''x'') else if b = [2] then Some (''ub'', ''x'') else None)"

definition demo_ops :: "(nat, nat) sp_op list" where
  "demo_ops = [AddUfrag ''ua'' 1, AddUfrag ''ub'' 2, Packet 7 [1], Packet 8 [2]]"

definition demo_port :: "(nat, nat) shared_udp_port" where
  "demo_port = \<lparr>task_remotes = [(7, 1), (8, 2)], task_remotes_map = [(1, [7]), (2, [8])],
     task_ufrags = [(''ua'', 1), (''ub'', 2)], task_ufrags_reverse = [(1, ''ua''), (2, ''ub'')]\<rparr>"

lemma demo_port_run: "sp_run Some demo_split demo_ops sp_default = Some demo_port"
  by (simp add: demo_ops_def demo_port_def sp_default_def add_ufrag_def map_remote_def demo_split_def Let_def)

theorem removed_task_unreachable_witness:
  "fst (map_remote Some demo_split 7 [1] (snd (remove_task 1 demo_port))) \<noteq> Some 1 \<and>
   fst (map_remote Some demo_split 8 [3] (snd (remove_task 1 demo_port))) = Some 2"
  using removed_task_unreachable[OF demo_port_run, of 7 "[1]" 1 2]
    removed_task_unreachable[OF demo_port_run, of 8 "[3]" 1 2]
  by (simp add: map_remote_def demo_port_def)

theorem mapped_remote_is_sticky_witness:
  "\<exists>p'. sp_run Some demo_split [AddUfrag ''uc'' 3, RemoveTask 2] demo_port = Some p' \<and>
     map_remote Some demo_split 7 [9] p' = (Some 1, p')"
proof -
  have 1: "fst (map_remote Some demo_split 7 [1] demo_port) = Some 1"
    "snd (map_remote Some demo_split 7 [1] demo_port) = demo_port"
    by (simp_all add: map_remote_def demo_port_def)
  obtain p' where r: "sp_run Some demo_split [AddUfrag ''uc'' 3, RemoveTask 2] demo_port = Some p'"
    by (simp add: demo_port_def)
  with mapped_remote_is_sticky[OF 1(1) sp_run_inv[OF demo_port_run sp_inv_default], of "[AddUfrag ''uc'' 3, RemoveTask 2]" p']
  show ?thesis by (simp add: 1(2) del: sp_run.simps)
qed

end
