(* ===== verification/Rpc.thy ===== *)
theory Rpc
  imports Protocol
begin

text \<open>
  Request/response over the peer network: \<^verbatim>\<open>crates/worker/src/rpc.rs\<close>. A request is put in
  the queue of the worker's main loop with the sender of a one-shot channel; \<open>recv\<close>
  gives it a sequence number and remembers the sender; \<open>on_res\<close> hands a response to the
  sender with its number.

  One-shot channels are numbers. The encoding of the messages (the \<open>prost\<close> crate) is an
  argument of \<open>request_queue\<close> and \<open>request_outcome\<close>, the two halves of \<open>request\<close>
  before and after it awaits the channel. Whether the receiving half of a channel still
  exists is the argument \<open>alive\<close> of \<open>on_res\<close>.
\<close>

section \<open>State and operations\<close>

type_synonym oneshot = nat

type_synonym rpc_call = "node_id \<times> string \<times> bytes \<times> oneshot"

record rpc_client_rx =
  seq_seed :: u32
  waits :: "(u32, oneshot) hmap"
  rpc_rx :: "rpc_call list"

definition create_rpc :: rpc_client_rx where
  "create_rpc = \<lparr>seq_seed = 0, waits = [], rpc_rx = []\<rparr>"

definition request_queue ::
  "('req \<Rightarrow> bytes) \<Rightarrow> node_id \<Rightarrow> string \<Rightarrow> 'req \<Rightarrow> oneshot \<Rightarrow> rpc_client_rx \<Rightarrow> rpc_client_rx" where
  "request_queue encode dest cmd req tx r = r\<lparr>rpc_rx := push_back (rpc_rx r) (dest, cmd, encode req, tx)\<rparr>"

definition request_outcome :: "(bytes \<Rightarrow> 'res option) \<Rightarrow> string + rpc_res \<Rightarrow> string + 'res" where
  "request_outcome decode answer = (case answer of
       Inr res \<Rightarrow>
         if rres_success res
         then (case decode (rres_payload res) of Some r \<Rightarrow> Inr r | None \<Rightarrow> Inl ''DECODE_ERROR'')
         else Inl ''RPC_ERROR''
     | Inl e \<Rightarrow> Inl e)"

definition rpc_on_res ::
  "(oneshot \<Rightarrow> bool) \<Rightarrow> rpc_res \<Rightarrow> rpc_client_rx \<Rightarrow> (rpc_client_rx \<times> (oneshot \<times> rpc_res) option) res" where
  "rpc_on_res alive res r = (case hm_get (waits r) (rres_seq res) of
       None \<Rightarrow> Inr (r, None)
     | Some tx \<Rightarrow>
         let r' = r\<lparr>waits := hm_remove (rres_seq res) (waits r)\<rparr>
         in if alive tx then Inr (r', Some (tx, res)) else Inl (ExpectFailed ''Should send res to waits''))"

text \<open>\<open>None\<close> stands for an empty queue: the call waits.\<close>

definition rpc_recv :: "rpc_client_rx \<Rightarrow> (rpc_client_rx \<times> (node_id \<times> rpc_req)) option" where
  "rpc_recv r = (case pop_front (rpc_rx r) of
       None \<Rightarrow> None
     | Some ((dest, cmd, payload, tx), rest) \<Rightarrow>
         let seq = seq_seed r + 1
         in Some (r\<lparr>seq_seed := seq_seed r + 1, waits := hm_insert seq tx (waits r), rpc_rx := rest\<rparr>,
                  (dest, \<lparr>rreq_seq = seq, rreq_cmd = cmd, rreq_payload = payload\<rparr>)))"

section \<open>Runs\<close>

text \<open>
  A run interleaves requests, sends of the main loop and responses from the network, in any
  order and with responses to numbers that were never used or are used up. The history
  records the number each channel was given and what was delivered.
\<close>

datatype rpc_ev = Ask node_id string bytes oneshot | Take | Answer rpc_res

record rpc_hist =
  issued :: "(u32 \<times> oneshot) list"
  delivered :: "(oneshot \<times> rpc_res) list"

fun rpc_step :: "(oneshot \<Rightarrow> bool) \<Rightarrow> rpc_ev \<Rightarrow> rpc_client_rx \<times> rpc_hist \<Rightarrow> (rpc_client_rx \<times> rpc_hist) res" where
  "rpc_step alive (Ask dest cmd payload tx) (r, h) = Inr (request_queue (\<lambda>b. b) dest cmd payload tx r, h)"
| "rpc_step alive Take (r, h) = (case rpc_recv r of
      None \<Rightarrow> Inr (r, h)
    | Some (r', (dest, req)) \<Rightarrow>
        Inr (r', h\<lparr>issued := issued h @ [(rreq_seq req, the (hm_get (waits r') (rreq_seq req)))]\<rparr>))"
| "rpc_step alive (Answer res) (r, h) = res_bind (rpc_on_res alive res r) (\<lambda>(r', out).
      Inr (r', h\<lparr>delivered := delivered h @ (case out of None \<Rightarrow> [] | Some d \<Rightarrow> [d])\<rparr>))"

definition rpc_run :: "(oneshot \<Rightarrow> bool) \<Rightarrow> rpc_ev list \<Rightarrow> (rpc_client_rx \<times> rpc_hist) res" where
  "rpc_run alive evs = res_foldM (rpc_step alive) evs (create_rpc, \<lparr>issued = [], delivered = []\<rparr>)"

text \<open>
  The numbers are issued in order from one; the channels still waiting are the issued ones
  that have not been answered.
\<close>

definition answered :: "rpc_hist \<Rightarrow> u32 set" where
  "answered h = rres_seq ` snd ` set (delivered h)"

lemma answered_simps:
  "answered (h\<lparr>issued := xs\<rparr>) = answered h"
  "answered (h\<lparr>delivered := delivered h @ [(tx, res)]\<rparr>) = insert (rres_seq res) (answered h)"
  by (simp_all add: answered_def)

definition rpc_inv :: "rpc_client_rx \<times> rpc_hist \<Rightarrow> bool" where
  "rpc_inv = (\<lambda>(r, h).
     map fst (issued h) = map (\<lambda>i. word_of_nat (Suc i)) [0..<length (issued h)] \<and>
     seq_seed r = word_of_nat (length (issued h)) \<and>
     (\<forall>q. hm_get (waits r) q =
        (if q \<in> answered h then None else map_of (issued h) q)) \<and>
     (\<forall>(tx, res) \<in> set (delivered h). map_of (issued h) (rres_seq res) = Some tx) \<and>
     distinct (map (rres_seq \<circ> snd) (delivered h)))"

lemma rpc_inv_init: "rpc_inv (create_rpc, \<lparr>issued = [], delivered = []\<rparr>)"
  by (simp add: rpc_inv_def create_rpc_def)

lemma issued_fresh:
  assumes "map fst xs = map (\<lambda>i. word_of_nat (Suc i)) [0..<length xs]" "length xs + 1 < 2 ^ 32"
  shows "map_of xs (word_of_nat (length xs) + 1 :: u32) = None"
proof -
  have ne: "word_of_nat (Suc i) \<noteq> (word_of_nat (Suc (length xs)) :: u32)" if "i < length xs" for i
  proof
    assume "word_of_nat (Suc i) = (word_of_nat (Suc (length xs)) :: u32)"
    then have "unat (word_of_nat (Suc i) :: u32) = unat (word_of_nat (Suc (length xs)) :: u32)" by (rule arg_cong)
    then show False using that assms(2) by (simp add: unat_u32_of_nat del: of_nat_Suc)
  qed
  have "(word_of_nat (length xs) + 1 :: u32) = word_of_nat (Suc (length xs))" by (simp add: add.commute)
  with ne have "(word_of_nat (length xs) + 1 :: u32) \<notin> set (map fst xs)"
    unfolding assms(1) by (metis (no_types, lifting) atLeastLessThan_iff atLeastLessThan_upt imageE list.set_map)
  then show ?thesis by (simp only: hm_get_None not_False_eq_True)
qed

lemma rpc_inv_step:
  assumes inv: "rpc_inv (r, h)" and step: "rpc_step alive e (r, h) = Inr (r', h')"
    and len: "length (issued h) + 1 < 2 ^ 32"
  shows "rpc_inv (r', h')"
proof (cases e)
  case (Ask dest cmd payload tx)
  then have "r' = r\<lparr>rpc_rx := push_back (rpc_rx r) (dest, cmd, payload, tx)\<rparr>" "h' = h"
    using step by (simp_all add: request_queue_def)
  then show ?thesis using inv by (simp add: rpc_inv_def)
next
  case (Answer res)
  show ?thesis
  proof (cases "hm_get (waits r) (rres_seq res)")
    case None
    then have "r' = r" "h' = h" using step Answer by (simp_all add: rpc_on_res_def)
    then show ?thesis using inv by simp
  next
    case (Some tx)
    have w: "(if rres_seq res \<in> answered h then None else map_of (issued h) (rres_seq res)) = Some tx"
      using inv Some by (simp add: rpc_inv_def)
    then have new: "rres_seq res \<notin> answered h" "map_of (issued h) (rres_seq res) = Some tx"
      by (auto split: if_splits)
    have r': "r' = r\<lparr>waits := hm_remove (rres_seq res) (waits r)\<rparr>" "h' = h\<lparr>delivered := delivered h @ [(tx, res)]\<rparr>"
      using step Answer Some by (simp_all add: rpc_on_res_def Let_def split: if_splits)
    have "rres_seq res \<notin> set (map (rres_seq \<circ> snd) (delivered h))" using new(1) by (auto simp: answered_def)
    then show ?thesis using inv new unfolding r' rpc_inv_def
      by (simp add: hm_get_remove answered_simps)
  qed
next
  case Take
  show ?thesis
  proof (cases "rpc_rx r")
    case Nil
    then show ?thesis using assms Take by (simp add: rpc_recv_def)
  next
    case (Cons c rest)
    obtain dest cmd payload tx where c: "c = (dest, cmd, payload, tx)" by (cases c) auto
    let ?n = "length (issued h)"
    define q where "q = (word_of_nat ?n + 1 :: u32)"
    have seed: "seq_seed r = word_of_nat ?n" using inv by (simp add: rpc_inv_def)
    have fresh: "map_of (issued h) q = None"
      unfolding q_def by (rule issued_fresh) (use inv len in \<open>simp_all add: rpc_inv_def\<close>)
    then have ne: "\<forall>(tx, res) \<in> set (delivered h). rres_seq res \<noteq> q" using inv by (auto simp: rpc_inv_def)
    then have nd: "q \<notin> answered h" by (auto simp: answered_def)
    have r': "r' = r\<lparr>seq_seed := q, waits := hm_insert q tx (waits r), rpc_rx := rest\<rparr>"
      "h' = h\<lparr>issued := issued h @ [(q, tx)]\<rparr>"
      using step Take by (simp_all add: rpc_recv_def Cons c Let_def seed hm_get_insert q_def)
    have app: "map_of (issued h @ [(q, tx)]) k = (if k = q then Some tx else map_of (issued h) k)" for k
      using fresh by (auto simp: map_add_def split: option.splits)
    have f: "issued h' = issued h @ [(q, tx)]" "delivered h' = delivered h" "answered h' = answered h"
      "seq_seed r' = q" "waits r' = hm_insert q tx (waits r)" by (simp_all add: r' answered_simps)
    show ?thesis unfolding rpc_inv_def prod.case f
    proof (intro conjI allI)
      show "map fst (issued h @ [(q, tx)]) = map (\<lambda>i. word_of_nat (Suc i)) [0..<length (issued h @ [(q, tx)])]"
        using inv by (simp add: rpc_inv_def q_def add.commute)
      show "q = word_of_nat (length (issued h @ [(q, tx)]))" by (simp add: q_def add.commute)
      fix k
      show "hm_get (hm_insert q tx (waits r)) k = (if k \<in> answered h then None else map_of (issued h @ [(q, tx)]) k)"
        using inv nd by (simp add: hm_get_insert app rpc_inv_def del: map_of_append)
      show "\<forall>(tx', res) \<in> set (delivered h). map_of (issued h @ [(q, tx)]) (rres_seq res) = Some tx'"
        using inv ne unfolding app by (auto simp: rpc_inv_def)
      show "distinct (map (rres_seq \<circ> snd) (delivered h))" using inv by (simp add: rpc_inv_def)
    qed
  qed
qed

lemma rpc_issued_mono:
  "rpc_step alive e (r, h) = Inr (r', h') \<Longrightarrow> length (issued h) \<le> length (issued h')"
  by (cases e) (auto simp: res_bind_Inr_iff split: option.splits prod.splits)

lemma rpc_run_inv:
  assumes "res_foldM (rpc_step alive) evs (r, h) = Inr (r', h')" "rpc_inv (r, h)" "length (issued h') + 1 < 2 ^ 32"
  shows "rpc_inv (r', h') \<and> length (issued h) \<le> length (issued h')"
  using assms
proof (induction evs arbitrary: r h)
  case (Cons e evs)
  then obtain r1 h1 where s: "rpc_step alive e (r, h) = Inr (r1, h1)" "res_foldM (rpc_step alive) evs (r1, h1) = Inr (r', h')"
    by (auto simp: res_bind_Inr_iff)
  have mono: "length (issued g) \<le> length (issued h')" if "res_foldM (rpc_step alive) xs (q, g) = Inr (r', h')" for xs q g
    using that by (induction xs arbitrary: q g) (force simp: res_bind_Inr_iff dest: rpc_issued_mono)+
  have "length (issued h) + 1 < 2 ^ 32" using rpc_issued_mono[OF s(1)] mono[OF s(2)] Cons.prems(3) by simp
  then have "rpc_inv (r1, h1)" by (rule rpc_inv_step[OF Cons.prems(2) s(1)])
  from Cons.IH[OF s(2) this Cons.prems(3)] rpc_issued_mono[OF s(1)] show ?case by simp
qed simp

section \<open>Properties\<close>

text \<open>
  C28. In every run of fewer than \<open>2 ^ 32 - 1\<close> requests, whatever responses the network
  delivers, a response goes to the request that was sent with its number, no request is
  answered twice, and a request that was sent and not answered is still waiting.
\<close>

theorem rpc_responses_match_requests:
  assumes "rpc_run alive evs = Inr (r, h)" and "length (issued h) + 1 < 2 ^ 32"
  shows "(\<forall>(tx, res) \<in> set (delivered h). (rres_seq res, tx) \<in> set (issued h)) \<and>
    distinct (map (rres_seq \<circ> snd) (delivered h)) \<and> distinct (map fst (issued h)) \<and>
    (\<forall>(q, tx) \<in> set (issued h). q \<in> answered h \<or> hm_get (waits r) q = Some tx)"
proof -
  have inv: "rpc_inv (r, h)"
    using rpc_run_inv[OF _ rpc_inv_init assms(2)] assms(1) by (simp add: rpc_run_def)
  have "distinct (map (\<lambda>i. word_of_nat (Suc i) :: u32) [0..<length (issued h)])"
    using assms(2) by (auto simp: distinct_map inj_on_def word_unat_eq_iff unat_of_nat
        simp del: of_nat_Suc)
  then have d: "distinct (map fst (issued h))" using inv by (simp add: rpc_inv_def)
  then have m: "map_of (issued h) q = Some tx \<longleftrightarrow> (q, tx) \<in> set (issued h)" for q tx by simp
  have "hm_get (waits r) q = Some tx" if "(q, tx) \<in> set (issued h)" "q \<notin> answered h" for q tx
    using inv that m by (simp add: rpc_inv_def)
  then have "\<forall>(q, tx) \<in> set (issued h). q \<in> answered h \<or> hm_get (waits r) q = Some tx" by blast
  moreover have "\<forall>(tx, res) \<in> set (delivered h). (rres_seq res, tx) \<in> set (issued h)"
    using inv by (simp add: rpc_inv_def m)
  ultimately show ?thesis using inv d by (simp add: rpc_inv_def)
qed

definition demo_evs :: "rpc_ev list" where
  "demo_evs = [Ask ''b'' ''START'' [1] 5, Ask ''c'' ''END'' [2] 6, Take, Take,
     Answer \<lparr>rres_seq = 2, rres_success = True, rres_payload = []\<rparr>,
     Answer \<lparr>rres_seq = 2, rres_success = True, rres_payload = []\<rparr>]"

definition demo_hist :: rpc_hist where
  "demo_hist = \<lparr>issued = [(1, 5), (2, 6)],
     delivered = [(6, \<lparr>rres_seq = 2, rres_success = True, rres_payload = []\<rparr>)]\<rparr>"

lemma demo_evs_run:
  "rpc_run (\<lambda>_. True) demo_evs = Inr (\<lparr>seq_seed = 2, waits = [(1, 5)], rpc_rx = []\<rparr>, demo_hist)"
  by (simp add: rpc_run_def demo_evs_def create_rpc_def request_queue_def push_back_def rpc_recv_def
      rpc_on_res_def Let_def demo_hist_def)

theorem rpc_responses_match_requests_witness:
  "rpc_run (\<lambda>_. True) demo_evs = Inr (\<lparr>seq_seed = 2, waits = [(1, 5)], rpc_rx = []\<rparr>, demo_hist) \<and>
   distinct (map fst (issued demo_hist)) \<and> (2, 6) \<in> set (issued demo_hist)"
  using rpc_responses_match_requests[OF demo_evs_run] demo_evs_run by (simp add: demo_hist_def)

text \<open>
  A request never returns a wrong result: it returns the decoded payload exactly when
  the response is a success that decodes, and otherwise one of the two error strings or
  the error of the channel.
\<close>

theorem request_outcome_cases:
  "(request_outcome decode answer = Inr x \<longleftrightarrow>
      (\<exists>res. answer = Inr res \<and> rres_success res \<and> decode (rres_payload res) = Some x)) \<and>
   (request_outcome decode answer = Inl e \<longleftrightarrow>
      answer = Inl e \<or>
      (\<exists>res. answer = Inr res \<and>
         (e = ''RPC_ERROR'' \<and> \<not> rres_success res \<or>
          e = ''DECODE_ERROR'' \<and> rres_success res \<and> decode (rres_payload res) = None)))"
  by (auto simp: request_outcome_def split: sum.splits option.splits if_splits)

end
