(* ===== verification/Usage_Service.thy ===== *)
theory Usage_Service
  imports Protocol
begin

text \<open>
  The accounting hooks of a worker: the trait \<open>WorkerUsageService\<close> of
  \<^verbatim>\<open>crates/usage-service/src/lib.rs\<close> and its pass-through implementation. The trait is
  a record of operations on a state of type \<open>'u\<close> (so that the model service can hold any
  implementation, as the code holds a trait object), and what the model service relies on
  is the locale \<open>usage_service\<close>: a hook may replace the metadata and may refuse, but it
  never changes the rest of a request, never turns a failure into a success and never
  touches an embedding.
\<close>

record 'u usage_ops =
  u_pre_start :: "start_req \<Rightarrow> 'u \<Rightarrow> ((string + start_req) \<times> 'u) res"
  u_post_start :: "start_req \<Rightarrow> start_res \<Rightarrow> 'u \<Rightarrow> (start_res \<times> 'u) res"
  u_pre_end :: "u64 \<Rightarrow> end_req \<Rightarrow> 'u \<Rightarrow> ((string + end_req) \<times> 'u) res"
  u_post_end :: "u64 \<Rightarrow> end_req \<Rightarrow> end_res \<Rightarrow> 'u \<Rightarrow> (end_res \<times> 'u) res"
  u_pre_forward :: "u64 \<Rightarrow> forward_req \<Rightarrow> 'u \<Rightarrow> ((string + forward_req) \<times> 'u) res"
  u_post_forward :: "u64 \<Rightarrow> forward_req \<Rightarrow> forward_res \<Rightarrow> 'u \<Rightarrow> (forward_res \<times> 'u) res"

section \<open>The contract\<close>

locale usage_service =
  fixes ops :: "'u usage_ops"
  assumes pre_start_frame:
      "u_pre_start ops req u = Inr (Inr req', u') \<Longrightarrow> req' = req\<lparr>sreq_metadata := sreq_metadata req'\<rparr>"
    and pre_end_frame:
      "u_pre_end ops c ereq u = Inr (Inr ereq', u') \<Longrightarrow> ereq' = ereq\<lparr>ereq_metadata := ereq_metadata ereq'\<rparr>"
    and pre_forward_frame:
      "u_pre_forward ops c freq u = Inr (Inr freq', u') \<Longrightarrow> freq' = freq\<lparr>freq_metadata := freq_metadata freq'\<rparr>"
    and post_start_success:
      "u_post_start ops req res u = Inr (res', u') \<Longrightarrow> sres_success res' \<Longrightarrow> sres_success res"
    and post_end_success:
      "u_post_end ops c ereq eres u = Inr (eres', u') \<Longrightarrow> eres_success eres' \<Longrightarrow> eres_success eres"
    and post_forward_frame:
      "u_post_forward ops c freq fres u = Inr (fres', u') \<Longrightarrow>
        fres' = fres\<lparr>fres_metadata := fres_metadata fres'\<rparr>"
begin

lemma pre_start_fields:
  assumes "u_pre_start ops req u = Inr (Inr req', u')"
  shows "sreq_session req' = sreq_session req" "sreq_chat_id req' = sreq_chat_id req"
    "sreq_from_layer req' = sreq_from_layer req" "sreq_chain_index req' = sreq_chain_index req"
    "sreq_max_tokens req' = sreq_max_tokens req"
  by (subst pre_start_frame[OF assms], simp)+

lemma pre_forward_fields:
  assumes "u_pre_forward ops c freq u = Inr (Inr freq', u')"
  shows "freq_session freq' = freq_session freq" "freq_step freq' = freq_step freq"
    "freq_embedding freq' = freq_embedding freq" "freq_index_pos freq' = freq_index_pos freq"
    "freq_seq_len freq' = freq_seq_len freq" "freq_chain_index freq' = freq_chain_index freq"
  by (subst pre_forward_frame[OF assms], simp)+

lemma pre_end_fields:
  assumes "u_pre_end ops c ereq u = Inr (Inr ereq', u')"
  shows "ereq_session ereq' = ereq_session ereq" "ereq_chain_index ereq' = ereq_chain_index ereq"
  by (subst pre_end_frame[OF assms], simp)+

lemma post_forward_fields:
  assumes "u_post_forward ops c freq fres u = Inr (fres', u')"
  shows "fres_success fres' = fres_success fres" "fres_embedding fres' = fres_embedding fres"
  by (subst post_forward_frame[OF assms], simp)+

end

section \<open>The pass-through implementation\<close>

definition passthrough_pre_start :: "start_req \<Rightarrow> unit \<Rightarrow> ((string + start_req) \<times> unit) res" where
  "passthrough_pre_start req u = Inr (Inr req, u)"

definition passthrough_post_start :: "start_req \<Rightarrow> start_res \<Rightarrow> unit \<Rightarrow> (start_res \<times> unit) res" where
  "passthrough_post_start req res u = Inr (res, u)"

definition passthrough_pre_end :: "u64 \<Rightarrow> end_req \<Rightarrow> unit \<Rightarrow> ((string + end_req) \<times> unit) res" where
  "passthrough_pre_end c req u = Inr (Inr req, u)"

definition passthrough_post_end :: "u64 \<Rightarrow> end_req \<Rightarrow> end_res \<Rightarrow> unit \<Rightarrow> (end_res \<times> unit) res" where
  "passthrough_post_end c req res u = Inr (res, u)"

definition passthrough_pre_forward :: "u64 \<Rightarrow> forward_req \<Rightarrow> unit \<Rightarrow> ((string + forward_req) \<times> unit) res" where
  "passthrough_pre_forward c req u = Inr (Inr req, u)"

definition passthrough_post_forward :: "u64 \<Rightarrow> forward_req \<Rightarrow> forward_res \<Rightarrow> unit \<Rightarrow> (forward_res \<times> unit) res" where
  "passthrough_post_forward c req res u = Inr (res, u)"

definition passthrough_ops :: "unit usage_ops" where
  "passthrough_ops = \<lparr>u_pre_start = passthrough_pre_start, u_post_start = passthrough_post_start,
     u_pre_end = passthrough_pre_end, u_post_end = passthrough_post_end,
     u_pre_forward = passthrough_pre_forward, u_post_forward = passthrough_post_forward\<rparr>"

lemmas passthrough_defs = passthrough_ops_def passthrough_pre_start_def passthrough_post_start_def
  passthrough_pre_end_def passthrough_post_end_def passthrough_pre_forward_def passthrough_post_forward_def

interpretation pass: usage_service passthrough_ops
  by unfold_locales (simp_all add: passthrough_defs)

end
