(* ===== verification/Onchain.thy ===== *)
theory Onchain
  imports Usage_Service Shared_Map
begin

text \<open>
  Token accounting on chain: \<^verbatim>\<open>crates/contract/src/storage.rs\<close>,
  \<^verbatim>\<open>validator.rs\<close> and \<^verbatim>\<open>lib.rs\<close>. The root of a chain (chain index 0) counts what it
  spends and signs a checkpoint of the count with every forward; a worker of the chain
  verifies the checkpoint, counts what it earns, and at the end claims its count with the
  last checkpoint.

  Not in the sources, hence fields of the parameter record \<open>oc_env\<close>: the binary codecs
  (\<open>bincode\<close>, \<open>bcs\<close>), the signature scheme (\<open>ed25519\<close>), the account and the answer
  of the chain to \<open>create_session\<close>. A claim is a detached task; it is recorded in the log
  \<open>claims\<close> with its arguments, as \<open>create_session\<close> calls are in \<open>created\<close>.
\<close>

section \<open>Storage\<close>

type_synonym onchain_storage = "(u64, u64) shared_hash_map"

definition os_increase :: "u64 \<Rightarrow> u64 \<Rightarrow> onchain_storage \<Rightarrow> onchain_storage" where
  "os_increase chat_id token_count s =
     (let count = (case get_clone s chat_id of None \<Rightarrow> 0 | Some n \<Rightarrow> n)
      in snd (shm_insert chat_id (count + token_count) s))"

definition os_get :: "u64 \<Rightarrow> onchain_storage \<Rightarrow> u64" where
  "os_get chat_id s = (case get_clone s chat_id of None \<Rightarrow> 0 | Some n \<Rightarrow> n)"

definition os_finish :: "u64 \<Rightarrow> onchain_storage \<Rightarrow> u64 \<times> onchain_storage" where
  "os_finish chat_id s =
     (let (old, s') = shm_remove chat_id s in ((case old of None \<Rightarrow> 0 | Some n \<Rightarrow> n), s'))"

definition os_sum :: "onchain_storage \<Rightarrow> u64" where
  "os_sum s = sum_list (values_clone s)"

section \<open>Validator\<close>

record checkpoint =
  cp_token_count :: u64
  cp_signature :: bytes

record ('addr, 'pk) oc_metadata =
  md_addresses :: "'addr list"
  md_root_address :: 'addr
  md_root_pk :: 'pk
  md_layers :: "u64 list"
  md_checkpoint :: "checkpoint option"

record ('addr, 'pk) oc_env =
  md_serialize :: "('addr, 'pk) oc_metadata \<Rightarrow> bytes"
  md_deserialize :: "bytes \<Rightarrow> ('addr, 'pk) oc_metadata option"
  bcs_u64 :: "u64 \<Rightarrow> bytes"
  ed_sign :: "bytes \<Rightarrow> bytes"
  pk_valid :: "'pk \<Rightarrow> bool"
  verify_strict :: "'pk \<Rightarrow> bytes \<Rightarrow> bytes \<Rightarrow> bool"
  account_address :: 'addr
  account_pk :: 'pk
  chain_create_session :: "u64 \<Rightarrow> u64 \<Rightarrow> 'addr list \<Rightarrow> u64 list \<Rightarrow> bool"

record 'pk onchain_validator =
  root_pks :: "(u64, 'pk) shared_hash_map"
  checkpoints :: "(u64, checkpoint) shared_hash_map"

definition ov_new :: "'pk onchain_validator" where
  "ov_new = \<lparr>root_pks = shm_new, checkpoints = shm_new\<rparr>"

definition add_root_pk :: "u64 \<Rightarrow> 'pk \<Rightarrow> 'pk onchain_validator \<Rightarrow> 'pk onchain_validator" where
  "add_root_pk chat_id pk v = v\<lparr>root_pks := snd (shm_insert chat_id pk (root_pks v))\<rparr>"

definition verify_checkpoint ::
  "('addr, 'pk) oc_env \<Rightarrow> u64 \<Rightarrow> checkpoint \<Rightarrow> 'pk onchain_validator \<Rightarrow> bool res" where
  "verify_checkpoint env chat_id cp v = (case get_clone (root_pks v) chat_id of
       None \<Rightarrow> Inr False
     | Some pk \<Rightarrow>
         if \<not> pk_valid env pk then Inl (ExpectFailed ''Failed to parse public key'')
         else if length (cp_signature cp) \<noteq> 64 then Inl SliceLengthMismatch
         else Inr (verify_strict env pk (bcs_u64 env (cp_token_count cp)) (cp_signature cp)))"

definition update_checkpoint ::
  "('addr, 'pk) oc_env \<Rightarrow> u64 \<Rightarrow> checkpoint \<Rightarrow> 'pk onchain_validator \<Rightarrow> ((string + unit) \<times> 'pk onchain_validator) res" where
  "update_checkpoint env chat_id cp v = res_bind (verify_checkpoint env chat_id cp v) (\<lambda>ok.
     if ok then Inr (Inr (), v\<lparr>checkpoints := snd (shm_insert chat_id cp (checkpoints v))\<rparr>)
     else Inr (Inl ''Invalid checkpoint'', v))"

definition get_checkpoint :: "u64 \<Rightarrow> 'pk onchain_validator \<Rightarrow> checkpoint option" where
  "get_checkpoint chat_id v = get_clone (checkpoints v) chat_id"

definition sign_checkpoint :: "('addr, 'pk) oc_env \<Rightarrow> u64 \<Rightarrow> bytes" where
  "sign_checkpoint env token_count = ed_sign env (bcs_u64 env token_count)"

definition create_checkpoint ::
  "('addr, 'pk) oc_env \<Rightarrow> u64 \<Rightarrow> u64 \<Rightarrow> 'pk onchain_validator \<Rightarrow> (checkpoint \<times> 'pk onchain_validator) res" where
  "create_checkpoint env chat_id token_count v =
     (let signature = sign_checkpoint env token_count;
          v' = v\<lparr>checkpoints := snd (shm_insert chat_id
                  \<lparr>cp_token_count = token_count, cp_signature = signature\<rparr> (checkpoints v))\<rparr>
      in res_bind (unwrap_option UnwrapOnNone (get_clone (checkpoints v') chat_id)) (\<lambda>cp. Inr (cp, v')))"

section \<open>Service\<close>

record ('addr, 'pk) onchain_service =
  earning :: onchain_storage
  spending :: onchain_storage
  oc_layers :: u32_range
  validator :: "'pk onchain_validator"
  claims :: "('addr \<times> u64 \<times> u64 \<times> bytes) list"
  created :: "(u64 \<times> u64 \<times> 'addr list \<times> u64 list) list"

definition oc_new :: "u32_range \<Rightarrow> ('addr, 'pk) onchain_service" where
  "oc_new rng = \<lparr>earning = shm_new, spending = shm_new, oc_layers = rng, validator = ov_new,
     claims = [], created = []\<rparr>"

definition parse_metadata :: "('addr, 'pk) oc_env \<Rightarrow> bytes \<Rightarrow> ('addr, 'pk) oc_metadata res" where
  "parse_metadata env b =
     unwrap_option (ExpectFailed ''Should be able to parse metadata'') (md_deserialize env b)"

definition own_metadata :: "('addr, 'pk) oc_env \<Rightarrow> checkpoint option \<Rightarrow> ('addr, 'pk) oc_metadata" where
  "own_metadata env cp = \<lparr>md_addresses = [], md_root_address = account_address env,
     md_root_pk = account_pk env, md_layers = [], md_checkpoint = cp\<rparr>"

definition commit_session :: "u64 \<Rightarrow> ('addr, 'pk) onchain_service \<Rightarrow> ('addr, 'pk) onchain_service" where
  "commit_session chat_id u = u\<lparr>spending := snd (os_finish chat_id (spending u))\<rparr>"

definition spending_token_count :: "('addr, 'pk) onchain_service \<Rightarrow> u64" where
  "spending_token_count u = os_sum (spending u)"

definition earning_token_count :: "('addr, 'pk) onchain_service \<Rightarrow> u64" where
  "earning_token_count u = os_sum (earning u)"

definition oc_pre_start ::
  "('addr, 'pk) oc_env \<Rightarrow> start_req \<Rightarrow> ('addr, 'pk) onchain_service \<Rightarrow>
    ((string + start_req) \<times> ('addr, 'pk) onchain_service) res" where
  "oc_pre_start env req u =
     (if sreq_chain_index req = 0
      then Inr (Inr (req\<lparr>sreq_metadata := md_serialize env (own_metadata env None)\<rparr>), u)
      else res_bind (parse_metadata env (sreq_metadata req)) (\<lambda>md.
        Inr (Inr req, u\<lparr>validator := add_root_pk (sreq_chat_id req) (md_root_pk md) (validator u)\<rparr>)))"

definition oc_post_start ::
  "('addr, 'pk) oc_env \<Rightarrow> start_req \<Rightarrow> start_res \<Rightarrow> ('addr, 'pk) onchain_service \<Rightarrow>
    (start_res \<times> ('addr, 'pk) onchain_service) res" where
  "oc_post_start env req res u = res_bind (parse_metadata env (sres_metadata res)) (\<lambda>md.
     if sreq_chain_index req = 0
     then let call = (sreq_chat_id req, ucast (sreq_max_tokens req), md_addresses md, md_layers md);
              u' = u\<lparr>created := created u @ [call]\<rparr>
          in if chain_create_session env (sreq_chat_id req) (ucast (sreq_max_tokens req)) (md_addresses md) (md_layers md)
             then Inr (res, u') else Inr (res\<lparr>sres_success := False\<rparr>, u')
     else let new_metadata = \<lparr>md_addresses = push_back (md_addresses md) (account_address env),
                md_root_address = md_root_address md, md_root_pk = md_root_pk md,
                md_layers = push_back (md_layers md) (ucast (rend (oc_layers u) - sreq_from_layer req + 1)),
                md_checkpoint = None\<rparr>
          in Inr (res\<lparr>sres_metadata := md_serialize env new_metadata\<rparr>, u))"

definition oc_pre_end ::
  "('addr, 'pk) oc_env \<Rightarrow> u64 \<Rightarrow> end_req \<Rightarrow> ('addr, 'pk) onchain_service \<Rightarrow>
    ((string + end_req) \<times> ('addr, 'pk) onchain_service) res" where
  "oc_pre_end env chat_id req u =
     (if ereq_chain_index req = 0
      then Inr (Inr (req\<lparr>ereq_metadata := md_serialize env (own_metadata env None)\<rparr>), commit_session chat_id u)
      else Inr (Inr req, u))"

definition oc_post_end ::
  "('addr, 'pk) oc_env \<Rightarrow> u64 \<Rightarrow> end_req \<Rightarrow> end_res \<Rightarrow> ('addr, 'pk) onchain_service \<Rightarrow>
    (end_res \<times> ('addr, 'pk) onchain_service) res" where
  "oc_post_end env chat_id req res u =
     (if ereq_chain_index req \<noteq> 0
      then res_bind (parse_metadata env (eres_metadata res)) (\<lambda>md.
        let (token_count, e) = os_finish chat_id (earning u);
            u' = u\<lparr>earning := e\<rparr>
        in (case get_checkpoint chat_id (validator u') of
              Some cp \<Rightarrow>
                Inr (res, u'\<lparr>claims := claims u' @ [(md_root_address md, chat_id, token_count, cp_signature cp)]\<rparr>)
            | None \<Rightarrow> Inr (res\<lparr>eres_success := False\<rparr>, u')))
      else Inr (res, u))"

definition oc_pre_forward ::
  "('addr, 'pk) oc_env \<Rightarrow> u64 \<Rightarrow> forward_req \<Rightarrow> ('addr, 'pk) onchain_service \<Rightarrow>
    ((string + forward_req) \<times> ('addr, 'pk) onchain_service) res" where
  "oc_pre_forward env chat_id req u =
     (if freq_chain_index req = 0
      then let sp = os_increase chat_id 1 (spending u);
               count = os_get chat_id sp
           in res_bind (create_checkpoint env chat_id count (validator u)) (\<lambda>(cp, v).
             Inr (Inr (req\<lparr>freq_metadata := md_serialize env (own_metadata env (Some cp))\<rparr>),
                  u\<lparr>spending := sp, validator := v\<rparr>))
      else res_bind (parse_metadata env (freq_metadata req)) (\<lambda>md.
        case md_checkpoint md of
          Some cp \<Rightarrow> res_bind (update_checkpoint env chat_id cp (validator u)) (\<lambda>(r, v).
            (case r of
               Inr _ \<Rightarrow> Inr (Inr req, u\<lparr>validator := v, earning := os_increase chat_id 1 (earning u)\<rparr>)
             | Inl e \<Rightarrow> Inr (Inl e, u\<lparr>validator := v\<rparr>)))
        | None \<Rightarrow> Inr (Inl ''[OnChainService] Failed to get checkpoint, no checkpoint in metadata'', u)))"

definition oc_post_forward ::
  "u64 \<Rightarrow> forward_req \<Rightarrow> forward_res \<Rightarrow> ('addr, 'pk) onchain_service \<Rightarrow>
    (forward_res \<times> ('addr, 'pk) onchain_service) res" where
  "oc_post_forward chat_id req res u = Inr (res, u)"

definition onchain_ops :: "('addr, 'pk) oc_env \<Rightarrow> ('addr, 'pk) onchain_service usage_ops" where
  "onchain_ops env = \<lparr>u_pre_start = oc_pre_start env, u_post_start = oc_post_start env,
     u_pre_end = oc_pre_end env, u_post_end = oc_post_end env,
     u_pre_forward = oc_pre_forward env, u_post_forward = oc_post_forward\<rparr>"

section \<open>The service satisfies the contract\<close>

lemma update_checkpoint_cases:
  assumes "update_checkpoint env c cp v = Inr (r, v')"
  obtains "r = Inr ()" "verify_checkpoint env c cp v = Inr True"
      "v' = v\<lparr>checkpoints := snd (shm_insert c cp (checkpoints v))\<rparr>"
    | "r = Inl ''Invalid checkpoint''" "verify_checkpoint env c cp v = Inr False" "v' = v"
  using assms by (auto simp: update_checkpoint_def res_bind_Inr_iff split: if_splits)

lemma oc_pre_forward_worker:
  assumes "freq_chain_index req \<noteq> 0"
  shows "oc_pre_forward env c req u = Inr (Inr req', u') \<longleftrightarrow> req' = req \<and>
    (\<exists>md cp. md_deserialize env (freq_metadata req) = Some md \<and> md_checkpoint md = Some cp \<and>
       verify_checkpoint env c cp (validator u) = Inr True \<and>
       u' = u\<lparr>validator := (validator u)\<lparr>checkpoints := snd (shm_insert c cp (checkpoints (validator u)))\<rparr>,
              earning := os_increase c 1 (earning u)\<rparr>)"
  using assms
  by (cases "md_deserialize env (freq_metadata req)")
    (auto simp: oc_pre_forward_def parse_metadata_def update_checkpoint_def res_bind_def
      split: option.splits sum.splits)

lemma oc_pre_forward_frame:
  "oc_pre_forward env c req u = Inr (Inr req', u') \<Longrightarrow> req' = req\<lparr>freq_metadata := freq_metadata req'\<rparr>"
proof (cases "freq_chain_index req = 0")
  case True
  assume "oc_pre_forward env c req u = Inr (Inr req', u')"
  with True show ?thesis by (auto simp: oc_pre_forward_def Let_def res_bind_Inr_iff)
qed (simp add: oc_pre_forward_worker)

lemma oc_post_end_success:
  "oc_post_end env c req res u = Inr (res', u') \<Longrightarrow> eres_success res' \<Longrightarrow> eres_success res"
  by (auto simp: oc_post_end_def Let_def res_bind_Inr_iff split_beta split: if_splits option.splits)

interpretation oc: usage_service "onchain_ops env" for env
proof
  fix c freq u freq' u'
  assume "u_pre_forward (onchain_ops env) c freq u = Inr (Inr freq', u')"
  then show "freq' = freq\<lparr>freq_metadata := freq_metadata freq'\<rparr>"
    by (simp add: onchain_ops_def oc_pre_forward_frame)
next
  fix c ereq eres u eres' u'
  assume "u_post_end (onchain_ops env) c ereq eres u = Inr (eres', u')" "eres_success eres'"
  then show "eres_success eres" by (simp add: onchain_ops_def oc_post_end_success)
qed (auto simp: onchain_ops_def oc_pre_start_def oc_post_start_def oc_pre_end_def oc_post_forward_def
    res_bind_Inr_iff Let_def split: if_splits)

section \<open>Storage laws\<close>

lemma os_get_increase: "os_get c (os_increase d n s) = (if c = d then os_get c s + n else os_get c s)"
  by (auto simp: os_get_def os_increase_def Let_def get_clone_insert split: option.splits)

lemma os_get_finish:
  "fst (os_finish c s) = os_get c s" "os_get d (snd (os_finish c s)) = (if d = c then 0 else os_get d s)"
  by (auto simp: os_finish_def os_get_def shm_remove_def get_clone_def hm_get_remove split_beta split: option.splits)

section \<open>A chain of a root and a worker\<close>

text \<open>
  One forward as the model service passes it on: the root's hook sets the metadata, the
  request goes to the worker with the same metadata and the next chain index, and the
  worker's hook runs. \<open>None\<close> is a refusal or a panic.
\<close>

definition metered_forward ::
  "('addr, 'pk) oc_env \<Rightarrow> ('addr, 'pk) oc_env \<Rightarrow> u64 \<Rightarrow> forward_req \<Rightarrow>
    ('addr, 'pk) onchain_service \<times> ('addr, 'pk) onchain_service \<Rightarrow>
    (('addr, 'pk) onchain_service \<times> ('addr, 'pk) onchain_service) option" where
  "metered_forward renv wenv c req = (\<lambda>(r, w). case oc_pre_forward renv c req r of
       Inr (Inr req', r') \<Rightarrow>
         (case oc_pre_forward wenv c (req'\<lparr>freq_chain_index := freq_chain_index req' + 1\<rparr>) w of
            Inr (Inr _, w') \<Rightarrow> Some (r', w')
          | _ \<Rightarrow> None)
     | _ \<Rightarrow> None)"

fun metered_run ::
  "('addr, 'pk) oc_env \<Rightarrow> ('addr, 'pk) oc_env \<Rightarrow> u64 \<Rightarrow> forward_req list \<Rightarrow>
    ('addr, 'pk) onchain_service \<times> ('addr, 'pk) onchain_service \<Rightarrow>
    (('addr, 'pk) onchain_service \<times> ('addr, 'pk) onchain_service) option" where
  "metered_run renv wenv c [] s = Some s"
| "metered_run renv wenv c (q # qs) s = Option.bind (metered_forward renv wenv c q s) (metered_run renv wenv c qs)"

text \<open>
  What the worker relies on of the codec and of the signature scheme: it decodes what the
  root encodes, and a signature of the root is 64 bytes long and verifies with the root's
  key.
\<close>

definition trusts :: "('addr, 'pk) oc_env \<Rightarrow> ('addr, 'pk) oc_env \<Rightarrow> bool" where
  "trusts wenv renv \<longleftrightarrow>
     (\<forall>cp. md_deserialize wenv (md_serialize renv (own_metadata renv cp)) = Some (own_metadata renv cp)) \<and>
     pk_valid wenv (account_pk renv) \<and>
     (\<forall>n. length (sign_checkpoint renv n) = 64 \<and>
        verify_strict wenv (account_pk renv) (bcs_u64 wenv n) (sign_checkpoint renv n))"

definition metered :: "('addr, 'pk) oc_env \<Rightarrow> u64 \<Rightarrow> nat \<Rightarrow>
    ('addr, 'pk) onchain_service \<times> ('addr, 'pk) onchain_service \<Rightarrow> bool" where
  "metered renv c n = (\<lambda>(r, w).
     os_get c (spending r) = word_of_nat n \<and> os_get c (earning w) = word_of_nat n \<and>
     get_clone (root_pks (validator w)) c = Some (account_pk renv) \<and>
     (n = 0 \<or> get_checkpoint c (validator w) =
        Some \<lparr>cp_token_count = word_of_nat n, cp_signature = sign_checkpoint renv (word_of_nat n)\<rparr>))"

lemma oc_pre_forward_root:
  fixes u :: "('addr, 'pk) onchain_service" and c :: u64 and env :: "('addr, 'pk) oc_env"
  assumes "freq_chain_index req = 0"
  defines "n \<equiv> os_get c (spending u) + 1"
  defines "cp \<equiv> \<lparr>cp_token_count = n, cp_signature = sign_checkpoint env n\<rparr>"
  shows "oc_pre_forward env c req u =
    Inr (Inr (req\<lparr>freq_metadata := md_serialize env (own_metadata env (Some cp))\<rparr>),
      u\<lparr>spending := os_increase c 1 (spending u),
        validator := (validator u)\<lparr>checkpoints := snd (shm_insert c cp (checkpoints (validator u)))\<rparr>\<rparr>)"
  using assms(1) by (simp add: oc_pre_forward_def create_checkpoint_def Let_def get_clone_insert os_get_increase n_def cp_def)

lemma metered_forward_ok:
  assumes "trusts wenv renv" "freq_chain_index req = 0" "metered renv c n (r, w)"
  shows "\<exists>r' w'. metered_forward renv wenv c req (r, w) = Some (r', w') \<and> metered renv c (Suc n) (r', w')"
proof -
  let ?n = "word_of_nat (Suc n) :: u64"
  let ?cp = "\<lparr>cp_token_count = ?n, cp_signature = sign_checkpoint renv ?n\<rparr>"
  let ?req = "req\<lparr>freq_metadata := md_serialize renv (own_metadata renv (Some ?cp))\<rparr>"
  have sp: "os_get c (spending r) + 1 = ?n" using assms(3) by (simp add: metered_def)
  obtain r' where r: "oc_pre_forward renv c req r = Inr (Inr ?req, r')" "os_get c (spending r') = ?n"
    using oc_pre_forward_root[OF assms(2), of renv c r] unfolding sp by (simp add: os_get_increase sp del: of_nat_Suc)
  have v: "verify_checkpoint wenv c ?cp (validator w) = Inr True"
    using assms(1,3) by (simp add: verify_checkpoint_def metered_def trusts_def del: of_nat_Suc)
  have md: "md_deserialize wenv (freq_metadata ?req) = Some (own_metadata renv (Some ?cp))"
    using assms(1) by (simp add: trusts_def)
  have i: "freq_chain_index (?req\<lparr>freq_chain_index := freq_chain_index ?req + 1\<rparr>) \<noteq> 0" using assms(2) by simp
  define w' where "w' = w\<lparr>validator := (validator w)\<lparr>checkpoints := snd (shm_insert c ?cp (checkpoints (validator w)))\<rparr>,
        earning := os_increase c 1 (earning w)\<rparr>"
  have w: "oc_pre_forward wenv c (?req\<lparr>freq_chain_index := freq_chain_index ?req + 1\<rparr>) w =
      Inr (Inr (?req\<lparr>freq_chain_index := freq_chain_index ?req + 1\<rparr>), w')"
    unfolding oc_pre_forward_worker[OF i] w'_def
    by (intro conjI refl exI[of _ "own_metadata renv (Some ?cp)"] exI[of _ ?cp] v)
      (use md in \<open>simp_all add: own_metadata_def\<close>)
  have "metered renv c (Suc n) (r', w')"
    using assms(3) r(2) by (simp add: metered_def w'_def os_get_increase get_checkpoint_def get_clone_insert)
  then show ?thesis using r(1) w by (simp add: metered_forward_def)
qed

lemma metered_run_ok:
  assumes "trusts wenv renv" "\<forall>q \<in> set reqs. freq_chain_index q = 0" "metered renv c n s"
  shows "\<exists>s'. metered_run renv wenv c reqs s = Some s' \<and> metered renv c (n + length reqs) s'"
  using assms(2,3)
proof (induction reqs arbitrary: n s)
  case (Cons q qs)
  then obtain s' where s': "metered_forward renv wenv c q s = Some s'" "metered renv c (Suc n) s'"
    using metered_forward_ok[OF assms(1), of q c n "fst s" "snd s"] by auto
  from Cons.IH[OF _ s'(2)] Cons.prems(1) s'(1) show ?case by auto
qed simp

section \<open>Properties\<close>

text \<open>
  C29. Honest accounting: after any number of forwards through a root and a worker that
  has registered the root's key, nothing was refused, the root's spending and the worker's
  earning are that number, and the claim the worker makes at the end is for exactly the
  number that the signature it presents was made for.
\<close>

theorem honest_chain_claims_what_was_signed:
  assumes tr: "trusts wenv renv" and ci: "\<forall>q \<in> set reqs. freq_chain_index q = 0" and ne: "reqs \<noteq> []"
    and sp: "os_get c (spending r) = 0" and ea: "os_get c (earning w) = 0"
    and pk: "get_clone (root_pks (validator w)) c = Some (account_pk renv)"
    and ec: "ereq_chain_index ereq \<noteq> 0" and md: "md_deserialize wenv (eres_metadata eres) = Some md"
  defines "n \<equiv> word_of_nat (length reqs) :: u64"
  shows "\<exists>r' w' w''. metered_run renv wenv c reqs (r, w) = Some (r', w') \<and>
    os_get c (spending r') = n \<and> os_get c (earning w') = n \<and>
    oc_post_end wenv c ereq eres w' = Inr (eres, w'') \<and>
    claims w'' = claims w' @ [(md_root_address md, c, n, sign_checkpoint renv n)]"
proof -
  have "metered renv c 0 (r, w)" using sp ea pk by (simp add: metered_def)
  from metered_run_ok[OF tr ci this] obtain r' w' where
    run: "metered_run renv wenv c reqs (r, w) = Some (r', w')" and m: "metered renv c (length reqs) (r', w')"
    by auto
  have cp: "get_checkpoint c (validator w') = Some \<lparr>cp_token_count = n, cp_signature = sign_checkpoint renv n\<rparr>"
    "os_get c (earning w') = n" "os_get c (spending r') = n"
    using m ne by (simp_all add: metered_def n_def)
  have "fst (os_finish c (earning w')) = n" by (simp add: os_get_finish cp(2))
  then have "oc_post_end wenv c ereq eres w' = Inr (eres, w'\<lparr>earning := snd (os_finish c (earning w')),
      claims := claims w' @ [(md_root_address md, c, n, sign_checkpoint renv n)]\<rparr>)"
    using ec md cp(1) by (simp add: oc_post_end_def parse_metadata_def split_beta Let_def)
  with run cp show ?thesis by auto
qed


subsection \<open>Witnesses\<close>

text \<open>A codec and a signature scheme with the properties assumed, small enough to compute with.\<close>

definition toy_md_ser :: "(nat, nat) oc_metadata \<Rightarrow> bytes" where
  "toy_md_ser md = (case md_checkpoint md of
       None \<Rightarrow> [0]
     | Some cp \<Rightarrow> 1 # un (unat (cp_token_count cp)) @ cp_signature cp)"

definition toy_md_de :: "bytes \<Rightarrow> (nat, nat) oc_metadata option" where
  "toy_md_de b = (let md = \<lparr>md_addresses = [], md_root_address = 7, md_root_pk = 9, md_layers = [], md_checkpoint = None\<rparr> in
     case b of
       [] \<Rightarrow> None
     | t # rest \<Rightarrow>
         if t = 0 then Some md
         else let (n, sig) = read_un rest
              in Some (md\<lparr>md_checkpoint := Some \<lparr>cp_token_count = word_of_nat n, cp_signature = sig\<rparr>\<rparr>))"

definition toy_env :: "(nat, nat) oc_env" where
  "toy_env = \<lparr>md_serialize = toy_md_ser, md_deserialize = toy_md_de, bcs_u64 = (\<lambda>n. [ucast n]),
     ed_sign = (\<lambda>m. take 64 (m @ replicate 64 0)), pk_valid = (\<lambda>_. True),
     verify_strict = (\<lambda>pk m s. s = take 64 (m @ replicate 64 0)), account_address = 7, account_pk = 9,
     chain_create_session = (\<lambda>_ _ _ _. True)\<rparr>"

lemma toy_roundtrip: "toy_md_de (toy_md_ser (own_metadata toy_env cp)) = Some (own_metadata toy_env cp)"
  by (cases cp) (simp_all add: toy_md_de_def toy_md_ser_def own_metadata_def toy_env_def
      read_un_un Let_def)

lemma toy_trusts: "trusts toy_env toy_env"
  using toy_roundtrip by (simp add: trusts_def sign_checkpoint_def toy_env_def)

definition toy_worker :: "(nat, nat) onchain_service" where
  "toy_worker = (oc_new (mk_range 0 4))\<lparr>validator := add_root_pk 5 9 ov_new\<rparr>"

definition toy_req :: "u32 \<Rightarrow> forward_req" where
  "toy_req i = \<lparr>freq_session = 1, freq_step = 0, freq_embedding = [], freq_index_pos = 0, freq_seq_len = 1,
     freq_metadata = toy_md_ser (own_metadata toy_env (Some \<lparr>cp_token_count = 1,
       cp_signature = sign_checkpoint toy_env 1\<rparr>)), freq_chain_index = i\<rparr>"

lemma toy_worker_pk: "get_clone (root_pks (validator toy_worker)) 5 = Some (account_pk toy_env)"
  by (simp add: toy_worker_def add_root_pk_def ov_new_def get_clone_insert toy_env_def)

theorem honest_chain_claims_what_was_signed_witness:
  "\<exists>r' w' w''. metered_run toy_env toy_env 5 [toy_req 0, toy_req 0] (oc_new (mk_range 0 2), toy_worker) = Some (r', w') \<and>
    os_get 5 (spending r') = 2 \<and> os_get 5 (earning w') = 2 \<and>
    oc_post_end toy_env 5 \<lparr>ereq_session = 1, ereq_metadata = [0], ereq_chain_index = 1\<rparr>
      \<lparr>eres_success = True, eres_metadata = [0]\<rparr> w' = Inr (\<lparr>eres_success = True, eres_metadata = [0]\<rparr>, w'') \<and>
    claims w'' = claims w' @ [(7, 5, 2, sign_checkpoint toy_env 2)]"
proof -
  have z: "os_get 5 (spending (oc_new (mk_range 0 2) :: (nat, nat) onchain_service)) = 0" "os_get 5 (earning toy_worker) = 0"
    by (simp_all add: oc_new_def toy_worker_def os_get_def shm_new_def get_clone_def)
  have md: "md_deserialize toy_env [0] = Some (own_metadata toy_env None)"
    by (simp add: toy_env_def toy_md_de_def own_metadata_def)
  show ?thesis
    using honest_chain_claims_what_was_signed[OF toy_trusts _ _ z toy_worker_pk, of "[toy_req 0, toy_req 0]"
        "\<lparr>ereq_session = 1, ereq_metadata = [0], ereq_chain_index = 1\<rparr>" "\<lparr>eres_success = True, eres_metadata = [0]\<rparr>"] md
    by (simp add: toy_req_def own_metadata_def toy_env_def del: metered_run.simps)
qed

lemma toy_req_metadata: "md_deserialize toy_env (freq_metadata (toy_req i)) =
  Some (own_metadata toy_env (Some \<lparr>cp_token_count = 1, cp_signature = sign_checkpoint toy_env 1\<rparr>))"
  using toy_roundtrip by (simp add: toy_req_def toy_env_def[THEN arg_cong[of _ _ md_deserialize]])

lemma toy_req_verifies: "verify_checkpoint toy_env 5
    \<lparr>cp_token_count = 1, cp_signature = sign_checkpoint toy_env 1\<rparr> (validator toy_worker) = Inr True"
  using toy_trusts toy_worker_pk by (simp add: verify_checkpoint_def trusts_def)


section \<open>What the accounting does not bind\<close>

text \<open>
  A checkpoint seen before is accepted again and counted again: the count the worker claims
  is then not the count the signature was made for, so the claim does not match.
\<close>

lemma replayed_checkpoint_breaks_claim:
  assumes i: "freq_chain_index req \<noteq> 0" and md: "md_deserialize env (freq_metadata req) = Some md" "md_checkpoint md = Some cp"
    and ok: "verify_checkpoint env c cp (validator u) = Inr True"
  shows "\<exists>u' u''. oc_pre_forward env c req u = Inr (Inr req, u') \<and> oc_pre_forward env c req u' = Inr (Inr req, u'') \<and>
    os_get c (earning u'') = os_get c (earning u) + 2 \<and> get_checkpoint c (validator u'') = Some cp"
proof -
  let ?next = "\<lambda>u. u\<lparr>validator := (validator u)\<lparr>checkpoints := snd (shm_insert c cp (checkpoints (validator u)))\<rparr>,
                earning := os_increase c 1 (earning u)\<rparr>"
  have "oc_pre_forward env c req u = Inr (Inr req, ?next u)"
    using md ok by (auto simp: oc_pre_forward_worker[OF i])
  moreover have "verify_checkpoint env c cp (validator (?next u)) = Inr True"
    using ok by (simp add: verify_checkpoint_def)
  then have "oc_pre_forward env c req (?next u) = Inr (Inr req, ?next (?next u))"
    using md by (auto simp: oc_pre_forward_worker[OF i])
  moreover have "get_checkpoint c (validator (?next (?next u))) = Some cp"
    by (simp add: get_checkpoint_def get_clone_insert)
  ultimately show ?thesis by (auto simp: os_get_increase)
qed

text \<open>
  A refused start comes back with empty metadata, and the hook of every node before it
  expects to decode them.
\<close>

lemma refused_start_panics:
  "md_deserialize env [] = None \<Longrightarrow>
   oc_post_start env req \<lparr>sres_success = False, sres_metadata = []\<rparr> u = Inl (ExpectFailed ''Should be able to parse metadata'')"
  by (simp add: oc_post_start_def parse_metadata_def)

text \<open>The number of layers a worker reports is one more than the number it serves.\<close>

lemma reported_layers_off_by_one:
  assumes "sreq_chain_index req \<noteq> 0" "md_deserialize env (sres_metadata res) = Some md"
    and "\<And>m. md_deserialize env (md_serialize env m) = Some m" "sreq_from_layer req < rend (oc_layers u)"
    "unat (rend (oc_layers u)) + 1 < 2 ^ 32"
  shows "\<exists>res' md'. oc_post_start env req res u = Inr (res', u) \<and>
    md_deserialize env (sres_metadata res') = Some md' \<and>
    unat (last (md_layers md')) = unat (rend (oc_layers u)) - unat (sreq_from_layer req) + 1"
proof -
  let ?a = "rend (oc_layers u)" and ?b = "sreq_from_layer req"
  have lt: "unat ?b < unat ?a" using assms(4) by (simp add: word_less_nat_alt)
  then have "unat (?a - ?b) = unat ?a - unat ?b" by (simp add: unat_sub_if')
  then have "unat (?a - ?b + 1) = unat ?a - unat ?b + 1" using assms(5) by (simp add: unat_add_no_wrap)
  then show ?thesis using assms(1-3)
    by (simp add: oc_post_start_def parse_metadata_def Let_def push_back_def unat_ucast_u32_u64)
qed

end
