(* ===== verification/Tensor_Buf.thy ===== *)
theory Tensor_Buf
  imports Prelude
begin

text \<open>
  Tensors on the wire: \<^verbatim>\<open>crates/models/src/remote/mod.rs\<close>. The tensor library
  (\<open>candle\<close>) and the binary codec (\<open>bincode\<close>) are not in the sources; what the code
  calls of them are the fields of \<open>tensor_env\<close>.
\<close>

datatype dtype = DT_U8 | DT_U32 | DT_I64 | DT_BF16 | DT_F16 | DT_F32 | DT_F64

datatype dtype_inner = U8 | U32 | I64 | BF16 | F16 | F32 | F64

fun dtype_inner_from :: "dtype \<Rightarrow> dtype_inner" where
  "dtype_inner_from DT_U8 = U8"
| "dtype_inner_from DT_U32 = U32"
| "dtype_inner_from DT_I64 = I64"
| "dtype_inner_from DT_BF16 = BF16"
| "dtype_inner_from DT_F16 = F16"
| "dtype_inner_from DT_F32 = F32"
| "dtype_inner_from DT_F64 = F64"

fun dtype_from :: "dtype_inner \<Rightarrow> dtype" where
  "dtype_from U8 = DT_U8"
| "dtype_from U32 = DT_U32"
| "dtype_from I64 = DT_I64"
| "dtype_from BF16 = DT_BF16"
| "dtype_from F16 = DT_F16"
| "dtype_from F32 = DT_F32"
| "dtype_from F64 = DT_F64"

record tensor_buf =
  tb_dims :: "usize list"
  tb_buf :: bytes
  tb_dtype :: dtype_inner

record 't tensor_env =
  t_dims :: "'t \<Rightarrow> usize list"
  t_dtype :: "'t \<Rightarrow> dtype"
  write_bytes :: "'t \<Rightarrow> bytes option"
  from_raw_buffer :: "bytes \<Rightarrow> dtype \<Rightarrow> usize list \<Rightarrow> 't option"
  tb_serialize :: "tensor_buf \<Rightarrow> bytes"
  tb_deserialize :: "bytes \<Rightarrow> tensor_buf option"

definition tensor_buf_from :: "'t tensor_env \<Rightarrow> 't \<Rightarrow> tensor_buf res" where
  "tensor_buf_from te t = res_bind (unwrap_option (ExpectFailed ''Should write to buf'') (write_bytes te t))
     (\<lambda>buf. Inr \<lparr>tb_dims = t_dims te t, tb_buf = buf, tb_dtype = dtype_inner_from (t_dtype te t)\<rparr>)"

definition tensor_buf_try_from :: "'t tensor_env \<Rightarrow> bytes \<Rightarrow> tensor_buf option" where
  "tensor_buf_try_from te b = tb_deserialize te b"

definition to_tensor :: "'t tensor_env \<Rightarrow> tensor_buf \<Rightarrow> 't option" where
  "to_tensor te b = from_raw_buffer te (tb_buf b) (dtype_from (tb_dtype b)) (tb_dims b)"

definition to_vec :: "'t tensor_env \<Rightarrow> tensor_buf \<Rightarrow> bytes" where
  "to_vec te b = tb_serialize te b"

text \<open>The two compositions every caller uses.\<close>

definition tensor_encode :: "'t tensor_env \<Rightarrow> 't \<Rightarrow> bytes res" where
  "tensor_encode te t = res_bind (tensor_buf_from te t) (\<lambda>b. Inr (to_vec te b))"

definition tensor_decode :: "'t tensor_env \<Rightarrow> bytes \<Rightarrow> 't res" where
  "tensor_decode te b = res_bind (unwrap_option UnwrapOnErr (tensor_buf_try_from te b))
     (\<lambda>tb. unwrap_option UnwrapOnErr (to_tensor te tb))"

lemma dtype_roundtrip [simp]:
  "dtype_from (dtype_inner_from d) = d" "dtype_inner_from (dtype_from i) = i"
  by (cases d; simp) (cases i; simp)

text \<open>What is documented of the two libraries: a tensor written out and read back is the same tensor.\<close>

definition tensor_ok :: "'t tensor_env \<Rightarrow> bool" where
  "tensor_ok te \<longleftrightarrow>
     (\<forall>t. \<exists>b. write_bytes te t = Some b \<and> from_raw_buffer te b (t_dtype te t) (t_dims te t) = Some t) \<and>
     (\<forall>b. tb_deserialize te (tb_serialize te b) = Some b)"

lemma tensor_encode_total: "tensor_ok te \<Longrightarrow> \<exists>b. tensor_encode te t = Inr b \<and> tensor_decode te b = Inr t"
  unfolding tensor_ok_def tensor_encode_def tensor_decode_def tensor_buf_from_def tensor_buf_try_from_def
    to_tensor_def to_vec_def
  by (elim conjE allE[of _ t] exE) simp

text \<open>
  C31. Encoding a tensor for the next hop and decoding it there gives the same tensor, with
  its shape and element type, and neither side panics.
\<close>

theorem tensor_roundtrip:
  assumes "tensor_ok te"
  shows "res_bind (tensor_encode te t) (tensor_decode te) = Inr t"
  using tensor_encode_total[OF assms, of t] by auto

text \<open>A library with vectors of bytes as its only tensors.\<close>

fun dtype_code :: "dtype_inner \<Rightarrow> nat" where
  "dtype_code U8 = 0"
| "dtype_code U32 = 1"
| "dtype_code I64 = 2"
| "dtype_code BF16 = 3"
| "dtype_code F16 = 4"
| "dtype_code F32 = 5"
| "dtype_code F64 = 6"

definition dtype_of_code :: "nat \<Rightarrow> dtype_inner" where
  "dtype_of_code n = (if n = 0 then U8 else if n = 1 then U32 else if n = 2 then I64 else if n = 3 then BF16
     else if n = 4 then F16 else if n = 5 then F32 else F64)"

definition vec_ser :: "tensor_buf \<Rightarrow> bytes" where
  "vec_ser b = un (dtype_code (tb_dtype b)) @ un (length (tb_dims b)) @
     concat (map un (map unat (tb_dims b))) @ tb_buf b"

definition vec_de :: "bytes \<Rightarrow> tensor_buf option" where
  "vec_de xs = (let (c, r) = read_un xs; (k, r') = read_un r; (ds, buf) = read_uns k r'
     in Some \<lparr>tb_dims = map word_of_nat ds, tb_buf = buf, tb_dtype = dtype_of_code c\<rparr>)"

definition vec_env :: "bytes tensor_env" where
  "vec_env = \<lparr>t_dims = (\<lambda>t. [word_of_nat (length t)]), t_dtype = (\<lambda>_. DT_U8), write_bytes = Some,
     from_raw_buffer = (\<lambda>b d ds. if d = DT_U8 then Some b else None),
     tb_serialize = vec_ser, tb_deserialize = vec_de\<rparr>"

lemma dtype_code_inverse: "dtype_of_code (dtype_code d) = d"
  by (cases d) (simp_all add: dtype_of_code_def)

lemma vec_roundtrip: "vec_de (vec_ser b) = Some b"
proof -
  have "read_uns (length (tb_dims b)) (concat (map un (map unat (tb_dims b))) @ tb_buf b) = (map unat (tb_dims b), tb_buf b)"
    using read_uns_uns[of "map unat (tb_dims b)" "tb_buf b"] by (simp only: length_map)
  moreover have "map word_of_nat (map unat ds) = ds" for ds :: "usize list" by (simp add: comp_def)
  ultimately show ?thesis
    by (simp add: vec_de_def vec_ser_def read_un_un dtype_code_inverse del: map_map)
qed

lemma vec_ok: "tensor_ok vec_env"
  by (simp add: tensor_ok_def vec_env_def vec_roundtrip)

theorem tensor_roundtrip_witness:
  "res_bind (tensor_encode vec_env [1, 2, 3]) (tensor_decode vec_env) = Inr [1, 2, 3]"
  by (rule tensor_roundtrip[OF vec_ok])

end
