(* ===== verification/Model_Service.thy ===== *)
theory Model_Service
  imports Usage_Service Shared_Map Route_Table Tensor_Buf
begin

text \<open>
  The inference service of a worker: \<^verbatim>\<open>crates/worker/src/model_service.rs\<close>. A session has
  a local part (the layers this node computes) and a remote part (the next hop of the
  chain); START sets it up, FORWARD runs a step, END tears it down, and each of them calls
  the accounting hooks and the next hop.

  An \<open>async\<close> handler gives up control while it awaits the next hop, and other requests
  run meanwhile. Each handler is therefore two functions, the part before the remote call
  and the part after it; what the first leaves for the second is its \<open>Inr\<close> result. The
  handler as a whole is their composition with the answer of the next hop, in
  \<^verbatim>\<open>Inference_Chain\<close>.

  Parameters (\<open>ms_env\<close>): the layers this node computes (the trait
  \<open>ModelLayersWorker\<close>), the accounting hooks, the tensor library, the protobuf codec of
  the request payloads and the floating-point division of the statistics.
\<close>

section \<open>State\<close>

record session_container =
  sc_chat_id :: u64
  sc_local :: "u32_range option"
  sc_remote :: "(node_id \<times> session) option"

text \<open>The trait \<open>ModelLayersWorker\<close>: the state of the worker is explicit, an error is \<open>Inl\<close>.\<close>

record ('t, 'l) layers_ops =
  lw_start :: "session \<Rightarrow> chat_cfg \<Rightarrow> 'l \<Rightarrow> ((string + unit) \<times> 'l) res"
  lw_forward :: "session \<Rightarrow> u32 \<Rightarrow> 't \<times> u32 \<Rightarrow> u32 \<Rightarrow> 'l \<Rightarrow> ((string + ('t \<times> u32)) \<times> 'l) res"
  lw_finish :: "session \<Rightarrow> 'l \<Rightarrow> 'l res"

record llm_codec =
  dec_start_req :: "bytes \<Rightarrow> start_req option"
  enc_start_res :: "start_res \<Rightarrow> bytes"
  dec_forward_req :: "bytes \<Rightarrow> forward_req option"
  enc_forward_res :: "forward_res \<Rightarrow> bytes"
  dec_end_req :: "bytes \<Rightarrow> end_req option"
  enc_end_res :: "end_res \<Rightarrow> bytes"

record ('t, 'l, 'u) ms_env =
  e_layers :: "('t, 'l) layers_ops"
  e_usage :: "'u usage_ops"
  e_tensor :: "'t tensor_env"
  e_codec :: llm_codec
  e_tps :: "u32 \<Rightarrow> u64 \<Rightarrow> f32"

record ('l, 'u) model_service =
  ms_layers :: 'l
  ms_sessions :: "(session, session_container) shared_hash_map"
  ms_router :: "node_id route_table"
  ms_usage :: 'u
  ms_stats :: stats
  ms_last :: stats

definition ms_new :: "'l \<Rightarrow> node_id route_table \<Rightarrow> 'u \<Rightarrow> ('l, 'u) model_service" where
  "ms_new l router u = \<lparr>ms_layers = l, ms_sessions = shm_new, ms_router = router, ms_usage = u,
     ms_stats = stats_default, ms_last = stats_default\<rparr>"

section \<open>Statistics\<close>

definition more_net_in :: "nat \<Rightarrow> ('l, 'u) model_service \<Rightarrow> ('l, 'u) model_service" where
  "more_net_in n s = s\<lparr>ms_stats := (ms_stats s)\<lparr>network_in_bytes := network_in_bytes (ms_stats s) + word_of_nat n\<rparr>\<rparr>"

definition more_net_out :: "nat \<Rightarrow> ('l, 'u) model_service \<Rightarrow> ('l, 'u) model_service" where
  "more_net_out n s = s\<lparr>ms_stats := (ms_stats s)\<lparr>network_out_bytes := network_out_bytes (ms_stats s) + word_of_nat n\<rparr>\<rparr>"

definition more_token_in :: "('l, 'u) model_service \<Rightarrow> ('l, 'u) model_service" where
  "more_token_in s = s\<lparr>ms_stats := (ms_stats s)\<lparr>token_in_sum := token_in_sum (ms_stats s) + 1\<rparr>\<rparr>"

definition more_token_out :: "('l, 'u) model_service \<Rightarrow> ('l, 'u) model_service" where
  "more_token_out s = s\<lparr>ms_stats := (ms_stats s)\<lparr>token_out_sum := token_out_sum (ms_stats s) + 1\<rparr>\<rparr>"

text \<open>\<open>milis\<close> is the time since the last update.\<close>

definition ms_tick :: "('t, 'l, 'u) ms_env \<Rightarrow> u64 \<Rightarrow> ('l, 'u) model_service \<Rightarrow> ('l, 'u) model_service" where
  "ms_tick env milis s =
     (if milis \<ge> 1000
      then let pre = ms_last s; now = ms_stats s;
               now = now\<lparr>token_out_tps := e_tps env (token_out_sum now - token_out_sum pre) milis\<rparr>;
               now = now\<lparr>network_in_bps := (network_in_bytes now - network_in_bytes pre) * 8000 div milis\<rparr>;
               now = now\<lparr>network_out_bps := (network_out_bytes now - network_out_bytes pre) * 8000 div milis\<rparr>
           in s\<lparr>ms_stats := now, ms_last := now\<rparr>
      else s)"

definition ms_session_ids :: "('l, 'u) model_service \<Rightarrow> u64 list" where
  "ms_session_ids s = keys_clone (ms_sessions s)"

section \<open>START\<close>

definition start_failed :: start_res where
  "start_failed = \<lparr>sres_success = False, sres_metadata = []\<rparr>"

text \<open>
  Up to the remote call. \<open>Inl\<close> is the response when there is none to make; \<open>Inr\<close> holds
  the request, as the first hook left it, with the node and the request to send.
\<close>

definition run_hook :: "('u \<Rightarrow> ('a \<times> 'u) res) \<Rightarrow> ('l, 'u) model_service \<Rightarrow> ('a \<times> ('l, 'u) model_service) res" where
  "run_hook h s = res_bind (h (ms_usage s)) (\<lambda>(a, u). Inr (a, s\<lparr>ms_usage := u\<rparr>))"

definition start_finish ::
  "('t, 'l, 'u) ms_env \<Rightarrow> start_req \<Rightarrow> string + start_res \<Rightarrow> ('l, 'u) model_service \<Rightarrow> (start_res \<times> ('l, 'u) model_service) res" where
  "start_finish env req answer s =
     (let res = (case answer of Inr r \<Rightarrow> r | Inl _ \<Rightarrow> \<lparr>sres_success = False, sres_metadata = sreq_metadata req\<rparr>)
      in run_hook (u_post_start (e_usage env) req res) s)"

definition start_local ::
  "('t, 'l, 'u) ms_env \<Rightarrow> u64 \<Rightarrow> u32_range option \<Rightarrow> ('l, 'u) model_service \<Rightarrow> (bool \<times> ('l, 'u) model_service) res" where
  "start_local env session local s = (case local of
       None \<Rightarrow> Inr (True, s)
     | Some _ \<Rightarrow> res_bind (lw_start (e_layers env) session chat_cfg_default (ms_layers s)) (\<lambda>(r, l).
         case r of Inl _ \<Rightarrow> Inr (False, s\<lparr>ms_layers := l\<rparr>) | Inr _ \<Rightarrow> Inr (True, s\<lparr>ms_layers := l\<rparr>)))"

definition start_begin ::
  "('t, 'l, 'u) ms_env \<Rightarrow> session \<Rightarrow> start_req \<Rightarrow> ('l, 'u) model_service \<Rightarrow>
    ((start_res + start_req \<times> node_id \<times> start_req) \<times> ('l, 'u) model_service) res" where
  "start_begin env remote_session req0 s =
     res_bind (run_hook (u_pre_start (e_usage env) req0) s) (\<lambda>(hooked, s).
     case hooked of
       Inl _ \<Rightarrow> Inr (Inl start_failed, s)
     | Inr req \<Rightarrow>
         res_bind (select_next (ms_router s) (sreq_from_layer req)) (\<lambda>found.
         case found of
           None \<Rightarrow> Inr (Inl start_failed, s)
         | Some route \<Rightarrow>
             let s = s\<lparr>ms_sessions := snd (shm_insert (sreq_session req)
                   \<lparr>sc_chat_id = sreq_chat_id req, sc_local = rp_local route,
                    sc_remote = map_option (\<lambda>(d, _). (d, remote_session)) (rp_remote route)\<rparr> (ms_sessions s))\<rparr>
             in res_bind (start_local env (sreq_session req) (rp_local route) s) (\<lambda>(ok, s).
                if \<not> ok then Inr (Inl start_failed, s)
                else (case rp_remote route of
                    Some (dest, layers, _, _) \<Rightarrow>
                      Inr (Inr (req, dest,
                        \<lparr>sreq_session = remote_session, sreq_chat_id = sreq_chat_id req,
                         sreq_from_layer = rstart layers, sreq_metadata = sreq_metadata req,
                         sreq_chain_index = sreq_chain_index req + 1, sreq_max_tokens = sreq_max_tokens req\<rparr>), s)
                  | None \<Rightarrow>
                      res_bind (start_finish env req (Inr \<lparr>sres_success = True, sres_metadata = sreq_metadata req\<rparr>) s)
                        (\<lambda>(res, s). Inr (Inl res, s))))))"

section \<open>FORWARD\<close>

definition forward_failed :: forward_res where
  "forward_failed = \<lparr>fres_success = False, fres_embedding = [], fres_metadata = []\<rparr>"

text \<open>The local layers: decoding, the worker's own error and encoding are unwrapped.\<close>

definition forward_local ::
  "('t, 'l, 'u) ms_env \<Rightarrow> forward_req \<Rightarrow> ('l, 'u) model_service \<Rightarrow> (bytes \<times> ('l, 'u) model_service) res" where
  "forward_local env req s =
     res_bind (tensor_decode (e_tensor env) (freq_embedding req)) (\<lambda>t.
     res_bind (lw_forward (e_layers env) (freq_session req) (freq_step req) (t, freq_seq_len req) (freq_index_pos req) (ms_layers s)) (\<lambda>(r, l).
     case r of
       Inl _ \<Rightarrow> Inl UnwrapOnErr
     | Inr (t', _) \<Rightarrow>
         let s = more_token_out (s\<lparr>ms_layers := l\<rparr>)
         in res_bind (tensor_encode (e_tensor env) t') (\<lambda>b. Inr (b, s))))"

definition forward_finish ::
  "('t, 'l, 'u) ms_env \<Rightarrow> u64 \<Rightarrow> forward_req \<Rightarrow> forward_res \<Rightarrow> ('l, 'u) model_service \<Rightarrow> (forward_res \<times> ('l, 'u) model_service) res" where
  "forward_finish env chat_id req res s = run_hook (u_post_forward (e_usage env) chat_id req res) s"

definition forward_answered ::
  "('t, 'l, 'u) ms_env \<Rightarrow> u64 \<Rightarrow> forward_req \<Rightarrow> string + forward_res \<Rightarrow> ('l, 'u) model_service \<Rightarrow>
    (forward_res \<times> ('l, 'u) model_service) res" where
  "forward_answered env chat_id req answer s =
     (let res = (case answer of Inr r \<Rightarrow> r
                 | Inl _ \<Rightarrow> \<lparr>fres_success = False, fres_embedding = [], fres_metadata = freq_metadata req\<rparr>)
      in forward_finish env chat_id req res (more_net_in (length (fres_embedding res)) s))"

definition forward_begin ::
  "('t, 'l, 'u) ms_env \<Rightarrow> forward_req \<Rightarrow> ('l, 'u) model_service \<Rightarrow>
    ((forward_res + u64 \<times> forward_req \<times> node_id \<times> forward_req) \<times> ('l, 'u) model_service) res" where
  "forward_begin env req0 s = (case get_clone (ms_sessions s) (freq_session req0) of
       None \<Rightarrow> Inr (Inl forward_failed, s)
     | Some container \<Rightarrow>
         res_bind (run_hook (u_pre_forward (e_usage env) (sc_chat_id container) req0) s) (\<lambda>(hooked, s).
         case hooked of
           Inl _ \<Rightarrow> Inr (Inl forward_failed, s)
         | Inr req \<Rightarrow>
             res_bind (case sc_local container of
                 Some _ \<Rightarrow> forward_local env req s
               | None \<Rightarrow> Inr (freq_embedding req, s)) (\<lambda>(embedding, s).
             case sc_remote container of
               Some (dest, remote_session) \<Rightarrow>
                 Inr (Inr (sc_chat_id container, req, dest,
                   \<lparr>freq_session = remote_session, freq_step = freq_step req, freq_embedding = embedding,
                    freq_index_pos = freq_index_pos req, freq_seq_len = freq_seq_len req,
                    freq_metadata = freq_metadata req, freq_chain_index = freq_chain_index req + 1\<rparr>),
                   more_net_out (length embedding) s)
             | None \<Rightarrow>
                 res_bind (forward_finish env (sc_chat_id container) req
                     \<lparr>fres_success = True, fres_embedding = embedding, fres_metadata = freq_metadata req\<rparr> s)
                   (\<lambda>(res, s). Inr (Inl res, s)))))"

section \<open>END\<close>

definition end_failed :: end_res where
  "end_failed = \<lparr>eres_success = False, eres_metadata = []\<rparr>"

definition end_finish ::
  "('t, 'l, 'u) ms_env \<Rightarrow> u64 \<Rightarrow> end_req \<Rightarrow> string + end_res \<Rightarrow> ('l, 'u) model_service \<Rightarrow> (end_res \<times> ('l, 'u) model_service) res" where
  "end_finish env chat_id req answer s =
     (let res = (case answer of Inr r \<Rightarrow> r | Inl _ \<Rightarrow> \<lparr>eres_success = False, eres_metadata = ereq_metadata req\<rparr>)
      in run_hook (u_post_end (e_usage env) chat_id req res) s)"

definition end_local ::
  "('t, 'l, 'u) ms_env \<Rightarrow> u64 \<Rightarrow> u32_range option \<Rightarrow> ('l, 'u) model_service \<Rightarrow> ('l, 'u) model_service res" where
  "end_local env session local s = (case local of
       None \<Rightarrow> Inr s
     | Some _ \<Rightarrow> res_bind (lw_finish (e_layers env) session (ms_layers s)) (\<lambda>l. Inr (s\<lparr>ms_layers := l\<rparr>)))"

definition end_begin ::
  "('t, 'l, 'u) ms_env \<Rightarrow> end_req \<Rightarrow> ('l, 'u) model_service \<Rightarrow>
    ((end_res + u64 \<times> end_req \<times> node_id \<times> end_req) \<times> ('l, 'u) model_service) res" where
  "end_begin env req0 s =
     (let (removed, sessions) = shm_remove (ereq_session req0) (ms_sessions s);
          s = s\<lparr>ms_sessions := sessions\<rparr>
      in case removed of
         None \<Rightarrow> Inr (Inl end_failed, s)
       | Some container \<Rightarrow>
           res_bind (run_hook (u_pre_end (e_usage env) (sc_chat_id container) req0) s) (\<lambda>(hooked, s).
           case hooked of
             Inl _ \<Rightarrow> Inr (Inl end_failed, s)
           | Inr req \<Rightarrow>
               res_bind (end_local env (ereq_session req) (sc_local container) s) (\<lambda>s.
                 case sc_remote container of
                   Some (dest, remote_session) \<Rightarrow>
                     Inr (Inr (sc_chat_id container, req, dest,
                       \<lparr>ereq_session = remote_session, ereq_metadata = ereq_metadata req,
                        ereq_chain_index = ereq_chain_index req + 1\<rparr>), s)
                 | None \<Rightarrow>
                     res_bind (end_finish env (sc_chat_id container) req
                         (Inr \<lparr>eres_success = True, eres_metadata = ereq_metadata req\<rparr>) s)
                       (\<lambda>(res, s). Inr (Inl res, s)))))"

section \<open>Dispatch of remote requests\<close>

text \<open>
  \<open>on_req\<close> decodes the payload for the command, runs the handler and encodes its
  response. The three handlers are arguments, so that the dispatch reads as in the code
  and the handlers can be composed with the rest of the network.
\<close>

definition unwrap_decode :: "'a option \<Rightarrow> 'a res" where
  "unwrap_decode m = unwrap_option UnwrapOnErr m"

definition rpc_ok :: "u32 \<Rightarrow> bytes \<Rightarrow> rpc_res" where
  "rpc_ok seq payload = \<lparr>rres_seq = seq, rres_success = True, rres_payload = payload\<rparr>"

definition ms_on_req ::
  "llm_codec \<Rightarrow> (start_req \<Rightarrow> 's \<Rightarrow> (start_res \<times> 's) res) \<Rightarrow> (forward_req \<Rightarrow> 's \<Rightarrow> (forward_res \<times> 's) res) \<Rightarrow>
    (end_req \<Rightarrow> 's \<Rightarrow> (end_res \<times> 's) res) \<Rightarrow> (nat \<Rightarrow> 's \<Rightarrow> 's) \<Rightarrow> (nat \<Rightarrow> 's \<Rightarrow> 's) \<Rightarrow>
    rpc_req \<Rightarrow> 's \<Rightarrow> (rpc_res \<times> 's) res" where
  "ms_on_req codec start forward finish net_in net_out req s =
     (if rreq_cmd req = ''START'' then
        res_bind (unwrap_decode (dec_start_req codec (rreq_payload req))) (\<lambda>r.
        res_bind (start r s) (\<lambda>(res, s). Inr (rpc_ok (rreq_seq req) (enc_start_res codec res), s)))
      else if rreq_cmd req = ''FORWARD'' then
        let s = net_in (length (rreq_payload req)) s in
        res_bind (unwrap_decode (dec_forward_req codec (rreq_payload req))) (\<lambda>r.
        res_bind (forward r s) (\<lambda>(res, s).
          let payload = enc_forward_res codec res
          in Inr (rpc_ok (rreq_seq req) payload, net_out (length payload) s)))
      else if rreq_cmd req = ''END'' then
        res_bind (unwrap_decode (dec_end_req codec (rreq_payload req))) (\<lambda>r.
        res_bind (finish r s) (\<lambda>(res, s). Inr (rpc_ok (rreq_seq req) (enc_end_res codec res), s)))
      else Inr (\<lparr>rres_seq = rreq_seq req, rres_success = False, rres_payload = []\<rparr>, s))"

section \<open>Whole handlers\<close>

text \<open>The handlers with the answers of the next hop as a function of what it is sent.\<close>

definition ms_start ::
  "('t, 'l, 'u) ms_env \<Rightarrow> session \<Rightarrow> (node_id \<Rightarrow> start_req \<Rightarrow> string + start_res) \<Rightarrow> start_req \<Rightarrow>
    ('l, 'u) model_service \<Rightarrow> (start_res \<times> ('l, 'u) model_service) res" where
  "ms_start env remote_session answer req s =
     res_bind (start_begin env remote_session req s) (\<lambda>(r, s). case r of
         Inl res \<Rightarrow> Inr (res, s)
       | Inr (req', dest, out) \<Rightarrow> start_finish env req' (answer dest out) s)"

definition ms_forward ::
  "('t, 'l, 'u) ms_env \<Rightarrow> (node_id \<Rightarrow> forward_req \<Rightarrow> string + forward_res) \<Rightarrow> forward_req \<Rightarrow>
    ('l, 'u) model_service \<Rightarrow> (forward_res \<times> ('l, 'u) model_service) res" where
  "ms_forward env answer req s =
     res_bind (forward_begin env req s) (\<lambda>(r, s). case r of
         Inl res \<Rightarrow> Inr (res, s)
       | Inr (chat_id, req', dest, out) \<Rightarrow> forward_answered env chat_id req' (answer dest out) s)"

definition ms_end ::
  "('t, 'l, 'u) ms_env \<Rightarrow> (node_id \<Rightarrow> end_req \<Rightarrow> string + end_res) \<Rightarrow> end_req \<Rightarrow>
    ('l, 'u) model_service \<Rightarrow> (end_res \<times> ('l, 'u) model_service) res" where
  "ms_end env answer req s =
     res_bind (end_begin env req s) (\<lambda>(r, s). case r of
         Inl res \<Rightarrow> Inr (res, s)
       | Inr (chat_id, req', dest, out) \<Rightarrow> end_finish env chat_id req' (answer dest out) s)"

section \<open>What each part does to the sessions\<close>

lemma run_hook_Inr:
  "run_hook h s = Inr (a, s') \<longleftrightarrow> (\<exists>u. h (ms_usage s) = Inr (a, u) \<and> s' = s\<lparr>ms_usage := u\<rparr>)"
  by (auto simp: run_hook_def res_bind_Inr_iff)

lemma stats_sel [simp]:
  "ms_sessions (more_net_in n s) = ms_sessions s" "ms_sessions (more_net_out n s) = ms_sessions s"
  "ms_sessions (more_token_out s) = ms_sessions s"
  "ms_router (more_net_in n s) = ms_router s" "ms_router (more_net_out n s) = ms_router s"
  "ms_router (more_token_out s) = ms_router s"
  "ms_layers (more_net_in n s) = ms_layers s" "ms_layers (more_net_out n s) = ms_layers s"
  "ms_layers (more_token_out s) = ms_layers s"
  "ms_usage (more_net_in n s) = ms_usage s" "ms_usage (more_net_out n s) = ms_usage s"
  "ms_usage (more_token_out s) = ms_usage s"
  by (simp_all add: more_net_in_def more_net_out_def more_token_out_def)

lemma start_local_sel:
  assumes "start_local env i loc s = Inr (ok, s')"
  shows "ms_sessions s' = ms_sessions s" "ms_router s' = ms_router s" "ms_usage s' = ms_usage s"
  using assms by (auto simp: start_local_def elim!: res_bind_InrE split: option.splits sum.splits)

text \<open>The cases of \<open>start_begin\<close>.\<close>

lemma start_begin_Inr:
  assumes "start_begin env rs req0 s = Inr (r, s')"
  obtains (refused) "r = Inl start_failed" "ms_sessions s' = ms_sessions s" "ms_router s' = ms_router s"
    | (no_route) req u where "u_pre_start (e_usage env) req0 (ms_usage s) = Inr (Inr req, u)" "r = Inl start_failed"
        "select_next (ms_router s) (sreq_from_layer req) = Inr None" "s' = s\<lparr>ms_usage := u\<rparr>"
    | (routed) req u route ok s1 where "u_pre_start (e_usage env) req0 (ms_usage s) = Inr (Inr req, u)"
        "select_next (ms_router s) (sreq_from_layer req) = Inr (Some route)"
        "start_local env (sreq_session req) (rp_local route) (s\<lparr>ms_usage := u, ms_sessions := snd (shm_insert (sreq_session req)
           \<lparr>sc_chat_id = sreq_chat_id req, sc_local = rp_local route,
            sc_remote = map_option (\<lambda>(d, _). (d, rs)) (rp_remote route)\<rparr> (ms_sessions s))\<rparr>) = Inr (ok, s1)"
        "if \<not> ok then r = Inl start_failed \<and> s' = s1
         else (case rp_remote route of
             Some (dest, layers, _, _) \<Rightarrow> s' = s1 \<and> r = Inr (req, dest,
               \<lparr>sreq_session = rs, sreq_chat_id = sreq_chat_id req, sreq_from_layer = rstart layers,
                sreq_metadata = sreq_metadata req, sreq_chain_index = sreq_chain_index req + 1,
                sreq_max_tokens = sreq_max_tokens req\<rparr>)
           | None \<Rightarrow> \<exists>res. r = Inl res \<and>
               start_finish env req (Inr \<lparr>sres_success = True, sres_metadata = sreq_metadata req\<rparr>) s1 = Inr (res, s'))"
proof -
  from assms obtain hooked u where h: "u_pre_start (e_usage env) req0 (ms_usage s) = Inr (hooked, u)"
    by (auto simp: start_begin_def res_bind_Inr_iff run_hook_def)
  note unf = assms[unfolded start_begin_def run_hook_def h res_bind_simps prod.case]
  show thesis
  proof (cases hooked)
    case (Inl e)
    then have "r = Inl start_failed" "s' = s\<lparr>ms_usage := u\<rparr>" using unf by simp_all
    then show ?thesis by (intro refused) simp_all
  next
    case (Inr req)
    then obtain found where f: "select_next (ms_router s) (sreq_from_layer req) = Inr found"
      using unf by (auto simp: res_bind_Inr_iff)
    note unf' = unf[unfolded Inr sum.case, simplified, unfolded f res_bind_simps]
    show ?thesis
    proof (cases found)
      case None
      then show ?thesis using unf' h f Inr by (intro no_route[of req u]) simp_all
    next
      case (Some route)
      obtain ok s1 where l: "start_local env (sreq_session req) (rp_local route) (s\<lparr>ms_usage := u, ms_sessions := snd (shm_insert (sreq_session req)
           \<lparr>sc_chat_id = sreq_chat_id req, sc_local = rp_local route,
            sc_remote = map_option (\<lambda>(d, _). (d, rs)) (rp_remote route)\<rparr> (ms_sessions s))\<rparr>) = Inr (ok, s1)"
        using unf' Some by (auto simp: Let_def elim!: res_bind_InrE)
      show ?thesis
      proof (rule routed[of req u route ok s1])
        show "if \<not> ok then r = Inl start_failed \<and> s' = s1
         else (case rp_remote route of
             Some (dest, layers, _, _) \<Rightarrow> s' = s1 \<and> r = Inr (req, dest,
               \<lparr>sreq_session = rs, sreq_chat_id = sreq_chat_id req, sreq_from_layer = rstart layers,
                sreq_metadata = sreq_metadata req, sreq_chain_index = sreq_chain_index req + 1,
                sreq_max_tokens = sreq_max_tokens req\<rparr>)
           | None \<Rightarrow> \<exists>res. r = Inl res \<and>
               start_finish env req (Inr \<lparr>sres_success = True, sres_metadata = sreq_metadata req\<rparr>) s1 = Inr (res, s'))"
          using unf' by (auto simp: Some l Let_def res_bind_Inr_iff split: option.splits)
      qed (use h f Inr Some l in simp_all)
    qed
  qed
qed

lemma start_finish_sel:
  assumes "start_finish env req a s = Inr (res, s')"
  shows "ms_sessions s' = ms_sessions s" "ms_router s' = ms_router s" "ms_layers s' = ms_layers s"
  using assms by (auto simp: start_finish_def Let_def run_hook_Inr)

lemma end_finish_sel:
  assumes "end_finish env c req a s = Inr (res, s')"
  shows "ms_sessions s' = ms_sessions s" "ms_layers s' = ms_layers s"
  using assms by (auto simp: end_finish_def Let_def run_hook_Inr)

text \<open>The cases of \<open>end_begin\<close>.\<close>

lemma end_local_Inr:
  assumes "end_local env i loc s = Inr s'"
  obtains l where "s' = s\<lparr>ms_layers := l\<rparr>"
    "if loc = None then l = ms_layers s else lw_finish (e_layers env) i (ms_layers s) = Inr l"
  using assms by (cases loc) (auto simp: end_local_def elim!: res_bind_InrE)

lemma end_begin_Inr:
  assumes "end_begin env req0 s = Inr (r, s')"
  obtains (unknown) "get_clone (ms_sessions s) (ereq_session req0) = None" "r = Inl end_failed"
      "ms_sessions s' = snd (shm_remove (ereq_session req0) (ms_sessions s))" "ms_layers s' = ms_layers s"
    | (refused) container where "get_clone (ms_sessions s) (ereq_session req0) = Some container" "r = Inl end_failed"
      "ms_sessions s' = snd (shm_remove (ereq_session req0) (ms_sessions s))" "ms_layers s' = ms_layers s"
    | (known) container req u l t where "get_clone (ms_sessions s) (ereq_session req0) = Some container"
      "u_pre_end (e_usage env) (sc_chat_id container) req0 (ms_usage s) = Inr (Inr req, u)"
      "if sc_local container = None then l = ms_layers s else lw_finish (e_layers env) (ereq_session req) (ms_layers s) = Inr l"
      "t = s\<lparr>ms_sessions := snd (shm_remove (ereq_session req0) (ms_sessions s)), ms_usage := u, ms_layers := l\<rparr>"
      "case sc_remote container of
         Some (dest, remote_session) \<Rightarrow> s' = t \<and>
           r = Inr (sc_chat_id container, req, dest,
             \<lparr>ereq_session = remote_session, ereq_metadata = ereq_metadata req, ereq_chain_index = ereq_chain_index req + 1\<rparr>)
       | None \<Rightarrow> \<exists>res. r = Inl res \<and>
           end_finish env (sc_chat_id container) req (Inr \<lparr>eres_success = True, eres_metadata = ereq_metadata req\<rparr>) t = Inr (res, s')"
proof -
  define removed sessions where rs: "removed = get_clone (ms_sessions s) (ereq_session req0)"
    "sessions = snd (shm_remove (ereq_session req0) (ms_sessions s))"
  let ?s = "s\<lparr>ms_sessions := sessions\<rparr>"
  have rm: "shm_remove (ereq_session req0) (ms_sessions s) = (removed, sessions)"
    by (simp add: rs shm_remove_def get_clone_def)
  note unf = assms[unfolded end_begin_def rm Let_def prod.case]
  show thesis
  proof (cases removed)
    case None
    then show ?thesis using unf by (intro unknown) (auto simp flip: rs)
  next
    case (Some container)
    from unf Some obtain x where x: "run_hook (u_pre_end (e_usage env) (sc_chat_id container) req0) ?s = Inr x"
      by (auto elim: res_bind_InrE)
    obtain hooked u where h: "u_pre_end (e_usage env) (sc_chat_id container) req0 (ms_usage s) = Inr (hooked, u)" "x = (hooked, ?s\<lparr>ms_usage := u\<rparr>)"
      using x by (cases x) (auto simp: run_hook_Inr)
    note unf' = unf[unfolded Some option.case x res_bind_simps h(2) prod.case]
    show ?thesis
    proof (cases hooked)
      case (Inl e)
      then show ?thesis using unf' Some by (intro refused[of container]) (auto simp flip: rs)
    next
      case (Inr req)
      from unf'[unfolded Inr sum.case] obtain t where
        t: "end_local env (ereq_session req) (sc_local container) (?s\<lparr>ms_usage := u\<rparr>) = Inr t"
        by (auto elim: res_bind_InrE)
      then obtain l where l: "t = ?s\<lparr>ms_usage := u, ms_layers := l\<rparr>"
        "if sc_local container = None then l = ms_layers s else lw_finish (e_layers env) (ereq_session req) (ms_layers s) = Inr l"
        by (cases "sc_local container = None") (auto elim!: end_local_Inr)
      have c: "case sc_remote container of
         Some (dest, remote_session) \<Rightarrow> s' = t \<and>
           r = Inr (sc_chat_id container, req, dest,
             \<lparr>ereq_session = remote_session, ereq_metadata = ereq_metadata req, ereq_chain_index = ereq_chain_index req + 1\<rparr>)
       | None \<Rightarrow> \<exists>res. r = Inl res \<and>
           end_finish env (sc_chat_id container) req (Inr \<lparr>eres_success = True, eres_metadata = ereq_metadata req\<rparr>) t = Inr (res, s')"
        using unf'[unfolded Inr sum.case t res_bind_simps] by (cases "sc_remote container") (auto simp: res_bind_Inr_iff)
      show ?thesis
        by (rule known[OF _ _ l(2) _ c]) (use Some h(1) Inr l(1) in \<open>simp_all only: rs\<close>)
    qed
  qed
qed

lemma end_begin_sessions:
  assumes "end_begin env req s = Inr (r, s')"
  shows "ms_sessions s' = snd (shm_remove (ereq_session req) (ms_sessions s))"
  using assms by (cases rule: end_begin_Inr) (auto split: option.splits dest: end_finish_sel(1))

section \<open>Properties\<close>

text \<open>
  C32. With hooks that keep the contract of the trait, a successful START has a route; the
  session is recorded with the route's local layers and next hop, the next hop accepted,
  and what it was asked is to continue the same chat at the layer where the route's remote
  part starts, one step further down the chain.
\<close>

theorem start_success_follows_route:
  assumes us: "usage_service (e_usage env)"
    and st: "ms_start env rs answer req s = Inr (res, s')" and ok: "sres_success res"
  shows "\<exists>route md. select_next (ms_router s) (sreq_from_layer req) = Inr (Some route) \<and>
    get_clone (ms_sessions s') (sreq_session req) =
      Some \<lparr>sc_chat_id = sreq_chat_id req, sc_local = rp_local route,
            sc_remote = map_option (\<lambda>(d, _). (d, rs)) (rp_remote route)\<rparr> \<and>
    (case rp_remote route of
       None \<Rightarrow> True
     | Some (dest, layers, _, _) \<Rightarrow> \<exists>r. sres_success r \<and>
         answer dest \<lparr>sreq_session = rs, sreq_chat_id = sreq_chat_id req, sreq_from_layer = rstart layers,
           sreq_metadata = md, sreq_chain_index = sreq_chain_index req + 1, sreq_max_tokens = sreq_max_tokens req\<rparr> = Inr r)"
proof -
  note us_fields = usage_service.pre_start_fields[OF us]
  have fin: "sres_success x" if "start_finish env q (Inr x) t = Inr (res, t')" for q x t t'
    using that ok usage_service.post_start_success[OF us] by (auto simp: start_finish_def Let_def run_hook_Inr)
  have fin_err: "\<exists>x. a = Inr x" if "start_finish env q a t = Inr (res, t')" for q a t t'
    using that ok usage_service.post_start_success[OF us]
    by (cases a) (fastforce simp: start_finish_def Let_def run_hook_Inr)+
  from st obtain r s1 where b: "start_begin env rs req s = Inr (r, s1)" and
    r: "case r of Inl x \<Rightarrow> res = x \<and> s' = s1 | Inr (q, dest, out) \<Rightarrow> start_finish env q (answer dest out) s1 = Inr (res, s')"
    unfolding ms_start_def by (elim res_bind_InrE) (auto split: sum.splits prod.splits)
  have nf: "res \<noteq> start_failed" using ok by (auto simp: start_failed_def)
  from b show ?thesis
  proof (cases rule: start_begin_Inr)
    case (routed req' u route ok' s2)
    note q = us_fields[OF routed(1)]
    have ok': "ok'" using routed(4) r nf by (cases ok') auto
    have s2: "ms_sessions s2 = snd (shm_insert (sreq_session req)
       \<lparr>sc_chat_id = sreq_chat_id req, sc_local = rp_local route,
        sc_remote = map_option (\<lambda>(d, _). (d, rs)) (rp_remote route)\<rparr> (ms_sessions s))"
      using start_local_sel(1)[OF routed(3)] by (simp add: q)
    show ?thesis
    proof (cases "rp_remote route")
      case None
      then obtain s3 where "start_finish env req' (Inr \<lparr>sres_success = True, sres_metadata = sreq_metadata req'\<rparr>) s2 = Inr (res, s1)" "s' = s1"
        using routed(4) ok' r by auto
      then have "ms_sessions s' = ms_sessions s2" using start_finish_sel(1) by metis
      then show ?thesis using routed(2) None by (auto simp: q s2 get_clone_insert)
    next
      case (Some x)
      obtain dest layers cst lu where x: "x = (dest, layers, cst, lu)" by (cases x) auto
      let ?out = "\<lparr>sreq_session = rs, sreq_chat_id = sreq_chat_id req, sreq_from_layer = rstart layers,
        sreq_metadata = sreq_metadata req', sreq_chain_index = sreq_chain_index req + 1, sreq_max_tokens = sreq_max_tokens req\<rparr>"
      have f: "start_finish env req' (answer dest ?out) s2 = Inr (res, s')"
        using routed(4) ok' r by (simp add: Some x q)
      then obtain y where y: "answer dest ?out = Inr y" using fin_err by blast
      have "sres_success y" by (rule fin) (use f y in simp)
      then show ?thesis using routed(2) y start_finish_sel(1)[OF f] Some
        by (intro exI[of _ route] exI[of _ "sreq_metadata req'"]) (simp add: q s2 get_clone_insert x)
    qed
  qed (use r nf in auto)
qed

text \<open>
  END forgets the session whatever the hooks and the next hop do: afterwards the
  session is unknown, the other sessions are as they were, and a FORWARD or a second END
  of it fails without reaching the layers, the hooks or the next hop.
\<close>

theorem end_forgets_session:
  assumes "ms_end env answer req s = Inr (res, s')"
  shows "get_clone (ms_sessions s') k = (if k = ereq_session req then None else get_clone (ms_sessions s) k) \<and>
    ms_forward env fanswer (freq\<lparr>freq_session := ereq_session req\<rparr>) s' = Inr (forward_failed, s') \<and>
    ms_end env answer' (req'\<lparr>ereq_session := ereq_session req\<rparr>) s' =
      Inr (end_failed, s'\<lparr>ms_sessions := snd (shm_remove (ereq_session req) (ms_sessions s'))\<rparr>)"
proof -
  from assms obtain r s1 where b: "end_begin env req s = Inr (r, s1)" and
    r: "case r of Inl x \<Rightarrow> res = x \<and> s' = s1 | Inr (c, q, dest, out) \<Rightarrow> end_finish env c q (answer dest out) s1 = Inr (res, s')"
    unfolding ms_end_def by (elim res_bind_InrE) (auto split: sum.splits prod.splits)
  have "ms_sessions s' = ms_sessions s1"
    using r by (auto split: sum.splits prod.splits dest: end_finish_sel(1))
  then have ses: "ms_sessions s' = snd (shm_remove (ereq_session req) (ms_sessions s))"
    using end_begin_sessions[OF b] by simp
  then have gone: "get_clone (ms_sessions s') (ereq_session req) = None" by (simp add: get_clone_remove)
  then have "hm_get (shm_map (ms_sessions s')) (ereq_session req) = None" by (simp add: get_clone_def)
  then have "end_begin env (req'\<lparr>ereq_session := ereq_session req\<rparr>) s' =
      Inr (Inl end_failed, s'\<lparr>ms_sessions := snd (shm_remove (ereq_session req) (ms_sessions s'))\<rparr>)"
    by (simp add: end_begin_def shm_remove_def)
  with gone ses show ?thesis
    by (simp add: get_clone_remove ms_forward_def ms_end_def forward_begin_def)
qed

text \<open>
  A FORWARD of a session never changes which sessions exist or where they go, in every
  outcome that is not a panic: success, a refusal by the hooks, or a failing next hop. It
  succeeds only if the session is known.
\<close>

theorem forward_keeps_sessions:
  assumes "ms_forward env answer req s = Inr (res, s')"
  shows "ms_sessions s' = ms_sessions s \<and> ms_router s' = ms_router s \<and>
    (fres_success res \<longrightarrow> get_clone (ms_sessions s) (freq_session req) \<noteq> None)"
proof -
  have fin: "ms_sessions t' = ms_sessions t \<and> ms_router t' = ms_router t"
    if "forward_finish env c q x t = Inr (y, t')" for c q x t y t'
    using that by (auto simp: forward_finish_def run_hook_Inr)
  have loc: "ms_sessions t' = ms_sessions t \<and> ms_router t' = ms_router t"
    if "forward_local env q t = Inr (e, t')" for q t e t'
    using that by (auto simp: forward_local_def Let_def elim!: res_bind_InrE split: prod.splits sum.splits)
  show ?thesis
  proof (cases "get_clone (ms_sessions s) (freq_session req)")
    case None
    then show ?thesis using assms by (auto simp: ms_forward_def forward_begin_def forward_failed_def)
  next
    case (Some container)
    have "ms_sessions s' = ms_sessions s \<and> ms_router s' = ms_router s"
      using assms Some unfolding ms_forward_def forward_begin_def
      by (auto simp: run_hook_Inr forward_answered_def Let_def elim!: res_bind_InrE split: sum.splits prod.splits option.splits
          dest!: fin loc)
    with Some show ?thesis by simp
  qed
qed

end
