(* ===== verification/Layers_Workers.thy ===== *)
theory Layers_Workers
  imports Model_Service
begin

text \<open>
  The computation of the layers: what the trait \<open>ModelLayersWorker\<close> of
  \<^verbatim>\<open>crates/models/src/lib.rs\<close> promises, as the locale \<open>layers_worker\<close>, and the worker
  of the fake model (\<^verbatim>\<open>crates/models/src/fake/mod.rs\<close>).

  The meaning of a model is a function \<open>blk\<close>: layer \<open>i\<close> maps its own cache, a
  position, a sequence length and an embedding to an embedding, or an error, and a new
  cache. \<open>run_layers\<close> applies a list of layers in order and stops at the first error. A
  worker for the layers \<open>L\<close> keeps one cache per session and layer (\<open>view\<close>).
\<close>

section \<open>Running a list of layers\<close>

type_synonym ('k, 't) block = "'k \<Rightarrow> u32 \<Rightarrow> u32 \<Rightarrow> 't \<Rightarrow> (string + 't) \<times> 'k"

fun run_layers ::
  "(nat \<Rightarrow> ('k, 't) block) \<Rightarrow> nat list \<Rightarrow> u32 \<Rightarrow> u32 \<Rightarrow> 't \<Rightarrow> (nat \<Rightarrow> 'k) \<Rightarrow> (string + 't) \<times> (nat \<Rightarrow> 'k)" where
  "run_layers blk [] pos n x C = (Inr x, C)"
| "run_layers blk (i # is) pos n x C = (case blk i (C i) pos n x of
      (Inl e, k) \<Rightarrow> (Inl e, C(i := k))
    | (Inr y, k) \<Rightarrow> run_layers blk is pos n y (C(i := k)))"

lemma run_layers_append:
  "run_layers blk (is @ js) pos n x C = (case run_layers blk is pos n x C of
     (Inl e, D) \<Rightarrow> (Inl e, D) | (Inr y, D) \<Rightarrow> run_layers blk js pos n y D)"
  by (induction "is" arbitrary: x C) (auto split: prod.splits sum.splits)

lemma run_layers_frame: "i \<notin> set is \<Longrightarrow> snd (run_layers blk is pos n x C) i = C i"
  by (induction "is" arbitrary: x C) (auto split: prod.splits sum.splits)

text \<open>Only the caches of the layers that run matter.\<close>

lemma run_layers_cong:
  assumes "\<And>i. i \<in> set is \<Longrightarrow> C i = D i"
  shows "fst (run_layers blk is pos n x C) = fst (run_layers blk is pos n x D)"
    and "i \<in> set is \<Longrightarrow> snd (run_layers blk is pos n x C) i = snd (run_layers blk is pos n x D) i"
proof -
  have "fst (run_layers blk is pos n x C) = fst (run_layers blk is pos n x D) \<and>
    (\<forall>i. C i = D i \<or> i \<in> set is \<longrightarrow> snd (run_layers blk is pos n x C) i = snd (run_layers blk is pos n x D) i)"
    using assms
  proof (induction "is" arbitrary: x C D)
    case (Cons j js)
    then have "C j = D j" by simp
    then obtain r k where b: "blk j (C j) pos n x = (r, k)" "blk j (D j) pos n x = (r, k)" by fastforce
    show ?case
    proof (cases r)
      case (Inl e)
      then show ?thesis using b Cons.prems by auto
    next
      case (Inr y)
      have "fst (run_layers blk js pos n y (C(j := k))) = fst (run_layers blk js pos n y (D(j := k))) \<and>
        (\<forall>i. (C(j := k)) i = (D(j := k)) i \<or> i \<in> set js \<longrightarrow>
           snd (run_layers blk js pos n y (C(j := k))) i = snd (run_layers blk js pos n y (D(j := k))) i)"
        by (rule Cons.IH) (use Cons.prems in simp)
      then show ?thesis using b Inr Cons.prems by auto
    qed
  qed simp
  then show "fst (run_layers blk is pos n x C) = fst (run_layers blk is pos n x D)"
    "i \<in> set is \<Longrightarrow> snd (run_layers blk is pos n x C) i = snd (run_layers blk is pos n x D) i"
    by blast+
qed

lemma run_layers_agree:
  assumes "\<forall>i \<in> set is. C i = D i" "run_layers blk is pos n x D = (q, E)"
  obtains F where "run_layers blk is pos n x C = (q, F)" "\<forall>i \<in> set is. F i = E i"
proof -
  obtain F where "run_layers blk is pos n x C = (q, F)"
    using run_layers_cong(1)[of "is" C D blk pos n x] assms by (cases "run_layers blk is pos n x C") auto
  moreover have "\<forall>i \<in> set is. F i = E i"
    using run_layers_cong(2)[of "is" C D _ blk pos n x] assms calculation by auto
  ultimately show thesis using that by blast
qed

section \<open>The contract of a layers worker\<close>

locale layers_worker =
  fixes ops :: "('t, 'l) layers_ops"
    and L :: "nat list"
    and blk :: "nat \<Rightarrow> ('k, 't) block"
    and init :: "nat \<Rightarrow> 'k"
    and view :: "'l \<Rightarrow> session \<Rightarrow> (nat \<Rightarrow> 'k) option"
    and ok :: "'l \<Rightarrow> bool"
  assumes start_view:
      "ok l \<Longrightarrow> \<exists>l' C. lw_start ops s cfg l = Inr (Inr (), l') \<and> ok l' \<and> view l' s = Some C \<and>
        (\<forall>i \<in> set L. C i = init i) \<and> (\<forall>s'. s' \<noteq> s \<longrightarrow> view l' s' = view l s')"
    and forward_view:
      "ok l \<Longrightarrow> view l s = Some C \<Longrightarrow> run_layers blk L pos n x C = (q, D) \<Longrightarrow>
        \<exists>l' C'. lw_forward ops s step (x, n) pos l = Inr (map_sum id (\<lambda>y. (y, n)) q, l') \<and> ok l' \<and>
          view l' s = Some C' \<and> (\<forall>i \<in> set L. C' i = D i) \<and> (\<forall>s'. s' \<noteq> s \<longrightarrow> view l' s' = view l s')"
    and finish_view:
      "ok l \<Longrightarrow> \<exists>l'. lw_finish ops s l = Inr l' \<and> ok l' \<and> (\<forall>s'. s' \<noteq> s \<longrightarrow> view l' s' = view l s')"
begin

text \<open>A step of a session that succeeds leaves every other session as it was and returns what the layers compute.\<close>

lemma forward_success:
  assumes "ok l" "view l s = Some C" "run_layers blk L pos n x C = (Inr y, D)"
  obtains l' C' where "lw_forward ops s step (x, n) pos l = Inr (Inr (y, n), l')" "ok l'" "view l' s = Some C'"
    "\<forall>i \<in> set L. C' i = D i" "\<forall>s'. s' \<noteq> s \<longrightarrow> view l' s' = view l s'"
  using forward_view[OF assms, of step] by auto

end

section \<open>The contract of one session\<close>

text \<open>
  What a chat relies on: the worker, or the network behind it, runs the layers of the model
  for one session. \<open>inv l C\<close> says that the state \<open>l\<close> holds the caches \<open>C\<close> of the session.
\<close>

locale session_layers =
  fixes ops :: "('t, 'l) layers_ops"
    and L :: "nat list"
    and blk :: "nat \<Rightarrow> ('k, 't) block"
    and init :: "nat \<Rightarrow> 'k"
    and s :: session
    and pre :: "'l \<Rightarrow> bool"
    and inv :: "'l \<Rightarrow> (nat \<Rightarrow> 'k) \<Rightarrow> bool"
  assumes start_ok: "pre l \<Longrightarrow> \<exists>l'. lw_start ops s cfg l = Inr (Inr (), l') \<and> inv l' init"
    and forward_ok: "inv l C \<Longrightarrow> run_layers blk L pos n x C = (Inr y, D) \<Longrightarrow>
      \<exists>l'. lw_forward ops s step (x, n) pos l = Inr (Inr (y, n), l') \<and> inv l' D"
    and finish_ok: "inv l C \<Longrightarrow> \<exists>l'. lw_finish ops s l = Inr l'"

text \<open>A worker keeps the contract for each of its sessions.\<close>

sublocale layers_worker \<subseteq> session: session_layers ops L blk init s ok
  "\<lambda>l C. ok l \<and> (\<exists>C'. view l s = Some C' \<and> (\<forall>i \<in> set L. C' i = C i))" for s
proof unfold_locales
  fix l C pos n x y D step
  assume inv: "ok l \<and> (\<exists>C'. view l s = Some C' \<and> (\<forall>i \<in> set L. C' i = C i))"
    and run: "run_layers blk L pos n x C = (Inr y, D)"
  then obtain C' where C': "view l s = Some C'" "\<forall>i \<in> set L. C' i = C i" by blast
  obtain F where F: "run_layers blk L pos n x C' = (Inr y, F)" "\<forall>i \<in> set L. F i = D i"
    by (rule run_layers_agree[OF C'(2) run])
  obtain l' C'' where "lw_forward ops s step (x, n) pos l = Inr (Inr (y, n), l')" "ok l'" "view l' s = Some C''"
    "\<forall>i \<in> set L. C'' i = F i"
    using forward_success[OF _ C'(1) F(1), of step] inv by metis
  then show "\<exists>l'. lw_forward ops s step (x, n) pos l = Inr (Inr (y, n), l') \<and>
      ok l' \<and> (\<exists>C'. view l' s = Some C' \<and> (\<forall>i \<in> set L. C' i = D i))"
    using F(2) by auto
qed (use start_view finish_view in blast)+

section \<open>The fake worker\<close>

definition fake_start :: "session \<Rightarrow> chat_cfg \<Rightarrow> u32_range \<Rightarrow> ((string + unit) \<times> u32_range) res" where
  "fake_start session cfg l = Inr (Inr (), l)"

definition fake_forward :: "session \<Rightarrow> u32 \<Rightarrow> 't \<times> u32 \<Rightarrow> u32 \<Rightarrow> u32_range \<Rightarrow> ((string + ('t \<times> u32)) \<times> u32_range) res" where
  "fake_forward session step xs index_pos l = Inr (Inr xs, l)"

definition fake_finish :: "session \<Rightarrow> u32_range \<Rightarrow> u32_range res" where
  "fake_finish session l = Inr l"

definition fake_ops :: "('t, u32_range) layers_ops" where
  "fake_ops = \<lparr>lw_start = fake_start, lw_forward = fake_forward, lw_finish = fake_finish\<rparr>"

lemma run_layers_id: "run_layers (\<lambda>_ _ _ _ x. (Inr x, ())) is pos n x C = (Inr x, C)"
  by (induction "is" arbitrary: C) (simp_all add: fun_eq_iff)

interpretation fake: layers_worker fake_ops L "\<lambda>_ _ _ _ x. (Inr x, ())" "\<lambda>_. ()" "\<lambda>_ _. Some (\<lambda>_. ())" "\<lambda>_. True" for L
  by unfold_locales (auto simp: fake_ops_def fake_start_def fake_forward_def fake_finish_def run_layers_id)

section \<open>A network of two fake workers\<close>

text \<open>
  The node \<open>a\<close> has layer 0 of a model of two layers and knows that \<open>b\<close> has layer 1. The
  payload codec is not used by the handlers; the embeddings are those of \<open>vec_env\<close>.
\<close>

definition fake_env :: "(bytes, u32_range, unit) ms_env" where
  "fake_env = \<lparr>e_layers = fake_ops, e_usage = passthrough_ops, e_tensor = vec_env,
     e_codec = \<lparr>dec_start_req = \<lambda>_. None, enc_start_res = \<lambda>_. [], dec_forward_req = \<lambda>_. None, enc_forward_res = \<lambda>_. [],
       dec_end_req = \<lambda>_. None, enc_end_res = \<lambda>_. []\<rparr>,
     e_tps = \<lambda>_ _. 0\<rparr>"

definition router_a :: "node_id route_table" where
  "router_a = \<lparr>remote_layers = [\<lparr>remotes = [], lrp_next = None\<rparr>,
      \<lparr>remotes = [(''b'', \<lparr>cost = 1, last_updated = 100\<rparr>)], lrp_next = Some (''b'', \<lparr>cost = 1, last_updated = 100\<rparr>)\<rparr>],
     local_layers = mk_range 0 1\<rparr>"

definition router_b :: "node_id route_table" where
  "router_b = rt_new 2 (mk_range 1 2)"

definition node_a :: "(u32_range, unit) model_service" where
  "node_a = ms_new (mk_range 0 1) router_a ()"

definition node_b :: "(u32_range, unit) model_service" where
  "node_b = ms_new (mk_range 1 2) router_b ()"

definition demo_start :: start_req where
  "demo_start = \<lparr>sreq_session = 5, sreq_chat_id = 5, sreq_from_layer = 0, sreq_metadata = [], sreq_chain_index = 0, sreq_max_tokens = 10\<rparr>"

definition started_a :: "(u32_range, unit) model_service" where
  "started_a = node_a\<lparr>ms_sessions := \<lparr>shm_map = [(5, \<lparr>sc_chat_id = 5, sc_local = Some (mk_range 0 1), sc_remote = Some (''b'', 7)\<rparr>)]\<rparr>\<rparr>"

lemmas fake_simps = fake_env_def fake_ops_def fake_start_def fake_forward_def fake_finish_def passthrough_defs

lemma router_a_select [simp]:
  "select_next router_a 0 = Inr (Some \<lparr>rp_local = Some (mk_range 0 1), rp_remote = Some (''b'', mk_range 1 2, 1, 100)\<rparr>)"
  by (simp add: router_a_def select_next_def range_contains_def model_layers_def vec_index_def)

lemma router_b_select [simp]:
  "select_next router_b 1 = Inr (Some \<lparr>rp_local = Some (mk_range 1 2), rp_remote = None\<rparr>)"
  by (simp add: router_b_def rt_new_def select_next_def range_contains_def model_layers_def)

lemma demo_start_accepted:
  "ms_start fake_env 7 (\<lambda>_ _. Inr \<lparr>sres_success = True, sres_metadata = []\<rparr>) demo_start node_a =
     Inr (\<lparr>sres_success = True, sres_metadata = []\<rparr>, started_a)"
  by (simp add: ms_start_def start_begin_def start_finish_def start_local_def run_hook_def fake_simps node_a_def ms_new_def
      demo_start_def started_a_def shm_defs)

theorem start_success_follows_route_witness:
  "get_clone (ms_sessions started_a) 5 = Some \<lparr>sc_chat_id = 5, sc_local = Some (mk_range 0 1), sc_remote = Some (''b'', 7)\<rparr>"
proof -
  have us: "usage_service (e_usage fake_env)" by (simp add: fake_env_def pass.usage_service_axioms)
  show ?thesis
    using start_success_follows_route[OF us demo_start_accepted] by (auto simp: demo_start_def node_a_def ms_new_def)
qed

text \<open>
  When the next hop refuses, the session stays in the table of this node, with its layers
  started, although the caller is told that there is none.
\<close>

lemma refused_start_leaks_session:
  "ms_start fake_env 7 (\<lambda>_ _. Inr \<lparr>sres_success = False, sres_metadata = []\<rparr>) demo_start node_a =
     Inr (\<lparr>sres_success = False, sres_metadata = []\<rparr>, started_a) \<and> get_clone (ms_sessions started_a) 5 \<noteq> None"
  by (simp add: ms_start_def start_begin_def start_finish_def start_local_def run_hook_def fake_simps node_a_def ms_new_def
      demo_start_def started_a_def shm_defs)

definition demo_end :: end_req where
  "demo_end = \<lparr>ereq_session = 5, ereq_metadata = [], ereq_chain_index = 0\<rparr>"

definition demo_forward :: forward_req where
  "demo_forward = \<lparr>freq_session = 5, freq_step = 0, freq_embedding = vec_ser \<lparr>tb_dims = [2], tb_buf = [3, 4], tb_dtype = U8\<rparr>,
     freq_index_pos = 0, freq_seq_len = 2, freq_metadata = [], freq_chain_index = 0\<rparr>"

theorem end_forgets_session_witness:
  "ms_forward fake_env (\<lambda>_ _. Inl []) demo_forward node_a = Inr (forward_failed, node_a)"
proof -
  have e: "ms_end fake_env (\<lambda>_ _. Inr \<lparr>eres_success = True, eres_metadata = []\<rparr>) demo_end started_a =
      Inr (\<lparr>eres_success = True, eres_metadata = []\<rparr>, node_a)"
    by (simp add: ms_end_def end_begin_def end_local_def end_finish_def run_hook_def fake_simps started_a_def node_a_def
        ms_new_def demo_end_def shm_defs)
  have "demo_forward\<lparr>freq_session := ereq_session demo_end\<rparr> = demo_forward" by (simp add: demo_forward_def demo_end_def)
  then show ?thesis
    using end_forgets_session[OF e, where fanswer = "\<lambda>_ _. Inl []" and freq = demo_forward] by metis
qed

theorem forward_keeps_sessions_witness:
  "\<exists>res s'. ms_forward fake_env (\<lambda>_ _. Inl ''lost'') demo_forward started_a = Inr (res, s') \<and> \<not> fres_success res \<and>
     ms_sessions s' = ms_sessions started_a"
proof -
  have "\<exists>res s'. ms_forward fake_env (\<lambda>_ _. Inl ''lost'') demo_forward started_a = Inr (res, s') \<and> \<not> fres_success res"
    by (simp add: ms_forward_def forward_begin_def forward_local_def forward_answered_def forward_finish_def run_hook_def fake_simps
        started_a_def node_a_def ms_new_def demo_forward_def shm_defs tensor_decode_def tensor_encode_def
        tensor_buf_try_from_def tensor_buf_from_def to_tensor_def to_vec_def vec_env_def vec_roundtrip unwrap_option_def)
  then show ?thesis using forward_keeps_sessions by blast
qed

end
