(* ===== verification/Inference_Chain.thy ===== *)
theory Inference_Chain
  imports Layers_Workers
begin

text \<open>
  A network of workers: the handlers of \<open>Model_Service\<close> composed along the chain of next
  hops, as the remote calls of \<^verbatim>\<open>crates/worker/src/model_service.rs\<close> compose them. The
  theorems say that a chain whose nodes serve consecutive layers computes what one machine
  with all the layers computes, step after step, with the caches spread over the nodes.

  \<open>net_start\<close>, \<open>net_forward\<close> and \<open>net_end\<close> run the handler of a node, run the remote
  call on the next node, and resume the handler. Between the two halves of a handler the
  state of the node is the one the rest of the chain left, so a chain that comes back to a
  node is covered. A panic ends the task of the node it happens on; the node that sent the
  request waits for ever (\<open>NoAnswer\<close>), as it does when the next node is not there. The list of random session numbers of \<open>net_start\<close>, one per node, and
  the number of \<open>net_forward\<close> and \<open>net_end\<close> bound the length of the chain; the length
  of the chain is enough.
\<close>

section \<open>The network\<close>

type_synonym ('l, 'u) network = "node_id \<Rightarrow> ('l, 'u) model_service option"

fun net_start ::
  "(node_id \<Rightarrow> ('t, 'l, 'u) ms_env) \<Rightarrow> session list \<Rightarrow> node_id \<Rightarrow> start_req \<Rightarrow> ('l, 'u) network \<Rightarrow>
    (start_res \<times> ('l, 'u) network) res" where
  "net_start envs [] n req net = Inl NoAnswer"
| "net_start envs (r # rs) n req net = (case net n of
      None \<Rightarrow> Inl NoAnswer
    | Some s \<Rightarrow> (case start_begin (envs n) r req s of
        Inl p \<Rightarrow> Inl p
      | Inr (Inl res, s') \<Rightarrow> Inr (res, net(n \<mapsto> s'))
      | Inr (Inr (req', dest, out), s') \<Rightarrow>
          (case net_start envs rs dest out (net(n \<mapsto> s')) of
             Inl _ \<Rightarrow> Inl NoAnswer
           | Inr (res, net') \<Rightarrow> (case net' n of
               None \<Rightarrow> Inl NoAnswer
             | Some s2 \<Rightarrow> (case start_finish (envs n) req' (Inr res) s2 of
                 Inl p \<Rightarrow> Inl p
               | Inr (res', s3) \<Rightarrow> Inr (res', net'(n \<mapsto> s3)))))))"

fun net_forward ::
  "(node_id \<Rightarrow> ('t, 'l, 'u) ms_env) \<Rightarrow> nat \<Rightarrow> node_id \<Rightarrow> forward_req \<Rightarrow> ('l, 'u) network \<Rightarrow>
    (forward_res \<times> ('l, 'u) network) res" where
  "net_forward envs 0 n req net = Inl NoAnswer"
| "net_forward envs (Suc k) n req net = (case net n of
      None \<Rightarrow> Inl NoAnswer
    | Some s \<Rightarrow> (case forward_begin (envs n) req s of
        Inl p \<Rightarrow> Inl p
      | Inr (Inl res, s') \<Rightarrow> Inr (res, net(n \<mapsto> s'))
      | Inr (Inr (c, req', dest, out), s') \<Rightarrow>
          (case net_forward envs k dest out (net(n \<mapsto> s')) of
             Inl _ \<Rightarrow> Inl NoAnswer
           | Inr (res, net') \<Rightarrow> (case net' n of
               None \<Rightarrow> Inl NoAnswer
             | Some s2 \<Rightarrow> (case forward_answered (envs n) c req' (Inr res) s2 of
                 Inl p \<Rightarrow> Inl p
               | Inr (res', s3) \<Rightarrow> Inr (res', net'(n \<mapsto> s3)))))))"

fun net_end ::
  "(node_id \<Rightarrow> ('t, 'l, 'u) ms_env) \<Rightarrow> nat \<Rightarrow> node_id \<Rightarrow> end_req \<Rightarrow> ('l, 'u) network \<Rightarrow>
    (end_res \<times> ('l, 'u) network) res" where
  "net_end envs 0 n req net = Inl NoAnswer"
| "net_end envs (Suc k) n req net = (case net n of
      None \<Rightarrow> Inl NoAnswer
    | Some s \<Rightarrow> (case end_begin (envs n) req s of
        Inl p \<Rightarrow> Inl p
      | Inr (Inl res, s') \<Rightarrow> Inr (res, net(n \<mapsto> s'))
      | Inr (Inr (c, req', dest, out), s') \<Rightarrow>
          (case net_end envs k dest out (net(n \<mapsto> s')) of
             Inl _ \<Rightarrow> Inl NoAnswer
           | Inr (res, net') \<Rightarrow> (case net' n of
               None \<Rightarrow> Inl NoAnswer
             | Some s2 \<Rightarrow> (case end_finish (envs n) c req' (Inr res) s2 of
                 Inl p \<Rightarrow> Inl p
               | Inr (res', s3) \<Rightarrow> Inr (res', net'(n \<mapsto> s3)))))))"

section \<open>Chains\<close>

text \<open>A hop is a node, the session it knows the chat by, and the layers it computes.\<close>

type_synonym hop = "node_id \<times> session \<times> nat list"

fun next_hop :: "hop list \<Rightarrow> (node_id \<times> session) option" where
  "next_hop [] = None"
| "next_hop ((n, s, _) # _) = Some (n, s)"

definition hop_layers :: "hop list \<Rightarrow> nat list" where
  "hop_layers hops = concat (map (\<lambda>(n, s, L). L) hops)"

definition hop_nodes :: "hop list \<Rightarrow> node_id set" where
  "hop_nodes hops = fst ` set hops"

text \<open>
  The hooks accept: what is needed of the accounting besides its contract. The pass-through
  hooks always accept, and a chain of \<open>Onchain\<close> hooks does as long as the checkpoints verify.
\<close>

definition accepting :: "'u usage_ops \<Rightarrow> bool" where
  "accepting ops \<longleftrightarrow> usage_service ops \<and>
     (\<forall>q u. \<exists>q' u'. u_pre_start ops q u = Inr (Inr q', u')) \<and>
     (\<forall>q r u. \<exists>r' u'. u_post_start ops q r u = Inr (r', u') \<and> sres_success r' = sres_success r) \<and>
     (\<forall>c q u. \<exists>q' u'. u_pre_forward ops c q u = Inr (Inr q', u')) \<and>
     (\<forall>c q r u. \<exists>r' u'. u_post_forward ops c q r u = Inr (r', u')) \<and>
     (\<forall>c q u. \<exists>q' u'. u_pre_end ops c q u = Inr (Inr q', u')) \<and>
     (\<forall>c q r u. \<exists>r' u'. u_post_end ops c q r u = Inr (r', u') \<and> eres_success r' = eres_success r)"

lemma passthrough_accepting: "accepting passthrough_ops"
  using pass.usage_service_axioms by (simp add: accepting_def passthrough_defs)

record ('t, 'l, 'u, 'k) chain_env =
  c_envs :: "node_id \<Rightarrow> ('t, 'l, 'u) ms_env"
  c_blk :: "nat \<Rightarrow> ('k, 't) block"
  c_init :: "nat \<Rightarrow> 'k"
  c_view :: "node_id \<Rightarrow> 'l \<Rightarrow> session \<Rightarrow> (nat \<Rightarrow> 'k) option"
  c_ok :: "node_id \<Rightarrow> 'l \<Rightarrow> bool"
  c_tensor :: "'t tensor_env"

text \<open>Every node of the chain has a worker for its layers, accepting hooks and the same tensor library.\<close>

definition nodes_ok :: "('t, 'l, 'u, 'k) chain_env \<Rightarrow> hop list \<Rightarrow> bool" where
  "nodes_ok E hops \<longleftrightarrow> tensor_ok (c_tensor E) \<and>
     (\<forall>(n, s, L) \<in> set hops.
        layers_worker (e_layers (c_envs E n)) L (c_blk E) (c_init E) (c_view E n) (c_ok E n) \<and>
        accepting (e_usage (c_envs E n)) \<and> e_tensor (c_envs E n) = c_tensor E)"

definition hop_inv ::
  "('t, 'l, 'u, 'k) chain_env \<Rightarrow> ('l, 'u) network \<Rightarrow> hop \<Rightarrow> (node_id \<times> session) option \<Rightarrow> (nat \<Rightarrow> 'k) \<Rightarrow> bool" where
  "hop_inv E net = (\<lambda>(n, sess, L) nxt C. \<exists>s c Ci. net n = Some s \<and> c_ok E n (ms_layers s) \<and>
     get_clone (ms_sessions s) sess = Some c \<and> sc_local c \<noteq> None \<and> sc_remote c = nxt \<and>
     c_view E n (ms_layers s) sess = Some Ci \<and> (\<forall>l \<in> set L. Ci l = C l))"

fun chain_inv ::
  "('t, 'l, 'u, 'k) chain_env \<Rightarrow> ('l, 'u) network \<Rightarrow> hop list \<Rightarrow> (nat \<Rightarrow> 'k) \<Rightarrow> bool" where
  "chain_inv E net [] C \<longleftrightarrow> True"
| "chain_inv E net (h # hops) C \<longleftrightarrow> hop_inv E net h (next_hop hops) C \<and> fst h \<notin> hop_nodes hops \<and>
     set (snd (snd h)) \<inter> set (hop_layers hops) = {} \<and> chain_inv E net hops C"

lemma chain_inv_cong:
  assumes "chain_inv E net hops C" "\<And>m. m \<in> hop_nodes hops \<Longrightarrow> net' m = net m"
    and "\<And>l. l \<in> set (hop_layers hops) \<Longrightarrow> C' l = C l"
  shows "chain_inv E net' hops C'"
  using assms
proof (induction hops)
  case (Cons h hops)
  obtain n sess L where h: "h = (n, sess, L)" by (cases h) auto
  have "hop_inv E net' h (next_hop hops) C'"
    using Cons.prems by (simp add: h hop_inv_def hop_nodes_def hop_layers_def)
  moreover have "chain_inv E net' hops C'"
    using Cons.prems by (intro Cons.IH) (auto simp: h hop_nodes_def hop_layers_def)
  ultimately show ?case using Cons.prems(1) by simp
qed simp

section \<open>One step\<close>

lemma run_hook_accept:
  assumes "h (ms_usage s) = Inr (a, u)"
  shows "run_hook h s = Inr (a, s\<lparr>ms_usage := u\<rparr>)"
  using assms by (simp add: run_hook_def)

lemma forward_local_hop:
  assumes lw: "layers_worker (e_layers env) L blk init view ok" and te: "tensor_ok (e_tensor env)"
    and l: "ok (ms_layers s)" "view (ms_layers s) (freq_session req) = Some C"
    and x: "tensor_decode (e_tensor env) (freq_embedding req) = Inr x"
    and run: "run_layers blk L (freq_index_pos req) (freq_seq_len req) x C = (Inr y, D)"
  obtains b l' C' where "tensor_decode (e_tensor env) b = Inr y"
    "forward_local env req s = Inr (b, more_token_out (s\<lparr>ms_layers := l'\<rparr>))" "ok l'"
    "view l' (freq_session req) = Some C'" "\<forall>i \<in> set L. C' i = D i"
proof -
  obtain l' C' where f: "lw_forward (e_layers env) (freq_session req) (freq_step req) (x, freq_seq_len req) (freq_index_pos req) (ms_layers s)
      = Inr (Inr (y, freq_seq_len req), l')" "ok l'" "view l' (freq_session req) = Some C'" "\<forall>i \<in> set L. C' i = D i"
      "\<forall>s'. s' \<noteq> freq_session req \<longrightarrow> view l' s' = view (ms_layers s) s'"
    by (rule layers_worker.forward_success[OF lw l run])
  obtain b where b: "tensor_encode (e_tensor env) y = Inr b" "tensor_decode (e_tensor env) b = Inr y"
    using tensor_encode_total[OF te] by blast
  have "forward_local env req s = Inr (b, more_token_out (s\<lparr>ms_layers := l'\<rparr>))"
    by (simp add: forward_local_def x f(1) b(1) Let_def)
  with b(2) f(2-4) that show ?thesis by blast
qed

lemma forward_begin_hop:
  assumes lw: "layers_worker (e_layers env) L blk init view ok" and te: "tensor_ok (e_tensor env)"
    and us: "accepting (e_usage env)"
    and c: "get_clone (ms_sessions s) (freq_session req) = Some c" "sc_local c \<noteq> None"
    and l: "ok (ms_layers s)" "view (ms_layers s) (freq_session req) = Some C"
    and x: "tensor_decode (e_tensor env) (freq_embedding req) = Inr x"
    and run: "run_layers blk L (freq_index_pos req) (freq_seq_len req) x C = (Inr y, D)"
  obtains s' b C' r req' md where "forward_begin env req s = Inr (r, s')" "tensor_decode (e_tensor env) b = Inr y"
    "ms_sessions s' = ms_sessions s" "ok (ms_layers s')" "view (ms_layers s') (freq_session req) = Some C'"
    "\<forall>i \<in> set L. C' i = D i"
    "case sc_remote c of
       None \<Rightarrow> (\<exists>res. r = Inl res \<and> fres_success res \<and> fres_embedding res = b)
     | Some (d, rs) \<Rightarrow> r = Inr (sc_chat_id c, req', d,
         \<lparr>freq_session = rs, freq_step = freq_step req, freq_embedding = b, freq_index_pos = freq_index_pos req,
          freq_seq_len = freq_seq_len req, freq_metadata = md, freq_chain_index = freq_chain_index req + 1\<rparr>)"
proof -
  have svc: "usage_service (e_usage env)" using us by (simp add: accepting_def)
  obtain req' u where h: "u_pre_forward (e_usage env) (sc_chat_id c) req (ms_usage s) = Inr (Inr req', u)"
    using us by (metis accepting_def)
  note q = usage_service.pre_forward_fields[OF svc h]
  let ?s = "s\<lparr>ms_usage := u\<rparr>"
  obtain b l' C' where f: "tensor_decode (e_tensor env) b = Inr y"
    "forward_local env req' ?s = Inr (b, more_token_out (?s\<lparr>ms_layers := l'\<rparr>))" "ok l'"
    "view l' (freq_session req) = Some C'" "\<forall>i \<in> set L. C' i = D i"
    using forward_local_hop[OF lw te, of ?s req' C x y D thesis] l x run by (auto simp: q)
  let ?t = "more_token_out (?s\<lparr>ms_layers := l'\<rparr>)"
  have fb: "forward_begin env req s = (case sc_remote c of
      Some (d, rs) \<Rightarrow> Inr (Inr (sc_chat_id c, req', d,
         \<lparr>freq_session = rs, freq_step = freq_step req, freq_embedding = b, freq_index_pos = freq_index_pos req,
          freq_seq_len = freq_seq_len req, freq_metadata = freq_metadata req', freq_chain_index = freq_chain_index req + 1\<rparr>),
          more_net_out (length b) ?t)
    | None \<Rightarrow> res_bind (forward_finish env (sc_chat_id c) req'
          \<lparr>fres_success = True, fres_embedding = b, fres_metadata = freq_metadata req'\<rparr> ?t) (\<lambda>(res, s). Inr (Inl res, s)))"
    using c f(2) run_hook_accept[of "u_pre_forward (e_usage env) (sc_chat_id c) req" s, OF h]
    by (auto simp: forward_begin_def q split: option.splits)
  show thesis
  proof (cases "sc_remote c")
    case None
    obtain r' u' where p: "u_post_forward (e_usage env) (sc_chat_id c) req'
        \<lparr>fres_success = True, fres_embedding = b, fres_metadata = freq_metadata req'\<rparr> (ms_usage ?t) = Inr (r', u')"
      using us by (metis accepting_def)
    have "forward_begin env req s = Inr (Inl r', ?t\<lparr>ms_usage := u'\<rparr>)"
      using p by (simp add: fb None forward_finish_def run_hook_def)
    then show ?thesis
      using that[of "Inl r'" "?t\<lparr>ms_usage := u'\<rparr>" b C' req' "freq_metadata req'"] f
        usage_service.post_forward_fields[OF svc p] None by simp
  next
    case (Some a)
    obtain d rs where a: "a = (d, rs)" by (cases a) auto
    show ?thesis
      by (rule that[of _ "more_net_out (length b) ?t" b C' req' "freq_metadata req'"])
        (use f in \<open>simp_all add: fb Some a\<close>)
  qed
qed

lemma forward_answered_hop:
  assumes us: "accepting (e_usage env)"
  obtains res' s' where "forward_answered env c req (Inr res) s = Inr (res', s')" "fres_success res' = fres_success res"
    "fres_embedding res' = fres_embedding res" "ms_sessions s' = ms_sessions s" "ms_layers s' = ms_layers s"
proof -
  let ?t = "more_net_in (length (fres_embedding res)) s"
  obtain r' u' where p: "u_post_forward (e_usage env) c req res (ms_usage ?t) = Inr (r', u')"
    using us by (metis accepting_def)
  have svc: "usage_service (e_usage env)" using us by (simp add: accepting_def)
  have "forward_answered env c req (Inr res) s = Inr (r', ?t\<lparr>ms_usage := u'\<rparr>)"
    using p by (simp add: forward_answered_def forward_finish_def run_hook_def)
  then show thesis using that usage_service.post_forward_fields[OF svc p] by simp
qed

lemma chain_inv_hop:
  assumes "chain_inv E net ((n, sess, L) # hops) C"
  obtains s c Ci where "net n = Some s" "c_ok E n (ms_layers s)" "get_clone (ms_sessions s) sess = Some c"
    "sc_local c \<noteq> None" "sc_remote c = next_hop hops" "c_view E n (ms_layers s) sess = Some Ci"
    "\<forall>l \<in> set L. Ci l = C l" "n \<notin> hop_nodes hops" "set L \<inter> set (hop_layers hops) = {}" "chain_inv E net hops C"
  using assms by (auto simp: hop_inv_def)

lemma hop_layers_Cons [simp]: "hop_layers ((n, sess, L) # hops) = L @ hop_layers hops"
  by (simp add: hop_layers_def)

lemma hop_nodes_Cons [simp]: "hop_nodes ((n, sess, L) # hops) = insert n (hop_nodes hops)"
  by (simp add: hop_nodes_def)

lemma nodes_ok_Cons:
  "nodes_ok E ((n, sess, L) # hops) \<longleftrightarrow>
     layers_worker (e_layers (c_envs E n)) L (c_blk E) (c_init E) (c_view E n) (c_ok E n) \<and>
     accepting (e_usage (c_envs E n)) \<and> e_tensor (c_envs E n) = c_tensor E \<and> nodes_ok E hops"
  by (auto simp: nodes_ok_def)

text \<open>
  A step of the chain: when the layers of all the hops, run in order on one machine, map
  \<open>x\<close> to \<open>y\<close>, the request travels the chain, comes back with the encoding of \<open>y\<close>, the
  caches of the nodes are those of the one machine, and no other node is touched.
\<close>

lemma net_forward_chain:
  assumes "nodes_ok E ((n, sess, L) # hops)" "chain_inv E net ((n, sess, L) # hops) C"
    "freq_session req = sess" "tensor_decode (c_tensor E) (freq_embedding req) = Inr x"
    "run_layers (c_blk E) (L @ hop_layers hops) (freq_index_pos req) (freq_seq_len req) x C = (Inr y, D)"
    "length hops < k"
  shows "\<exists>res net'. net_forward (c_envs E) k n req net = Inr (res, net') \<and> fres_success res \<and>
    tensor_decode (c_tensor E) (fres_embedding res) = Inr y \<and> chain_inv E net' ((n, sess, L) # hops) D \<and>
    (\<forall>m. m \<notin> hop_nodes ((n, sess, L) # hops) \<longrightarrow> net' m = net m)"
  using assms
proof (induction hops arbitrary: n sess L k req net C x)
  case Nil
  let ?env = "c_envs E n"
  from Nil.prems(2) obtain s c Ci where i: "net n = Some s" "c_ok E n (ms_layers s)" "get_clone (ms_sessions s) sess = Some c"
    "sc_local c \<noteq> None" "sc_remote c = None" "c_view E n (ms_layers s) sess = Some Ci" "\<forall>l \<in> set L. Ci l = C l"
    by (elim chain_inv_hop) simp
  have nd: "layers_worker (e_layers ?env) L (c_blk E) (c_init E) (c_view E n) (c_ok E n)" "accepting (e_usage ?env)"
    "e_tensor ?env = c_tensor E" "tensor_ok (c_tensor E)"
    using Nil.prems(1) by (auto simp: nodes_ok_def)
  have r0: "run_layers (c_blk E) L (freq_index_pos req) (freq_seq_len req) x C = (Inr y, D)"
    using Nil.prems(5) by (simp add: hop_layers_def)
  obtain Di where run: "run_layers (c_blk E) L (freq_index_pos req) (freq_seq_len req) x Ci = (Inr y, Di)" "\<forall>l \<in> set L. Di l = D l"
    by (rule run_layers_agree[OF i(7) r0])
  obtain s' b C' r req' md where f: "forward_begin ?env req s = Inr (r, s')" "tensor_decode (e_tensor ?env) b = Inr y"
    "ms_sessions s' = ms_sessions s" "c_ok E n (ms_layers s')" "c_view E n (ms_layers s') (freq_session req) = Some C'"
    "\<forall>l \<in> set L. C' l = Di l" "\<exists>res. r = Inl res \<and> fres_success res \<and> fres_embedding res = b"
    using forward_begin_hop[OF nd(1) _ nd(2), of s req c Ci x y Di thesis] nd i Nil.prems(3,4) run by auto
  obtain k' where "k = Suc k'" using Nil.prems(6) by (cases k) auto
  then show ?case using f i nd run(2) Nil.prems(3)
    by (auto simp: hop_inv_def hop_nodes_def hop_layers_def)
next
  case (Cons h hops)
  obtain d rs L' where h: "h = (d, rs, L')" by (cases h) auto
  let ?env = "c_envs E n" and ?hops = "(d, rs, L') # hops"
  obtain s c Ci where i: "net n = Some s" "c_ok E n (ms_layers s)" "get_clone (ms_sessions s) sess = Some c"
    "sc_local c \<noteq> None" "sc_remote c = Some (d, rs)" "c_view E n (ms_layers s) sess = Some Ci" "\<forall>l \<in> set L. Ci l = C l"
    "n \<notin> hop_nodes ?hops" "set L \<inter> set (hop_layers ?hops) = {}" "chain_inv E net ?hops C"
    by (rule chain_inv_hop[OF Cons.prems(2)[unfolded h]]) simp
  have nd: "layers_worker (e_layers ?env) L (c_blk E) (c_init E) (c_view E n) (c_ok E n)" "accepting (e_usage ?env)"
    "e_tensor ?env = c_tensor E" "tensor_ok (c_tensor E)" "nodes_ok E ?hops"
    using Cons.prems(1) unfolding h nodes_ok_Cons by (auto simp: nodes_ok_def)
  obtain y1 D1 where r1: "run_layers (c_blk E) L (freq_index_pos req) (freq_seq_len req) x C = (Inr y1, D1)"
    and r2: "run_layers (c_blk E) (L' @ hop_layers hops) (freq_index_pos req) (freq_seq_len req) y1 D1 = (Inr y, D)"
    using Cons.prems(5) by (auto simp: h run_layers_append[of _ L] split: prod.splits sum.splits)
  obtain Di where run: "run_layers (c_blk E) L (freq_index_pos req) (freq_seq_len req) x Ci = (Inr y1, Di)" "\<forall>l \<in> set L. Di l = D1 l"
    by (rule run_layers_agree[OF i(7) r1])
  obtain s' b C' r req' md where f: "forward_begin ?env req s = Inr (r, s')" "tensor_decode (e_tensor ?env) b = Inr y1"
    "ms_sessions s' = ms_sessions s" "c_ok E n (ms_layers s')" "c_view E n (ms_layers s') (freq_session req) = Some C'"
    "\<forall>l \<in> set L. C' l = Di l"
    "r = Inr (sc_chat_id c, req', d,
         \<lparr>freq_session = rs, freq_step = freq_step req, freq_embedding = b, freq_index_pos = freq_index_pos req,
          freq_seq_len = freq_seq_len req, freq_metadata = md, freq_chain_index = freq_chain_index req + 1\<rparr>)"
    using forward_begin_hop[OF nd(1) _ nd(2), of s req c Ci x y1 Di thesis] nd i Cons.prems(3,4) run by auto
  let ?out = "\<lparr>freq_session = rs, freq_step = freq_step req, freq_embedding = b, freq_index_pos = freq_index_pos req,
          freq_seq_len = freq_seq_len req, freq_metadata = md, freq_chain_index = freq_chain_index req + 1\<rparr>"
  obtain k' where k: "k = Suc k'" "length hops < k'" using Cons.prems(6) by (cases k) auto
  have D1: "D1 l = C l" if "l \<in> set (hop_layers ?hops)" for l
    using run_layers_frame[of l L] r1 i(9) that by (metis disjoint_iff snd_conv)
  have inv: "chain_inv E (net(n \<mapsto> s')) ?hops D1"
    using i(8) by (intro chain_inv_cong[OF i(10)]) (auto simp: D1)
  have "\<exists>res net'. net_forward (c_envs E) k' d ?out (net(n \<mapsto> s')) = Inr (res, net') \<and> fres_success res \<and>
    tensor_decode (c_tensor E) (fres_embedding res) = Inr y \<and> chain_inv E net' ?hops D \<and>
    (\<forall>m. m \<notin> hop_nodes ?hops \<longrightarrow> net' m = (net(n \<mapsto> s')) m)"
    by (rule Cons.IH[OF nd(5) inv]) (use f(2) nd(3) r2 k(2) in simp_all)
  then obtain res net' where ih: "net_forward (c_envs E) k' d ?out (net(n \<mapsto> s')) = Inr (res, net')" "fres_success res"
    "tensor_decode (c_tensor E) (fres_embedding res) = Inr y" "chain_inv E net' ?hops D"
    "\<forall>m. m \<notin> hop_nodes ?hops \<longrightarrow> net' m = (net(n \<mapsto> s')) m"
    by (elim exE conjE)
  obtain res' s3 where a: "forward_answered ?env (sc_chat_id c) req' (Inr res) s' = Inr (res', s3)"
    "fres_success res' = fres_success res" "fres_embedding res' = fres_embedding res"
    "ms_sessions s3 = ms_sessions s'" "ms_layers s3 = ms_layers s'"
    by (rule forward_answered_hop[OF nd(2)])
  have net_n: "net' n = Some s'" using ih(5) i(8) by simp
  have "net_forward (c_envs E) k n req net = Inr (res', net'(n \<mapsto> s3))"
    using i(1) f(1,7) ih(1) net_n a(1) by (simp add: k(1))
  moreover have "chain_inv E (net'(n \<mapsto> s3)) ?hops D"
    using i(8) by (intro chain_inv_cong[OF ih(4)]) auto
  moreover have "D l = D1 l" if "l \<in> set L" for l
    using run_layers_frame[of l "L' @ hop_layers hops"] r2 i(9) that by (metis disjoint_iff hop_layers_Cons snd_conv)
  then have "hop_inv E (net'(n \<mapsto> s3)) (n, sess, L) (Some (d, rs)) D"
    using i(3-5) f(3-6) a(4,5) run(2) Cons.prems(3) by (simp add: hop_inv_def)
  ultimately show ?case
    using a(2,3) ih(2,3,5) i(8,9) by (auto simp: h)
qed

section \<open>Setting up a chain\<close>

text \<open>
  The chain the routers of the network describe, from a layer on: every node computes layers
  itself, the layers of its hop are the local part of its route, and the next hop is the
  remote part. \<open>N\<close> is the number of layers of the model.
\<close>

fun start_plan :: "('l, 'u) network \<Rightarrow> nat \<Rightarrow> u32 \<Rightarrow> hop list \<Rightarrow> bool" where
  "start_plan net N l0 [] \<longleftrightarrow> False"
| "start_plan net N l0 ((n, sess, L) # hops) \<longleftrightarrow> (case net n of
      None \<Rightarrow> False
    | Some s \<Rightarrow> model_layers (ms_router s) = N \<and> (case select_next (ms_router s) l0 of
        Inr (Some route) \<Rightarrow> (case rp_local route of
            None \<Rightarrow> False
          | Some rng \<Rightarrow> L = range_list rng \<and> (case rp_remote route of
              None \<Rightarrow> hops = []
            | Some (d, layers, _, _) \<Rightarrow> map fst (take 1 hops) = [d] \<and> start_plan net N (rstart layers) hops))
      | _ \<Rightarrow> False))"

lemma start_planE:
  assumes "start_plan net N l0 ((n, sess, L) # hops)"
  obtains s route rng where "net n = Some s" "model_layers (ms_router s) = N"
    "select_next (ms_router s) l0 = Inr (Some route)" "rp_local route = Some rng" "L = range_list rng"
    "case rp_remote route of None \<Rightarrow> hops = []
     | Some (d, layers, _, _) \<Rightarrow> map fst (take 1 hops) = [d] \<and> start_plan net N (rstart layers) hops"
  using assms by (auto split: option.splits sum.splits)

declare start_plan.simps(2) [simp del]

lemma start_plan_layers:
  assumes "start_plan net N l0 hops" "N < 2 ^ 32"
  shows "hop_layers hops = [unat l0 ..< N]"
  using assms
proof (induction hops arbitrary: l0)
  case (Cons h hops)
  obtain n sess L where h: "h = (n, sess, L)" by (cases h) auto
  obtain s route rng where p: "net n = Some s" "model_layers (ms_router s) = N"
    "select_next (ms_router s) l0 = Inr (Some route)" "rp_local route = Some rng" "L = range_list rng"
    "case rp_remote route of None \<Rightarrow> hops = []
     | Some (d, layers, _, _) \<Rightarrow> map fst (take 1 hops) = [d] \<and> start_plan net N (rstart layers) hops"
    using Cons.prems(1) unfolding h by (rule start_planE)
  have t: "path_layers route = [unat l0 ..< N]"
    using select_next_tiles_aux[OF p(3)] p(2) Cons.prems(2) by simp
  show ?case
  proof (cases "rp_remote route")
    case None
    then show ?thesis using t p(4-6) by (simp add: h path_layers_def hop_layers_def)
  next
    case (Some a)
    obtain d layers c u where a: "a = (d, layers, c, u)" by (cases a) auto
    have "hop_layers hops = [unat (rstart layers) ..< N]"
      using p(6) Cons.prems(2) by (intro Cons.IH) (simp_all add: Some a)
    moreover have "range_list layers = [unat (rstart layers) ..< N]"
      using p(2,3) Cons.prems(2) Some by (auto elim!: select_next_cases simp: a range_list_def unat_u32_of_nat)
    ultimately show ?thesis using t p(4,5) by (simp add: h path_layers_def Some a)
  qed
qed simp

lemma start_begin_hop:
  assumes lw: "layers_worker (e_layers env) L blk init view ok" and us: "accepting (e_usage env)"
    and l: "ok (ms_layers s)"
    and route: "select_next (ms_router s) (sreq_from_layer req) = Inr (Some route)" "rp_local route = Some rng"
  obtains s' C r req' md where "start_begin env rs req s = Inr (r, s')" "ok (ms_layers s')" "ms_router s' = ms_router s"
    "get_clone (ms_sessions s') (sreq_session req) = Some \<lparr>sc_chat_id = sreq_chat_id req, sc_local = Some rng,
       sc_remote = map_option (\<lambda>(d, _). (d, rs)) (rp_remote route)\<rparr>"
    "view (ms_layers s') (sreq_session req) = Some C" "\<forall>i \<in> set L. C i = init i"
    "case rp_remote route of
       None \<Rightarrow> (\<exists>res. r = Inl res \<and> sres_success res)
     | Some (d, layers, _, _) \<Rightarrow> r = Inr (req', d,
         \<lparr>sreq_session = rs, sreq_chat_id = sreq_chat_id req, sreq_from_layer = rstart layers,
          sreq_metadata = md, sreq_chain_index = sreq_chain_index req + 1, sreq_max_tokens = sreq_max_tokens req\<rparr>)"
proof -
  have svc: "usage_service (e_usage env)" using us by (simp add: accepting_def)
  obtain req' u where h: "u_pre_start (e_usage env) req (ms_usage s) = Inr (Inr req', u)"
    using us by (metis accepting_def)
  note q = usage_service.pre_start_fields[OF svc h]
  let ?c = "\<lparr>sc_chat_id = sreq_chat_id req, sc_local = Some rng, sc_remote = map_option (\<lambda>(d, _). (d, rs)) (rp_remote route)\<rparr>"
  obtain l' C where w: "lw_start (e_layers env) (sreq_session req) chat_cfg_default (ms_layers s) = Inr (Inr (), l')" "ok l'"
    "view l' (sreq_session req) = Some C" "\<forall>i \<in> set L. C i = init i"
    using layers_worker.start_view[OF lw l] by blast
  let ?t = "s\<lparr>ms_usage := u, ms_sessions := snd (shm_insert (sreq_session req) ?c (ms_sessions s)), ms_layers := l'\<rparr>"
  have sb: "start_begin env rs req s = (case rp_remote route of
      Some (dest, layers, _, _) \<Rightarrow> Inr (Inr (req', dest,
         \<lparr>sreq_session = rs, sreq_chat_id = sreq_chat_id req, sreq_from_layer = rstart layers, sreq_metadata = sreq_metadata req',
          sreq_chain_index = sreq_chain_index req + 1, sreq_max_tokens = sreq_max_tokens req\<rparr>), ?t)
    | None \<Rightarrow> res_bind (start_finish env req' (Inr \<lparr>sres_success = True, sres_metadata = sreq_metadata req'\<rparr>) ?t) (\<lambda>(res, s). Inr (Inl res, s)))"
    using run_hook_accept[of "u_pre_start (e_usage env) req" s, OF h] route w(1)
    by (cases "rp_remote route") (auto simp: start_begin_def start_local_def q Let_def)
  show thesis
  proof (cases "rp_remote route")
    case None
    obtain r' u' where p: "u_post_start (e_usage env) req' \<lparr>sres_success = True, sres_metadata = sreq_metadata req'\<rparr> (ms_usage ?t) = Inr (r', u')"
      "sres_success r'"
      using us unfolding accepting_def by (metis start_res.select_convs(1))
    have "start_begin env rs req s = Inr (Inl r', ?t\<lparr>ms_usage := u'\<rparr>)"
      using p(1) by (simp add: sb None start_finish_def run_hook_def)
    then show ?thesis
      by (rule that) (use w p(2) None in \<open>simp_all add: get_clone_insert\<close>)
  next
    case (Some a)
    obtain d layers cs lu where a: "a = (d, layers, cs, lu)" by (cases a) auto
    show ?thesis
      by (rule that[of _ ?t C req' "sreq_metadata req'"]) (use w in \<open>simp_all add: sb Some a get_clone_insert\<close>)
  qed
qed

lemma start_finish_hop:
  assumes us: "accepting (e_usage env)" and "sres_success res"
  obtains res' s' where "start_finish env req (Inr res) s = Inr (res', s')" "sres_success res'"
    "ms_sessions s' = ms_sessions s" "ms_layers s' = ms_layers s" "ms_router s' = ms_router s"
proof -
  obtain r' u' where p: "u_post_start (e_usage env) req res (ms_usage s) = Inr (r', u')" "sres_success r' = sres_success res"
    using us by (metis accepting_def)
  have "start_finish env req (Inr res) s = Inr (r', s\<lparr>ms_usage := u'\<rparr>)"
    using p by (simp add: start_finish_def run_hook_def)
  then show thesis using that p assms(2) by simp
qed

lemma start_plan_cong:
  assumes "start_plan net N l0 hops" "\<And>m. m \<in> hop_nodes hops \<Longrightarrow> net' m = net m"
  shows "start_plan net' N l0 hops"
  using assms
proof (induction hops arbitrary: l0)
  case (Cons h hops)
  obtain n sess L where h: "h = (n, sess, L)" by (cases h) auto
  have e: "net' n = net n" and IH: "\<And>l. start_plan net N l hops \<Longrightarrow> start_plan net' N l hops"
    using Cons.prems(2) Cons.IH by (auto simp: h)
  show ?case using Cons.prems(1) IH by (auto simp: h e start_plan.simps(2) split: option.splits sum.splits)
qed simp

text \<open>The workers of the chain are in order, and no node appears twice.\<close>

definition workers_ok :: "('t, 'l, 'u, 'k) chain_env \<Rightarrow> ('l, 'u) network \<Rightarrow> hop list \<Rightarrow> bool" where
  "workers_ok E net hops \<longleftrightarrow> distinct (map fst hops) \<and>
     (\<forall>h \<in> set hops. \<forall>s. net (fst h) = Some s \<longrightarrow> c_ok E (fst h) (ms_layers s))"

lemma workers_ok_Cons:
  "workers_ok E net ((n, sess, L) # hops) \<longleftrightarrow>
     (\<forall>s. net n = Some s \<longrightarrow> c_ok E n (ms_layers s)) \<and> n \<notin> hop_nodes hops \<and> workers_ok E net hops"
  by (auto simp: workers_ok_def hop_nodes_def)

lemma workers_ok_cong:
  assumes "workers_ok E net hops" "\<And>m. m \<in> hop_nodes hops \<Longrightarrow> net' m = net m"
  shows "workers_ok E net' hops"
  using assms by (auto simp: workers_ok_def hop_nodes_def)

lemma net_start_chain:
  assumes "nodes_ok E ((n, sess, L) # hops)" "start_plan net N l0 ((n, sess, L) # hops)"
    "workers_ok E net ((n, sess, L) # hops)" "distinct (L @ hop_layers hops)"
    "sreq_session req = sess" "sreq_from_layer req = l0" "rs = map (fst \<circ> snd) hops @ r # rest"
  shows "\<exists>res net'. net_start (c_envs E) rs n req net = Inr (res, net') \<and> sres_success res \<and>
    chain_inv E net' ((n, sess, L) # hops) (c_init E) \<and>
    (\<forall>m. m \<notin> hop_nodes ((n, sess, L) # hops) \<longrightarrow> net' m = net m)"
  using assms
proof (induction hops arbitrary: n sess L req net l0 rs)
  case Nil
  let ?env = "c_envs E n"
  obtain s route rng where p: "net n = Some s" "select_next (ms_router s) l0 = Inr (Some route)" "rp_local route = Some rng"
    "rp_remote route = None"
    using Nil.prems(2) by (elim start_planE) (auto split: option.splits)
  have nd: "layers_worker (e_layers ?env) L (c_blk E) (c_init E) (c_view E n) (c_ok E n)" "accepting (e_usage ?env)"
    and ok: "c_ok E n (ms_layers s)"
    using Nil.prems(1,3) p(1) by (auto simp: nodes_ok_def workers_ok_def)
  show ?case
    by (rule start_begin_hop[OF nd(1,2) ok p(2)[folded Nil.prems(6)] p(3), of r])
      (use p Nil.prems in \<open>auto simp: hop_inv_def hop_nodes_def hop_layers_def\<close>)
next
  case (Cons h hops)
  obtain d sess' L' where h: "h = (d, sess', L')" by (cases h) auto
  let ?env = "c_envs E n" and ?hops = "(d, sess', L') # hops"
  obtain s route rng layers cs lu where p: "net n = Some s" "select_next (ms_router s) l0 = Inr (Some route)"
    "rp_local route = Some rng" "rp_remote route = Some (d, layers, cs, lu)" "start_plan net N (rstart layers) ?hops"
    using Cons.prems(2) unfolding h by (elim start_planE) (auto split: option.splits)
  have nd: "layers_worker (e_layers ?env) L (c_blk E) (c_init E) (c_view E n) (c_ok E n)" "accepting (e_usage ?env)" "nodes_ok E ?hops"
    using Cons.prems(1) unfolding h nodes_ok_Cons by auto
  have wk: "c_ok E n (ms_layers s)" "n \<notin> hop_nodes ?hops" "workers_ok E net ?hops"
    using Cons.prems(3) p(1) unfolding h workers_ok_Cons[of E net n] by auto
  obtain s' C r' req' md where f: "start_begin ?env sess' req s = Inr (r', s')" "c_ok E n (ms_layers s')"
    "get_clone (ms_sessions s') sess = Some \<lparr>sc_chat_id = sreq_chat_id req, sc_local = Some rng, sc_remote = Some (d, sess')\<rparr>"
    "c_view E n (ms_layers s') sess = Some C" "\<forall>i \<in> set L. C i = c_init E i"
    "r' = Inr (req', d, \<lparr>sreq_session = sess', sreq_chat_id = sreq_chat_id req, sreq_from_layer = rstart layers,
          sreq_metadata = md, sreq_chain_index = sreq_chain_index req + 1, sreq_max_tokens = sreq_max_tokens req\<rparr>)"
    by (rule start_begin_hop[OF nd(1,2) wk(1) p(2)[folded Cons.prems(6)] p(3), of sess'])
      (use p(4) Cons.prems(5) in simp)
  let ?out = "\<lparr>sreq_session = sess', sreq_chat_id = sreq_chat_id req, sreq_from_layer = rstart layers,
          sreq_metadata = md, sreq_chain_index = sreq_chain_index req + 1, sreq_max_tokens = sreq_max_tokens req\<rparr>"
  let ?net = "net(n \<mapsto> s')"
  have rs: "rs = sess' # map (fst \<circ> snd) hops @ r # rest" using Cons.prems(7) by (simp add: h)
  have "\<exists>res net'. net_start (c_envs E) (map (fst \<circ> snd) hops @ r # rest) d ?out ?net = Inr (res, net') \<and> sres_success res \<and>
    chain_inv E net' ?hops (c_init E) \<and> (\<forall>m. m \<notin> hop_nodes ?hops \<longrightarrow> net' m = ?net m)"
  proof (rule Cons.IH[OF nd(3)])
    show "start_plan ?net N (rstart layers) ?hops" by (rule start_plan_cong[OF p(5)]) (use wk(2) in auto)
    show "workers_ok E ?net ?hops" by (rule workers_ok_cong[OF wk(3)]) (use wk(2) in auto)
  qed (use Cons.prems(4) in \<open>simp_all add: h\<close>)
  then obtain res net' where ih: "net_start (c_envs E) (map (fst \<circ> snd) hops @ r # rest) d ?out ?net = Inr (res, net')" "sres_success res"
    "chain_inv E net' ?hops (c_init E)" "\<forall>m. m \<notin> hop_nodes ?hops \<longrightarrow> net' m = ?net m"
    by (elim exE conjE)
  obtain res' s3 where a: "start_finish ?env req' (Inr res) s' = Inr (res', s3)" "sres_success res'"
    "ms_sessions s3 = ms_sessions s'" "ms_layers s3 = ms_layers s'" "ms_router s3 = ms_router s'"
    by (rule start_finish_hop[OF nd(2) ih(2)])
  have net_n: "net' n = Some s'" using ih(4) wk(2) by simp
  have "net_start (c_envs E) rs n req net = Inr (res', net'(n \<mapsto> s3))"
    using p(1) f(1,6) ih(1) net_n a(1) by (simp add: rs)
  moreover have "chain_inv E (net'(n \<mapsto> s3)) ?hops (c_init E)"
    using wk(2) by (intro chain_inv_cong[OF ih(3)]) auto
  moreover have "hop_inv E (net'(n \<mapsto> s3)) (n, sess, L) (Some (d, sess')) (c_init E)"
    using f(2-5) a(3,4) by (simp add: hop_inv_def)
  ultimately show ?case
    using a(2) ih(4) wk(2) Cons.prems(4) by (auto simp: h)
qed

section \<open>Tearing down a chain\<close>

lemma end_finish_hop:
  assumes us: "accepting (e_usage env)"
  obtains res' s' where "end_finish env c req (Inr res) s = Inr (res', s')" "eres_success res' = eres_success res"
    "ms_sessions s' = ms_sessions s" "ms_layers s' = ms_layers s" "ms_router s' = ms_router s"
proof -
  obtain r' u' where p: "u_post_end (e_usage env) c req res (ms_usage s) = Inr (r', u')" "eres_success r' = eres_success res"
    using us by (metis accepting_def)
  have "end_finish env c req (Inr res) s = Inr (r', s\<lparr>ms_usage := u'\<rparr>)"
    using p by (simp add: end_finish_def run_hook_def)
  then show thesis using that p by simp
qed

lemma end_begin_hop:
  assumes lw: "layers_worker (e_layers env) L blk init view ok" and us: "accepting (e_usage env)"
    and l: "ok (ms_layers s)" and c: "get_clone (ms_sessions s) (ereq_session req) = Some c" "sc_local c \<noteq> None"
  obtains r s' req' md where "end_begin env req s = Inr (r, s')" "ok (ms_layers s')" "ms_router s' = ms_router s"
    "ms_sessions s' = snd (shm_remove (ereq_session req) (ms_sessions s))"
    "case sc_remote c of
       None \<Rightarrow> (\<exists>res. r = Inl res \<and> eres_success res)
     | Some (d, rs) \<Rightarrow> r = Inr (sc_chat_id c, req', d,
         \<lparr>ereq_session = rs, ereq_metadata = md, ereq_chain_index = ereq_chain_index req + 1\<rparr>)"
proof -
  have svc: "usage_service (e_usage env)" using us by (simp add: accepting_def)
  obtain req' u where h: "u_pre_end (e_usage env) (sc_chat_id c) req (ms_usage s) = Inr (Inr req', u)"
    using us by (metis accepting_def)
  note q = usage_service.pre_end_fields[OF svc h]
  obtain l' where w: "lw_finish (e_layers env) (ereq_session req) (ms_layers s) = Inr l'" "ok l'"
    using layers_worker.finish_view[OF lw l] by blast
  define sessions where "sessions = snd (shm_remove (ereq_session req) (ms_sessions s))"
  have rm: "shm_remove (ereq_session req) (ms_sessions s) = (Some c, sessions)"
    using c(1) by (simp add: sessions_def shm_remove_def get_clone_def)
  let ?t = "s\<lparr>ms_sessions := sessions, ms_usage := u, ms_layers := l'\<rparr>"
  have eb: "end_begin env req s = (case sc_remote c of
      Some (d, rs) \<Rightarrow> Inr (Inr (sc_chat_id c, req', d,
         \<lparr>ereq_session = rs, ereq_metadata = ereq_metadata req', ereq_chain_index = ereq_chain_index req + 1\<rparr>), ?t)
    | None \<Rightarrow> res_bind (end_finish env (sc_chat_id c) req' (Inr \<lparr>eres_success = True, eres_metadata = ereq_metadata req'\<rparr>) ?t)
        (\<lambda>(res, s). Inr (Inl res, s)))"
    using run_hook_accept[of "u_pre_end (e_usage env) (sc_chat_id c) req" "s\<lparr>ms_sessions := sessions\<rparr>"] h c(2) w(1)
    by (auto simp: end_begin_def end_local_def rm q split: option.splits)
  show thesis
  proof (cases "sc_remote c")
    case None
    obtain res' s' where e: "end_finish env (sc_chat_id c) req' (Inr \<lparr>eres_success = True, eres_metadata = ereq_metadata req'\<rparr>) ?t = Inr (res', s')"
      "eres_success res' = eres_success \<lparr>eres_success = True, eres_metadata = ereq_metadata req'\<rparr>"
      "ms_sessions s' = ms_sessions ?t" "ms_layers s' = ms_layers ?t" "ms_router s' = ms_router ?t"
      by (rule end_finish_hop[OF us])
    then have "end_begin env req s = Inr (Inl res', s')" by (simp add: eb None)
    then show ?thesis by (rule that) (use e w None in \<open>simp_all add: sessions_def\<close>)
  next
    case (Some a)
    obtain d rs where a: "a = (d, rs)" by (cases a) auto
    show ?thesis
      by (rule that[of _ ?t req' "ereq_metadata req'"]) (use w in \<open>simp_all add: eb Some a sessions_def\<close>)
  qed
qed

text \<open>END reaches every node of the chain, and each forgets its session of the chat and no other.\<close>

lemma net_end_chain:
  assumes "nodes_ok E ((n, sess, L) # hops)" "chain_inv E net ((n, sess, L) # hops) C"
    "ereq_session req = sess" "length hops < k"
  shows "\<exists>res net'. net_end (c_envs E) k n req net = Inr (res, net') \<and> eres_success res \<and>
    (\<forall>(m, i, _) \<in> set ((n, sess, L) # hops). \<exists>s s'. net m = Some s \<and> net' m = Some s' \<and>
       ms_sessions s' = snd (shm_remove i (ms_sessions s))) \<and>
    (\<forall>m. m \<notin> hop_nodes ((n, sess, L) # hops) \<longrightarrow> net' m = net m)"
  using assms
proof (induction hops arbitrary: n sess L k req net)
  case Nil
  let ?env = "c_envs E n"
  obtain s c where i: "net n = Some s" "c_ok E n (ms_layers s)" "get_clone (ms_sessions s) (ereq_session req) = Some c"
    "sc_local c \<noteq> None" "sc_remote c = None"
    using Nil.prems(2,3) by (elim chain_inv_hop) simp
  have nd: "layers_worker (e_layers ?env) L (c_blk E) (c_init E) (c_view E n) (c_ok E n)" "accepting (e_usage ?env)"
    using Nil.prems(1) by (auto simp: nodes_ok_def)
  obtain k' where k: "k = Suc k'" using Nil.prems(4) by (cases k) auto
  obtain r s' where f: "end_begin ?env req s = Inr (Inl r, s')" "eres_success r"
    "ms_sessions s' = snd (shm_remove (ereq_session req) (ms_sessions s))"
    by (rule end_begin_hop[OF nd(1,2) i(2-4)]) (auto simp: i(5))
  then show ?case using i(1) Nil.prems(3) by (simp add: k hop_nodes_def)
next
  case (Cons h hops)
  obtain d rs L' where h: "h = (d, rs, L')" by (cases h) auto
  let ?env = "c_envs E n" and ?hops = "(d, rs, L') # hops"
  obtain s c where i: "net n = Some s" "c_ok E n (ms_layers s)" "get_clone (ms_sessions s) (ereq_session req) = Some c"
    "sc_local c \<noteq> None" "sc_remote c = Some (d, rs)" "n \<notin> hop_nodes ?hops" "chain_inv E net ?hops C"
    by (rule chain_inv_hop[OF Cons.prems(2)[unfolded h]]) (simp add: Cons.prems(3))
  have nd: "layers_worker (e_layers ?env) L (c_blk E) (c_init E) (c_view E n) (c_ok E n)" "accepting (e_usage ?env)" "nodes_ok E ?hops"
    using Cons.prems(1) unfolding h nodes_ok_Cons by auto
  obtain r s' req' md where f: "end_begin ?env req s = Inr (r, s')"
    "ms_sessions s' = snd (shm_remove (ereq_session req) (ms_sessions s))"
    "r = Inr (sc_chat_id c, req', d, \<lparr>ereq_session = rs, ereq_metadata = md, ereq_chain_index = ereq_chain_index req + 1\<rparr>)"
    by (rule end_begin_hop[OF nd(1,2) i(2-4)]) (simp add: i(5))
  let ?out = "\<lparr>ereq_session = rs, ereq_metadata = md, ereq_chain_index = ereq_chain_index req + 1\<rparr>" and ?net = "net(n \<mapsto> s')"
  obtain k' where k: "k = Suc k'" "length hops < k'" using Cons.prems(4) by (cases k) auto
  have inv: "chain_inv E ?net ?hops C" using i(6) by (intro chain_inv_cong[OF i(7)]) auto
  have "\<exists>res net'. net_end (c_envs E) k' d ?out ?net = Inr (res, net') \<and> eres_success res \<and>
    (\<forall>(m, i, _) \<in> set ?hops. \<exists>s s'. ?net m = Some s \<and> net' m = Some s' \<and>
       ms_sessions s' = snd (shm_remove i (ms_sessions s))) \<and>
    (\<forall>m. m \<notin> hop_nodes ?hops \<longrightarrow> net' m = ?net m)"
    by (rule Cons.IH[OF nd(3) inv]) (use k(2) in simp_all)
  then obtain res net' where ih: "net_end (c_envs E) k' d ?out ?net = Inr (res, net')" "eres_success res"
    "\<forall>(m, i, _) \<in> set ?hops. \<exists>s s'. ?net m = Some s \<and> net' m = Some s' \<and> ms_sessions s' = snd (shm_remove i (ms_sessions s))"
    "\<forall>m. m \<notin> hop_nodes ?hops \<longrightarrow> net' m = ?net m"
    by (elim exE conjE)
  obtain res' s3 where a: "end_finish ?env (sc_chat_id c) req' (Inr res) s' = Inr (res', s3)" "eres_success res' = eres_success res"
    "ms_sessions s3 = ms_sessions s'" "ms_layers s3 = ms_layers s'" "ms_router s3 = ms_router s'"
    by (rule end_finish_hop[OF nd(2)])
  have "net' n = Some s'" using ih(4) i(6) by simp
  then have "net_end (c_envs E) k n req net = Inr (res', net'(n \<mapsto> s3))"
    using i(1) f(1,3) ih(1) a(1) by (simp add: k(1))
  moreover have "\<exists>s s'. net m = Some s \<and> (net'(n \<mapsto> s3)) m = Some s' \<and> ms_sessions s' = snd (shm_remove j (ms_sessions s))"
    if "(m, j, M) \<in> set ?hops" for m j M
  proof -
    have "m \<in> hop_nodes ?hops" using that by (force simp: hop_nodes_def)
    then have "m \<noteq> n" using i(6) by blast
    then show ?thesis using bspec[OF ih(3) that] by simp
  qed
  then have "\<forall>(m, j, M) \<in> set ?hops. \<exists>s s'. net m = Some s \<and> (net'(n \<mapsto> s3)) m = Some s' \<and>
       ms_sessions s' = snd (shm_remove j (ms_sessions s))"
    by blast
  ultimately show ?case
    using a(2,3) ih(2,4) i(1,6) f(2) Cons.prems(3) by (simp add: h)
qed

end
