(* ===== verification/Virtual_Layers.thy ===== *)
theory Virtual_Layers
  imports Inference_Chain
begin

text \<open>
  The layers a chat runs on when it runs on the network: \<open>VirtualModelLayers\<close> of
  \<^verbatim>\<open>crates/worker/src/virtual_model_layers.rs\<close>. Its state is the network; its operations
  are requests to the service of the node of the chat, whose number of hops is bounded by
  \<open>v_fuel\<close> and whose random session numbers are \<open>v_sessions\<close>. The interpretation
  \<open>virtual\<close> says that it keeps the contract of a session of the whole model: for a chat,
  the chain of nodes is a worker that has all the layers.
\<close>

record ('t, 'l, 'u) virtual_env =
  v_envs :: "node_id \<Rightarrow> ('t, 'l, 'u) ms_env"
  v_tensor :: "'t tensor_env"
  v_node :: node_id
  v_fuel :: nat
  v_sessions :: "session list"

definition virtual_start ::
  "('t, 'l, 'u) virtual_env \<Rightarrow> session \<Rightarrow> chat_cfg \<Rightarrow> ('l, 'u) network \<Rightarrow> ((string + unit) \<times> ('l, 'u) network) res" where
  "virtual_start V session config net =
     res_bind (net_start (v_envs V) (v_sessions V) (v_node V)
        \<lparr>sreq_session = session, sreq_chat_id = session, sreq_from_layer = 0, sreq_metadata = [],
         sreq_chain_index = 0, sreq_max_tokens = max_len config\<rparr> net) (\<lambda>(res, net).
     Inr (if sres_success res then Inr () else Inl ''Worker Start Error'', net))"

definition virtual_forward ::
  "('t, 'l, 'u) virtual_env \<Rightarrow> session \<Rightarrow> u32 \<Rightarrow> 't \<times> u32 \<Rightarrow> u32 \<Rightarrow> ('l, 'u) network \<Rightarrow>
    ((string + ('t \<times> u32)) \<times> ('l, 'u) network) res" where
  "virtual_forward V session step = (\<lambda>(tensor, seq_len) index_pos net.
     res_bind (tensor_encode (v_tensor V) tensor) (\<lambda>embedding.
     res_bind (net_forward (v_envs V) (v_fuel V) (v_node V)
        \<lparr>freq_session = session, freq_step = step, freq_embedding = embedding, freq_index_pos = index_pos,
         freq_seq_len = seq_len, freq_metadata = [], freq_chain_index = 0\<rparr> net) (\<lambda>(res, net).
     if fres_success res
     then res_bind (unwrap_option UnwrapOnErr (tensor_buf_try_from (v_tensor V) (fres_embedding res))) (\<lambda>tb.
       case to_tensor (v_tensor V) tb of
         None \<Rightarrow> Inr (Inl ''Tensor Error'', net)
       | Some t \<Rightarrow> Inr (Inr (t, seq_len), net))
     else Inr (Inl ''RpcError'', net))))"

definition virtual_finish ::
  "('t, 'l, 'u) virtual_env \<Rightarrow> session \<Rightarrow> ('l, 'u) network \<Rightarrow> ('l, 'u) network res" where
  "virtual_finish V session net =
     res_bind (net_end (v_envs V) (v_fuel V) (v_node V)
        \<lparr>ereq_session = session, ereq_metadata = [], ereq_chain_index = 0\<rparr> net) (\<lambda>(_, net). Inr net)"

definition virtual_ops :: "('t, 'l, 'u) virtual_env \<Rightarrow> ('t, ('l, 'u) network) layers_ops" where
  "virtual_ops V = \<lparr>lw_start = virtual_start V, lw_forward = virtual_forward V, lw_finish = virtual_finish V\<rparr>"

section \<open>The chain behind the virtual layers\<close>

text \<open>
  The environment of a chat at the first node of a chain, and what the chain needs for a
  START: correct nodes, routers that describe it, and enough layers of the model for it.
\<close>

definition chat_env :: "('t, 'l, 'u, 'k) chain_env \<Rightarrow> hop list \<Rightarrow> ('t, 'l, 'u) virtual_env" where
  "chat_env E hops = \<lparr>v_envs = c_envs E, v_tensor = c_tensor E, v_node = fst (hd hops), v_fuel = length hops,
     v_sessions = map (fst \<circ> snd) (tl hops) @ [0]\<rparr>"

definition chain_ready :: "('t, 'l, 'u, 'k) chain_env \<Rightarrow> nat \<Rightarrow> hop list \<Rightarrow> ('l, 'u) network \<Rightarrow> bool" where
  "chain_ready E N hops net \<longleftrightarrow> N < 2 ^ 32 \<and> nodes_ok E hops \<and> start_plan net N 0 hops \<and> workers_ok E net hops"

definition chain_runs :: "('t, 'l, 'u, 'k) chain_env \<Rightarrow> nat \<Rightarrow> hop list \<Rightarrow> ('l, 'u) network \<Rightarrow> (nat \<Rightarrow> 'k) \<Rightarrow> bool" where
  "chain_runs E N hops net C \<longleftrightarrow> hops \<noteq> [] \<and> hop_layers hops = [0 ..< N] \<and> nodes_ok E hops \<and> chain_inv E net hops C"

lemma virtual_start_chain:
  assumes "chain_ready E N hops net"
  shows "\<exists>net'. virtual_start (chat_env E hops) (fst (snd (hd hops))) cfg net = Inr (Inr (), net') \<and>
    chain_runs E N hops net' (c_init E)"
proof (cases hops)
  case (Cons h rest)
  obtain n sess L where h: "h = (n, sess, L)" by (cases h) auto
  have c: "N < 2 ^ 32" "nodes_ok E ((n, sess, L) # rest)" "start_plan net N 0 ((n, sess, L) # rest)" "workers_ok E net ((n, sess, L) # rest)"
    using assms by (auto simp: chain_ready_def Cons h)
  have l: "L @ hop_layers rest = [0 ..< N]"
    using start_plan_layers[OF c(3,1)] by simp
  then have "distinct (L @ hop_layers rest)" by simp
  note net_start_chain[OF c(2-4) this, of
      "\<lparr>sreq_session = sess, sreq_chat_id = sess, sreq_from_layer = 0, sreq_metadata = [], sreq_chain_index = 0, sreq_max_tokens = max_len cfg\<rparr>"
      "map (fst \<circ> snd) rest @ [0]" 0 "[]"]
  then show ?thesis
    using c(2) l by (auto simp: Cons h virtual_start_def chat_env_def chain_runs_def simp del: chain_inv.simps)
qed (use assms in \<open>simp add: chain_ready_def\<close>)

lemma virtual_forward_chain:
  assumes "chain_runs E N hops net C" "run_layers (c_blk E) [0 ..< N] pos m x C = (Inr y, D)"
  shows "\<exists>net'. virtual_forward (chat_env E hops) (fst (snd (hd hops))) step (x, m) pos net = Inr (Inr (y, m), net') \<and>
    chain_runs E N hops net' D"
proof -
  obtain n sess L rest where h: "hops = (n, sess, L) # rest" using assms(1) by (cases hops) (auto simp: chain_runs_def)
  have c: "nodes_ok E ((n, sess, L) # rest)" "chain_inv E net ((n, sess, L) # rest) C" "L @ hop_layers rest = [0 ..< N]"
    using assms(1) by (auto simp: chain_runs_def h)
  have te: "tensor_ok (c_tensor E)" using c(1) by (simp add: nodes_ok_def)
  obtain b where b: "tensor_encode (c_tensor E) x = Inr b" "tensor_decode (c_tensor E) b = Inr x"
    using tensor_encode_total[OF te, of x] by (elim exE conjE)
  let ?req = "\<lparr>freq_session = sess, freq_step = step, freq_embedding = b, freq_index_pos = pos,
         freq_seq_len = m, freq_metadata = [], freq_chain_index = 0\<rparr>"
  have "\<exists>res net'. net_forward (c_envs E) (Suc (length rest)) n ?req net = Inr (res, net') \<and> fres_success res \<and>
    tensor_decode (c_tensor E) (fres_embedding res) = Inr y \<and> chain_inv E net' ((n, sess, L) # rest) D \<and>
    (\<forall>m. m \<notin> hop_nodes ((n, sess, L) # rest) \<longrightarrow> net' m = net m)"
    by (rule net_forward_chain[OF c(1,2)]) (use b(2) assms(2) c(3) in simp_all)
  then obtain res net' where f: "net_forward (c_envs E) (Suc (length rest)) n ?req net = Inr (res, net')" "fres_success res"
    "tensor_decode (c_tensor E) (fres_embedding res) = Inr y" "chain_inv E net' ((n, sess, L) # rest) D"
    by (elim exE conjE)
  obtain tb where "tensor_buf_try_from (c_tensor E) (fres_embedding res) = Some tb" "to_tensor (c_tensor E) tb = Some y"
    using f(3) by (auto simp: tensor_decode_def unwrap_option_def elim!: res_bind_InrE split: option.splits)
  then show ?thesis
    using b(1) f c by (auto simp: h virtual_forward_def chat_env_def chain_runs_def unwrap_option_def simp del: chain_inv.simps net_forward.simps)
qed

lemma virtual_finish_chain:
  assumes "chain_runs E N hops net C"
  shows "\<exists>net'. virtual_finish (chat_env E hops) (fst (snd (hd hops))) net = Inr net' \<and>
    (\<forall>(m, i, _) \<in> set hops. \<exists>s s'. net m = Some s \<and> net' m = Some s' \<and> ms_sessions s' = snd (shm_remove i (ms_sessions s))) \<and>
    (\<forall>m. m \<notin> hop_nodes hops \<longrightarrow> net' m = net m)"
proof -
  obtain n sess L rest where h: "hops = (n, sess, L) # rest" using assms(1) by (cases hops) (auto simp: chain_runs_def)
  let ?req = "\<lparr>ereq_session = sess, ereq_metadata = [], ereq_chain_index = 0\<rparr>"
  have "\<exists>res net'. net_end (c_envs E) (Suc (length rest)) n ?req net = Inr (res, net') \<and> eres_success res \<and>
    (\<forall>(m, i, _) \<in> set ((n, sess, L) # rest). \<exists>s s'. net m = Some s \<and> net' m = Some s' \<and>
       ms_sessions s' = snd (shm_remove i (ms_sessions s))) \<and>
    (\<forall>m. m \<notin> hop_nodes ((n, sess, L) # rest) \<longrightarrow> net' m = net m)"
    by (rule net_end_chain[where C = C]) (use assms in \<open>auto simp: chain_runs_def h\<close>)
  then show ?thesis
    by (elim exE conjE) (simp add: h virtual_finish_def chat_env_def del: net_end.simps)
qed

interpretation virtual: session_layers "virtual_ops (chat_env E hops)" "[0 ..< N]" "c_blk E" "c_init E" "fst (snd (hd hops))"
  "chain_ready E N hops" "chain_runs E N hops" for E hops N
proof unfold_locales
  fix l C assume "chain_runs E N hops l C"
  then show "\<exists>l'. lw_finish (virtual_ops (chat_env E hops)) (fst (snd (hd hops))) l = Inr l'"
    using virtual_finish_chain by (fastforce simp: virtual_ops_def)
qed (use virtual_start_chain virtual_forward_chain in \<open>simp_all add: virtual_ops_def\<close>)

end
