(* ===== verification/Candle.thy ===== *)
theory Candle
  imports Protocol Tensor_Buf
begin

text \<open>
  What the models use of the tensor library \<open>candle\<close> and of floating-point arithmetic, as
  the parameter record \<open>candle\<close>, and the shape of the code that uses it: a function that
  may panic, may return an error (\<open>Result\<close>, the operator \<open>?\<close>) and may change a state.
  \<open>'t\<close> are tensors, \<open>'w\<close> are the weights of a linear, a norm or an embedding. A
  one-dimensional tensor of numbers is made and read by \<open>c_new_f32s\<close>, \<open>c_to_vec1\<close>.
\<close>

section \<open>Functions that may fail\<close>

type_synonym 'a cres = "string + 'a"

type_synonym ('s, 'a) op = "'s \<Rightarrow> ('a cres \<times> 's) res"

definition ret :: "'a \<Rightarrow> ('s, 'a) op" where
  "ret x s = Inr (Inr x, s)"

definition bail :: "string \<Rightarrow> ('s, 'a) op" where
  "bail e s = Inr (Inl e, s)"

text \<open>\<open>m?\<close> for a library call, for a call of the program, and a computation that may panic.\<close>

definition try_op :: "'a cres \<Rightarrow> ('a \<Rightarrow> ('s, 'b) op) \<Rightarrow> ('s, 'b) op" where
  "try_op m k s = (case m of Inl e \<Rightarrow> Inr (Inl e, s) | Inr x \<Rightarrow> k x s)"

definition bind_op :: "('s, 'a) op \<Rightarrow> ('a \<Rightarrow> ('s, 'b) op) \<Rightarrow> ('s, 'b) op" where
  "bind_op m k s = (case m s of
       Inl p \<Rightarrow> Inl p
     | Inr (Inl e, s') \<Rightarrow> Inr (Inl e, s')
     | Inr (Inr x, s') \<Rightarrow> k x s')"

definition need_op :: "'a res \<Rightarrow> ('a \<Rightarrow> ('s, 'b) op) \<Rightarrow> ('s, 'b) op" where
  "need_op m k s = (case m of Inl p \<Rightarrow> Inl p | Inr x \<Rightarrow> k x s)"

definition get_op :: "('s \<Rightarrow> ('s, 'b) op) \<Rightarrow> ('s, 'b) op" where
  "get_op k s = k s s"

definition put_op :: "('s \<Rightarrow> 's) \<Rightarrow> ('s, 'b) op \<Rightarrow> ('s, 'b) op" where
  "put_op f k s = k (f s)"

definition cres_bind :: "'a cres \<Rightarrow> ('a \<Rightarrow> 'b cres) \<Rightarrow> 'b cres" where
  "cres_bind m k = (case m of Inl e \<Rightarrow> Inl e | Inr x \<Rightarrow> k x)"

lemmas op_defs = ret_def bail_def try_op_def bind_op_def need_op_def get_op_def put_op_def

lemma try_op_simps [simp]:
  "try_op (Inr x) k s = k x s" "try_op (Inl e) k s = Inr (Inl e, s)"
  by (simp_all add: try_op_def)

lemma cres_bind_simps [simp]: "cres_bind (Inr x) k = k x" "cres_bind (Inl e) k = Inl e"
  by (simp_all add: cres_bind_def)

definition usize_div :: "usize \<Rightarrow> usize \<Rightarrow> usize res" where
  "usize_div a b = (if b = 0 then Inl DivideByZero else Inr (a div b))"

section \<open>Floating point\<close>

record float_ops =
  f32_add :: "f32 \<Rightarrow> f32 \<Rightarrow> f32"
  f32_sub :: "f32 \<Rightarrow> f32 \<Rightarrow> f32"
  f32_mul :: "f32 \<Rightarrow> f32 \<Rightarrow> f32"
  f32_div :: "f32 \<Rightarrow> f32 \<Rightarrow> f32"
  f32_powf :: "f32 \<Rightarrow> f32 \<Rightarrow> f32"
  f32_sqrt :: "f32 \<Rightarrow> f32"
  f32_lt :: "f32 \<Rightarrow> f32 \<Rightarrow> bool"
  f32_ge :: "f32 \<Rightarrow> f32 \<Rightarrow> bool"
  f32_eq :: "f32 \<Rightarrow> f32 \<Rightarrow> bool"
  f32_of_usize :: "usize \<Rightarrow> f32"
  f32_of_f64 :: "f64 \<Rightarrow> f32"
  f64_le :: "f64 \<Rightarrow> f64 \<Rightarrow> bool"
  f64_lt :: "f64 \<Rightarrow> f64 \<Rightarrow> bool"
  f64_of_usize :: "usize \<Rightarrow> f64"
  f64_sqrt :: "f64 \<Rightarrow> f64"

text \<open>The bit patterns of the literals: 0, 1, 2, the constant \<open>PI\<close> and minus infinity in single precision.\<close>

definition f32_zero :: f32 where "f32_zero = 0"
definition f32_one :: f32 where "f32_one = 0x3F800000"
definition f32_two :: f32 where "f32_two = 0x40000000"
definition f32_pi :: f32 where "f32_pi = 0x40490FDB"
definition f32_neg_infinity :: f32 where "f32_neg_infinity = 0xFF800000"

text \<open>\<open>f32::total_cmp\<close>: the bits, with the sign folded, compared as signed integers.\<close>

definition total_key :: "f32 \<Rightarrow> int" where
  "total_key x = (if bit x 31 then - 1 - uint (take_bit 31 x) else uint x)"

definition total_less :: "f32 \<Rightarrow> f32 \<Rightarrow> bool" where
  "total_less x y \<longleftrightarrow> total_key x < total_key y"

section \<open>Tensors\<close>

datatype cdim = Dim usize | Minus1

record ('t, 'w) candle =
  c_fp :: float_ops
  c_dims :: "'t \<Rightarrow> usize list"
  c_dtype :: "'t \<Rightarrow> dtype"
  c_elem_count :: "'t \<Rightarrow> usize"
  c_reshape :: "'t \<Rightarrow> usize list \<Rightarrow> 't cres"
  c_transpose :: "'t \<Rightarrow> nat \<Rightarrow> nat \<Rightarrow> 't cres"
  c_t :: "'t \<Rightarrow> 't cres"
  c_contiguous :: "'t \<Rightarrow> 't cres"
  c_narrow :: "'t \<Rightarrow> cdim \<Rightarrow> usize \<Rightarrow> usize \<Rightarrow> 't cres"
  c_cat :: "'t list \<Rightarrow> nat \<Rightarrow> 't cres"
  c_matmul :: "'t \<Rightarrow> 't \<Rightarrow> 't cres"
  c_add :: "'t \<Rightarrow> 't \<Rightarrow> 't cres"
  c_mul :: "'t \<Rightarrow> 't \<Rightarrow> 't cres"
  c_div_scalar :: "'t \<Rightarrow> f64 \<Rightarrow> 't cres"
  c_to_dtype :: "'t \<Rightarrow> dtype \<Rightarrow> 't cres"
  c_broadcast_as :: "'t \<Rightarrow> usize list \<Rightarrow> 't cres"
  c_where_cond :: "'t \<Rightarrow> 't \<Rightarrow> 't \<Rightarrow> 't cres"
  c_softmax :: "'t \<Rightarrow> cdim \<Rightarrow> 't cres"
  c_softmax_last_dim :: "'t \<Rightarrow> 't cres"
  c_silu :: "'t \<Rightarrow> 't cres"
  c_rope :: "'t \<Rightarrow> 't \<Rightarrow> 't \<Rightarrow> 't cres"
  c_cos :: "'t \<Rightarrow> 't cres"
  c_sin :: "'t \<Rightarrow> 't cres"
  c_squeeze :: "'t \<Rightarrow> nat \<Rightarrow> 't cres"
  c_unsqueeze :: "'t \<Rightarrow> nat \<Rightarrow> 't cres"
  c_index_mid :: "'t \<Rightarrow> usize \<Rightarrow> 't cres"
  c_new_f32 :: "f32 \<Rightarrow> 't cres"
  c_new_f32s :: "f32 list \<Rightarrow> 't cres"
  c_new_u32s :: "u32 list \<Rightarrow> 't cres"
  c_from_u8s :: "u8 list \<Rightarrow> usize list \<Rightarrow> 't cres"
  c_arange :: "u32 \<Rightarrow> u32 \<Rightarrow> 't cres"
  c_to_vec1 :: "'t \<Rightarrow> f32 list cres"
  c_linear :: "'w \<Rightarrow> 't \<Rightarrow> 't cres"
  c_rms_norm :: "'w \<Rightarrow> 't \<Rightarrow> 't cres"
  c_embedding :: "'w \<Rightarrow> 't \<Rightarrow> 't cres"
  c_flash_attn :: "('t \<Rightarrow> 't \<Rightarrow> 't \<Rightarrow> f32 \<Rightarrow> bool \<Rightarrow> 't cres) option"

definition dims2 :: "('t, 'w) candle \<Rightarrow> 't \<Rightarrow> (usize \<times> usize) cres" where
  "dims2 T x = (case c_dims T x of [a, b] \<Rightarrow> Inr (a, b) | _ \<Rightarrow> Inl ''unexpected rank'')"

definition dims3 :: "('t, 'w) candle \<Rightarrow> 't \<Rightarrow> (usize \<times> usize \<times> usize) cres" where
  "dims3 T x = (case c_dims T x of [a, b, c] \<Rightarrow> Inr (a, b, c) | _ \<Rightarrow> Inl ''unexpected rank'')"

definition dims4 :: "('t, 'w) candle \<Rightarrow> 't \<Rightarrow> (usize \<times> usize \<times> usize \<times> usize) cres" where
  "dims4 T x = (case c_dims T x of [a, b, c, d] \<Rightarrow> Inr (a, b, c, d) | _ \<Rightarrow> Inl ''unexpected rank'')"

text \<open>What is documented of the shapes: \<open>cat\<close> keeps the rank of its arguments, which is larger
  than the dimension it works on, and \<open>contiguous\<close> keeps the shape.\<close>

definition candle_ok :: "('t, 'w) candle \<Rightarrow> bool" where
  "candle_ok T \<longleftrightarrow> (\<forall>xs d y. c_cat T xs d = Inr y \<longrightarrow> d < length (c_dims T y)) \<and>
     (\<forall>x y. c_contiguous T x = Inr y \<longrightarrow> c_dims T y = c_dims T x)"

section \<open>Numbers in text\<close>

fun digits :: "nat \<Rightarrow> string" where
  "digits n = (if n < 10 then [char_of (48 + n)] else digits (n div 10) @ [char_of (48 + n mod 10)])"

declare digits.simps [simp del]

section \<open>Shared helpers (utils.rs)\<close>

definition repeat_kv :: "('t, 'w) candle \<Rightarrow> 't \<Rightarrow> usize \<Rightarrow> 't cres" where
  "repeat_kv T xs n_rep = (if n_rep = 1 then Inr xs else
     cres_bind (dims4 T xs) (\<lambda>(b_sz, n_kv_head, seq_len, head_dim).
     cres_bind (c_cat T (replicate (unat n_rep) xs) 2) (\<lambda>y.
     c_reshape T y [b_sz, n_kv_head * n_rep, seq_len, head_dim])))"

text \<open>The causal mask: row-major, one where the column is after the row.\<close>

definition mask_vec :: "nat \<Rightarrow> u8 list" where
  "mask_vec t = concat (map (\<lambda>i. map (\<lambda>j. if j > i then 1 else 0) [0 ..< t]) [0 ..< t])"

definition make_mask :: "('t, 'w) candle \<Rightarrow> usize \<Rightarrow> 't cres" where
  "make_mask T t = c_from_u8s T (mask_vec (unat t)) [t, t]"

lemma mask_vec_length: "length (mask_vec t) = t * t"
  by (simp add: mask_vec_def length_concat comp_def sum_list_triv)

lemma nth_concat_rows:
  assumes "\<And>i. i < m \<Longrightarrow> length (f i) = t" "i < m" "j < t"
  shows "concat (map f [0 ..< m]) ! (i * t + j) = f i ! j"
  using assms
proof (induction m)
  case (Suc m)
  have len: "length (concat (map f [0 ..< k])) = k * t" if "k \<le> m" for k
    using that Suc.prems(1) by (induction k) auto
  show ?case
  proof (cases "i < m")
    case True
    have "i * t + j < m * t" using True Suc.prems(3)
      by (metis add.commute add_less_cancel_left less_le_trans mult_Suc mult_le_mono1 Suc_leI)
    then show ?thesis using Suc True by (simp add: nth_append len)
  next
    case False
    then show ?thesis using Suc.prems by (simp add: nth_append len less_Suc_eq)
  qed
qed simp

lemma mask_vec_nth:
  "i < t \<Longrightarrow> j < t \<Longrightarrow> mask_vec t ! (i * t + j) = (if j > i then 1 else 0)"
  unfolding mask_vec_def by (subst nth_concat_rows) auto

text \<open>\<open>apply_repeat_penalty\<close>: each token of the context that has a logit is penalised once.\<close>

fun penalize :: "float_ops \<Rightarrow> f32 \<Rightarrow> u32 list \<Rightarrow> u32 set \<Rightarrow> f32 list \<Rightarrow> f32 list" where
  "penalize fp penalty [] seen logits = logits"
| "penalize fp penalty (t # ts) seen logits =
     (if t \<in> seen then penalize fp penalty ts seen logits
      else penalize fp penalty ts (insert t seen)
        (if unat t < length logits
         then logits[unat t := (if f32_ge fp (logits ! unat t) f32_zero
                               then f32_div fp (logits ! unat t) penalty
                               else f32_mul fp (logits ! unat t) penalty)]
         else logits))"

definition apply_repeat_penalty :: "('t, 'w) candle \<Rightarrow> 't \<Rightarrow> f32 \<Rightarrow> u32 list \<Rightarrow> 't cres" where
  "apply_repeat_penalty T logits penalty context =
     cres_bind (c_to_dtype T logits DT_F32) (\<lambda>l.
     cres_bind (c_to_vec1 T l) (\<lambda>v.
     c_new_f32s T (penalize (c_fp T) penalty context {} v)))"

lemma penalize_length [simp]: "length (penalize fp p ts seen l) = length l"
  by (induction fp p ts seen l rule: penalize.induct) auto

lemma penalize_nth:
  assumes "i < length l" "length l \<le> 2 ^ 32"
  shows "penalize fp p ts seen l ! i =
    (if word_of_nat i \<in> set ts - seen
     then (if f32_ge fp (l ! i) f32_zero then f32_div fp (l ! i) p else f32_mul fp (l ! i) p) else l ! i)"
  using assms
proof (induction fp p ts seen l rule: penalize.induct)
  case (2 fp p t ts seen l)
  have i: "unat (word_of_nat i :: u32) = i" using 2(3,4) by (simp add: unat_u32_of_nat)
  have eq: "unat t = i \<longleftrightarrow> t = word_of_nat i" by (simp add: word_unat_eq_iff i)
  show ?case
  proof (cases "t \<in> seen")
    case True
    then show ?thesis using 2(1)[OF True 2(3,4)] by auto
  next
    case False
    show ?thesis using 2(2)[OF False] 2(3,4) False i eq by (auto simp: nth_list_update)
  qed
qed simp

section \<open>A library to compute with\<close>

text \<open>
  Tensors as a shape and its numbers, with whole numbers for the floating-point ones; the
  operations that combine tensors return their first argument, products of a linear are the
  argument. It keeps the documented shapes.
\<close>

type_synonym flat = "usize list \<times> u32 list"

definition flat_floats :: float_ops where
  "flat_floats = \<lparr>f32_add = (+), f32_sub = (-), f32_mul = (*), f32_div = (div), f32_powf = (\<lambda>x _. x), f32_sqrt = id,
     f32_lt = (<), f32_ge = (\<ge>), f32_eq = (=), f32_of_usize = ucast, f32_of_f64 = ucast, f64_le = (\<le>), f64_lt = (<),
     f64_of_usize = id, f64_sqrt = id\<rparr>"

definition flat_candle :: "(flat, unit) candle" where
  "flat_candle = \<lparr>c_fp = flat_floats, c_dims = fst, c_dtype = (\<lambda>_. DT_F32), c_elem_count = (\<lambda>x. word_of_nat (length (snd x))),
     c_reshape = (\<lambda>x d. Inr (d, snd x)), c_transpose = (\<lambda>x _ _. Inr x), c_t = Inr, c_contiguous = Inr, c_narrow = (\<lambda>x _ _ _. Inr x),
     c_cat = (\<lambda>xs d. Inr (replicate (Suc d) 1 @ [1], concat (map snd xs))), c_matmul = (\<lambda>x _. Inr x), c_add = (\<lambda>x _. Inr x),
     c_mul = (\<lambda>x _. Inr x), c_div_scalar = (\<lambda>x _. Inr x), c_to_dtype = (\<lambda>x _. Inr x), c_broadcast_as = (\<lambda>x _. Inr x),
     c_where_cond = (\<lambda>_ _ x. Inr x), c_softmax = (\<lambda>x _. Inr x), c_softmax_last_dim = Inr, c_silu = Inr, c_rope = (\<lambda>x _ _. Inr x),
     c_cos = Inr, c_sin = Inr, c_squeeze = (\<lambda>x _. Inr (tl (fst x), snd x)), c_unsqueeze = (\<lambda>x _. Inr (1 # fst x, snd x)),
     c_index_mid = (\<lambda>x _. Inr x), c_new_f32 = (\<lambda>v. Inr ([], [v])), c_new_f32s = (\<lambda>v. Inr ([word_of_nat (length v)], v)),
     c_new_u32s = (\<lambda>v. Inr ([word_of_nat (length v)], v)), c_from_u8s = (\<lambda>v d. Inr (d, map ucast v)),
     c_arange = (\<lambda>a b. Inr ([ucast (b - a)], [])), c_to_vec1 = (\<lambda>x. Inr (snd x)), c_linear = (\<lambda>_. Inr), c_rms_norm = (\<lambda>_. Inr),
     c_embedding = (\<lambda>_ x. Inr (fst x @ [1], snd x)), c_flash_attn = None\<rparr>"

lemma flat_candle_ok: "candle_ok flat_candle"
  by (simp add: candle_ok_def flat_candle_def)

end
