(* ===== verification/Phi3_Layers.thy ===== *)
theory Phi3_Layers
  imports Candle Layers_Workers
begin

text \<open>
  The layers of the Phi-3 model: \<^verbatim>\<open>crates/models/src/phi3/layers_cache.rs\<close>,
  \<^verbatim>\<open>phi3/internal/*.rs\<close> and the worker \<^verbatim>\<open>phi3/layers_worker.rs\<close>. The key-value cache of
  \<open>candle_nn\<close> and the model file (GGUF) are parameters. Unlike the Llama worker, which has
  one cache per session with a slot per layer, this one has one map of sessions per layer. The
  interpretation \<open>phi3\<close> says that it keeps the same contract.
\<close>

section \<open>The caches\<close>

record ('t, 'kv) kv_ops =
  kv_new :: "usize \<Rightarrow> usize \<Rightarrow> 'kv"
  kv_append :: "'t \<Rightarrow> 't \<Rightarrow> ('kv, 't \<times> 't) op"

record 'kv layers_cache =
  lc_layers :: "(session, 'kv) shared_hash_map list"
  lc_dim :: usize
  lc_max_seq_len :: usize

definition layers_cache_new :: "nat \<Rightarrow> usize \<Rightarrow> usize \<Rightarrow> 'kv layers_cache" where
  "layers_cache_new n dim max_seq_len = \<lparr>lc_layers = replicate n shm_new, lc_dim = dim, lc_max_seq_len = max_seq_len\<rparr>"

definition add_cache :: "('t, 'kv) kv_ops \<Rightarrow> nat \<Rightarrow> session \<Rightarrow> 'kv layers_cache \<Rightarrow> 'kv layers_cache res" where
  "add_cache KV idx session c = res_bind (vec_index (lc_layers c) idx) (\<lambda>m.
     Inr (c\<lparr>lc_layers := (lc_layers c)[idx := snd (shm_insert session (kv_new KV (lc_dim c) (lc_max_seq_len c)) m)]\<rparr>))"

definition get_cache :: "nat \<Rightarrow> session \<Rightarrow> 'kv layers_cache \<Rightarrow> 'kv res" where
  "get_cache idx session c = res_bind (vec_index (lc_layers c) idx) (\<lambda>m. unwrap_option UnwrapOnNone (get_clone m session))"

definition del_cache :: "nat \<Rightarrow> session \<Rightarrow> 'kv layers_cache \<Rightarrow> 'kv layers_cache res" where
  "del_cache idx session c = res_bind (vec_index (lc_layers c) idx) (\<lambda>m.
     Inr (c\<lparr>lc_layers := (lc_layers c)[idx := snd (shm_remove session m)]\<rparr>))"

text \<open>A cache is shared by reference: what a computation does to the one it got is seen in the map.\<close>

definition on_cache :: "nat \<Rightarrow> session \<Rightarrow> ('kv, 'a) op \<Rightarrow> ('kv layers_cache, 'a) op" where
  "on_cache idx session m c = res_bind (get_cache idx session c) (\<lambda>kv.
     res_bind (m kv) (\<lambda>(r, kv').
     Inr (r, c\<lparr>lc_layers := (lc_layers c)[idx := snd (shm_insert session kv' (lc_layers c ! idx))]\<rparr>)))"

section \<open>A layer\<close>

record 'w phi3_mlp =
  ffn_up :: 'w
  ffn_down :: 'w
  i_size :: usize

definition phi3_mlp_forward :: "('t, 'w) candle \<Rightarrow> 'w phi3_mlp \<Rightarrow> 't \<Rightarrow> 't cres" where
  "phi3_mlp_forward T M xs =
     cres_bind (c_linear T (ffn_up M) xs) (\<lambda>up_states.
     cres_bind (c_narrow T up_states Minus1 0 (i_size M)) (\<lambda>gate.
     cres_bind (c_narrow T up_states Minus1 (i_size M) (i_size M)) (\<lambda>up_states.
     cres_bind (c_silu T gate) (\<lambda>g.
     cres_bind (c_mul T up_states g) (\<lambda>up_states.
     c_linear T (ffn_down M) up_states)))))"

record ('t, 'w) layer_weights =
  attn_qkv :: 'w
  attn_output :: 'w
  attn_norm :: 'w
  ffn_norm :: 'w
  lw_mlp :: "'w phi3_mlp"
  n_head :: usize
  n_kv_head :: usize
  head_dim :: usize
  lw_cos :: 't
  lw_sin :: 't
  neg_inf :: 't
  lw_use_flash_attn :: bool

definition phi3_masked_fill :: "('t, 'w) candle \<Rightarrow> 't \<Rightarrow> 't \<Rightarrow> 't \<Rightarrow> 't cres" where
  "phi3_masked_fill T on_false m on_true =
     cres_bind (c_broadcast_as T on_true (c_dims T m)) (\<lambda>x. c_where_cond T m x on_false)"

definition phi3_rotary_emb :: "('t, 'w) candle \<Rightarrow> ('t, 'w) layer_weights \<Rightarrow> 't \<Rightarrow> usize \<Rightarrow> 't cres" where
  "phi3_rotary_emb T W xs index_pos =
     cres_bind (dims4 T xs) (\<lambda>(_, _, seq_len, _).
     cres_bind (c_narrow T (lw_cos W) (Dim 0) index_pos seq_len) (\<lambda>cos.
     cres_bind (c_narrow T (lw_sin W) (Dim 0) index_pos seq_len) (\<lambda>sin.
     cres_bind (c_contiguous T xs) (\<lambda>x. c_rope T x cos sin))))"

definition phi3_flash :: "('t, 'w) candle \<Rightarrow> ('t, 'w) layer_weights \<Rightarrow> usize \<Rightarrow> 't \<Rightarrow> 't \<Rightarrow> 't \<Rightarrow> ('s, 't) op" where
  "phi3_flash T W seq_len q k v =
     try_op (cres_bind (c_to_dtype T q DT_BF16) (\<lambda>x. c_transpose T x 1 2)) (\<lambda>q.
     try_op (cres_bind (c_to_dtype T k DT_BF16) (\<lambda>x. c_transpose T x 1 2)) (\<lambda>k.
     try_op (cres_bind (c_to_dtype T v DT_BF16) (\<lambda>x. c_transpose T x 1 2)) (\<lambda>v.
     need_op (case c_flash_attn T of None \<Rightarrow> Inl Unsupported
       | Some f \<Rightarrow> Inr (f q k v (f32_div (c_fp T) f32_one (f32_sqrt (c_fp T) (f32_of_usize (c_fp T) (head_dim W)))) (seq_len > 1))) (\<lambda>y.
     try_op y (\<lambda>y.
     try_op (cres_bind (c_to_dtype T y DT_F32) (\<lambda>y. c_transpose T y 1 2)) ret)))))"

definition phi3_plain :: "('t, 'w) candle \<Rightarrow> ('t, 'w) layer_weights \<Rightarrow> 't option \<Rightarrow> 't \<Rightarrow> 't \<Rightarrow> 't \<Rightarrow> 't cres" where
  "phi3_plain T W msk q k v =
     cres_bind (c_t T k) (\<lambda>kt.
     cres_bind (c_matmul T q kt) (\<lambda>att.
     cres_bind (c_div_scalar T att (f64_sqrt (c_fp T) (f64_of_usize (c_fp T) (head_dim W)))) (\<lambda>att.
     cres_bind (case msk of None \<Rightarrow> Inr att
       | Some m \<Rightarrow> cres_bind (c_broadcast_as T m (c_dims T att)) (\<lambda>m. phi3_masked_fill T att m (neg_inf W))) (\<lambda>att.
     cres_bind (c_softmax_last_dim T att) (\<lambda>att. c_matmul T att v)))))"

definition forward_attn ::
  "('t, 'w) candle \<Rightarrow> ('t, 'kv) kv_ops \<Rightarrow> ('t, 'w) layer_weights \<Rightarrow> 't option \<Rightarrow> usize \<Rightarrow> 't \<Rightarrow> ('kv, 't) op" where
  "forward_attn T KV W msk index_pos x =
     try_op (dims3 T x) (\<lambda>(b_sz, seq_len, n_embd).
     try_op (c_linear T (attn_qkv W) x) (\<lambda>qkv.
     let query_pos = n_head W * head_dim W; kv_size = n_kv_head W * head_dim W in
     try_op (c_narrow T qkv Minus1 0 query_pos) (\<lambda>q.
     try_op (c_narrow T qkv Minus1 query_pos kv_size) (\<lambda>k.
     try_op (c_narrow T qkv Minus1 (query_pos + kv_size) kv_size) (\<lambda>v.
     try_op (cres_bind (c_reshape T q [b_sz, seq_len, n_head W, head_dim W]) (\<lambda>y. c_transpose T y 1 2)) (\<lambda>q.
     try_op (cres_bind (c_reshape T k [b_sz, seq_len, n_head W, head_dim W]) (\<lambda>y. c_transpose T y 1 2)) (\<lambda>k.
     try_op (cres_bind (c_reshape T v [b_sz, seq_len, n_kv_head W, head_dim W]) (\<lambda>y. c_transpose T y 1 2)) (\<lambda>v.
     try_op (cres_bind (phi3_rotary_emb T W q index_pos) (c_contiguous T)) (\<lambda>q.
     try_op (phi3_rotary_emb T W k index_pos) (\<lambda>k.
     try_op (c_contiguous T k) (\<lambda>k.
     try_op (c_contiguous T v) (\<lambda>v.
     bind_op (kv_append KV k v) (\<lambda>(k, v).
     need_op (usize_div (n_head W) (n_kv_head W)) (\<lambda>n_rep.
     try_op (repeat_kv T k n_rep) (\<lambda>k.
     try_op (repeat_kv T v n_rep) (\<lambda>v.
     bind_op (if lw_use_flash_attn W then phi3_flash T W seq_len q k v else try_op (phi3_plain T W msk q k v) ret) (\<lambda>y.
     try_op (cres_bind (c_transpose T y 1 2) (\<lambda>y. c_reshape T y [b_sz, seq_len, n_embd])) (\<lambda>y.
     try_op (c_linear T (attn_output W) y) ret))))))))))))))))))"

section \<open>The worker\<close>

record ('t, 'w, 'kv) phi3_layers_worker =
  ph_layers :: "('t, 'w) layer_weights list"
  ph_caches :: "'kv layers_cache"

text \<open>The rest of a layer, after the attention.\<close>

definition after_attn :: "('t, 'w) candle \<Rightarrow> ('t, 'w) layer_weights \<Rightarrow> 't \<Rightarrow> 't \<Rightarrow> 't cres" where
  "after_attn T W xs ys =
     cres_bind (c_add T ys xs) (\<lambda>ys.
     cres_bind (c_rms_norm T (ffn_norm W) ys) (\<lambda>h.
     cres_bind (phi3_mlp_forward T (lw_mlp W) h) (\<lambda>h. c_add T h ys)))"

fun layers_loop ::
  "('t, 'w) candle \<Rightarrow> ('t, 'kv) kv_ops \<Rightarrow> session \<Rightarrow> 't option \<Rightarrow> usize \<Rightarrow> ('t, 'w) layer_weights list \<Rightarrow> nat \<Rightarrow> 't \<Rightarrow>
    ('kv layers_cache, 't) op" where
  "layers_loop T KV session msk index_pos [] idx xs = ret xs"
| "layers_loop T KV session msk index_pos (W # Ws) idx xs =
     try_op (c_rms_norm T (attn_norm W) xs) (\<lambda>ys.
     bind_op (on_cache idx session (forward_attn T KV W msk index_pos ys)) (\<lambda>ys.
     try_op (after_attn T W xs ys) (\<lambda>xs.
     layers_loop T KV session msk index_pos Ws (Suc idx) xs)))"

definition phi3_mask :: "('t, 'w) candle \<Rightarrow> u32 \<Rightarrow> 't option cres" where
  "phi3_mask T seq_len = (if seq_len = 1 then Inr None else cres_bind (make_mask T (ucast seq_len)) (\<lambda>m. Inr (Some m)))"

fun add_caches :: "('t, 'kv) kv_ops \<Rightarrow> session \<Rightarrow> nat list \<Rightarrow> 'kv layers_cache \<Rightarrow> 'kv layers_cache res" where
  "add_caches KV session [] c = Inr c"
| "add_caches KV session (i # is) c = res_bind (add_cache KV i session c) (add_caches KV session is)"

fun del_caches :: "session \<Rightarrow> nat list \<Rightarrow> 'kv layers_cache \<Rightarrow> 'kv layers_cache res" where
  "del_caches session [] c = Inr c"
| "del_caches session (i # is) c = res_bind (del_cache i session c) (del_caches session is)"

definition phi3_start :: "('t, 'kv) kv_ops \<Rightarrow> session \<Rightarrow> chat_cfg \<Rightarrow> (('t, 'w, 'kv) phi3_layers_worker, unit) op" where
  "phi3_start KV session cfg w = res_bind (add_caches KV session [0 ..< length (ph_layers w)] (ph_caches w)) (\<lambda>c.
     Inr (Inr (), w\<lparr>ph_caches := c\<rparr>))"

definition phi3_forward ::
  "('t, 'w) candle \<Rightarrow> ('t, 'kv) kv_ops \<Rightarrow> session \<Rightarrow> u32 \<Rightarrow> 't \<times> u32 \<Rightarrow> u32 \<Rightarrow> (('t, 'w, 'kv) phi3_layers_worker, 't \<times> u32) op" where
  "phi3_forward T KV session step = (\<lambda>(xs, seq_len) index_pos.
     try_op (phi3_mask T seq_len) (\<lambda>msk w.
     res_bind (layers_loop T KV session msk (ucast index_pos) (ph_layers w) 0 xs (ph_caches w)) (\<lambda>(r, c).
     Inr (map_sum id (\<lambda>xs. (xs, seq_len)) r, w\<lparr>ph_caches := c\<rparr>))))"

definition phi3_finish :: "session \<Rightarrow> ('t, 'w, 'kv) phi3_layers_worker \<Rightarrow> ('t, 'w, 'kv) phi3_layers_worker res" where
  "phi3_finish session w = res_bind (del_caches session [0 ..< length (ph_layers w)] (ph_caches w)) (\<lambda>c.
     Inr (w\<lparr>ph_caches := c\<rparr>))"

definition phi3_ops :: "('t, 'w) candle \<Rightarrow> ('t, 'kv) kv_ops \<Rightarrow> ('t, ('t, 'w, 'kv) phi3_layers_worker) layers_ops" where
  "phi3_ops T KV = \<lparr>lw_start = phi3_start KV, lw_forward = phi3_forward T KV, lw_finish = phi3_finish\<rparr>"

section \<open>Loading\<close>

text \<open>The model file: the numbers of its metadata and the weights by name.\<close>

record ('t, 'w) gguf =
  g_u32 :: "string \<Rightarrow> u32 cres"
  g_f32 :: "string \<Rightarrow> f32 cres"
  g_qlinear :: "string \<Rightarrow> 'w cres"
  g_rms_norm :: "string \<Rightarrow> f64 \<Rightarrow> 'w cres"
  g_embedding :: "string \<Rightarrow> usize \<Rightarrow> 'w cres"
  g_f64_of_f32 :: "f32 \<Rightarrow> f64"

definition phi3_precomput_freqs_cis :: "('t, 'w) candle \<Rightarrow> usize \<Rightarrow> usize \<Rightarrow> f32 \<Rightarrow> ('t \<times> 't) cres" where
  "phi3_precomput_freqs_cis T dim max_seq_len freq_base =
     cres_bind (c_new_f32s T (map (\<lambda>k. f32_div (c_fp T) f32_one (f32_powf (c_fp T) freq_base
         (f32_div (c_fp T) (f32_of_usize (c_fp T) (word_of_nat (2 * k))) (f32_of_usize (c_fp T) dim)))) [0 ..< (unat dim + 1) div 2])) (\<lambda>theta.
     cres_bind (c_arange T 0 (ucast max_seq_len)) (\<lambda>r.
     cres_bind (c_to_dtype T r DT_F32) (\<lambda>r.
     cres_bind (c_reshape T r [max_seq_len, 1]) (\<lambda>r.
     cres_bind (c_reshape T theta [1, c_elem_count T theta]) (\<lambda>row.
     cres_bind (c_matmul T r row) (\<lambda>idx_theta.
     cres_bind (c_cos T idx_theta) (\<lambda>cos.
     cres_bind (c_sin T idx_theta) (\<lambda>sin. Inr (cos, sin)))))))))"

text \<open>
  One layer; the two matrices of the perceptron are unwrapped, the others are passed on. The
  dimensions, the rotation and the constant are those read before the loop.
\<close>

definition phi3_load_layer ::
  "('t, 'w) gguf \<Rightarrow> bool \<Rightarrow> usize \<Rightarrow> usize \<Rightarrow> usize \<Rightarrow> usize \<Rightarrow> f64 \<Rightarrow> 't \<times> 't \<times> 't \<Rightarrow> nat \<Rightarrow> (unit, ('t, 'w) layer_weights) op" where
  "phi3_load_layer G flash heads kv_heads hdim isize eps = (\<lambda>(cos, sin, ninf) i.
     let prefix = ''blk.'' @ digits i in
     need_op (case g_qlinear G (prefix @ ''.ffn_up'') of Inl _ \<Rightarrow> Inl UnwrapOnErr | Inr w \<Rightarrow> Inr w) (\<lambda>up.
     need_op (case g_qlinear G (prefix @ ''.ffn_down'') of Inl _ \<Rightarrow> Inl UnwrapOnErr | Inr w \<Rightarrow> Inr w) (\<lambda>down.
     try_op (g_rms_norm G (prefix @ ''.attn_norm.weight'') eps) (\<lambda>an.
     try_op (g_rms_norm G (prefix @ ''.ffn_norm.weight'') eps) (\<lambda>fn.
     try_op (g_qlinear G (prefix @ ''.attn_qkv'')) (\<lambda>qkv.
     try_op (g_qlinear G (prefix @ ''.attn_output'')) (\<lambda>out.
     ret \<lparr>attn_qkv = qkv, attn_output = out, attn_norm = an, ffn_norm = fn,
          lw_mlp = \<lparr>ffn_up = up, ffn_down = down, i_size = isize\<rparr>, n_head = heads, n_kv_head = kv_heads, head_dim = hdim,
          lw_cos = cos, lw_sin = sin, neg_inf = ninf, lw_use_flash_attn = flash\<rparr>)))))))"

fun load_layers :: "(nat \<Rightarrow> (unit, 'a) op) \<Rightarrow> nat list \<Rightarrow> (unit, 'a list) op" where
  "load_layers f [] = ret []"
| "load_layers f (i # is) = bind_op (f i) (\<lambda>x. bind_op (load_layers f is) (\<lambda>xs. ret (x # xs)))"

definition phi3_worker_new ::
  "('t, 'w) candle \<Rightarrow> ('t, 'w) gguf \<Rightarrow> bool \<Rightarrow> u32_range \<Rightarrow> (unit, ('t, 'w, 'kv) phi3_layers_worker) op" where
  "phi3_worker_new T G flash r =
     bind_op (if range_list r \<noteq> [] then
         try_op (g_u32 G ''phi3.context_length'') (\<lambda>ctx.
         try_op (g_u32 G ''phi3.attention.head_count'') (\<lambda>heads.
         try_op (g_u32 G ''phi3.attention.head_count_kv'') (\<lambda>kv_heads.
         try_op (g_u32 G ''phi3.feed_forward_length'') (\<lambda>isize.
         try_op (g_f32 G ''phi3.attention.layer_norm_rms_epsilon'') (\<lambda>eps.
         try_op (g_u32 G ''phi3.embedding_length'') (\<lambda>embd.
         need_op (usize_div (ucast embd) (ucast heads)) (\<lambda>hdim.
         try_op (g_u32 G ''phi3.rope.dimension_count'') (\<lambda>rope_dim.
         try_op (phi3_precomput_freqs_cis T (ucast rope_dim) (ucast ctx) 0x461C4000) (\<lambda>(cos, sin).
         try_op (c_new_f32 T f32_neg_infinity) (\<lambda>ninf.
         bind_op (load_layers (phi3_load_layer G flash (ucast heads) (ucast kv_heads) hdim (ucast isize) (g_f64_of_f32 G eps) (cos, sin, ninf)) (range_list r)) (\<lambda>layers.
         ret (layers, ucast ctx))))))))))))
       else ret ([], 0)) (\<lambda>(layers, max_seq_len).
     ret \<lparr>ph_layers = layers, ph_caches = layers_cache_new (length (range_list r)) 2 max_seq_len\<rparr>)"

section \<open>Attention does not panic\<close>

definition total_op :: "('s, 'a) op \<Rightarrow> bool" where
  "total_op m \<longleftrightarrow> (\<forall>s. \<exists>r s'. m s = Inr (r, s'))"

lemma total_opE:
  assumes "total_op m"
  obtains r s' where "m s = Inr (r, s')"
  using assms unfolding total_op_def by blast

lemma total_ret: "total_op (ret x)"
  by (simp add: total_op_def ret_def)

lemma total_try: "(\<And>x. total_op (k x)) \<Longrightarrow> total_op (try_op m k)"
  by (cases m) (auto simp: total_op_def)

lemma total_need: "(\<And>x. total_op (k x)) \<Longrightarrow> \<exists>x. m = Inr x \<Longrightarrow> total_op (need_op m k)"
  by (auto simp: total_op_def need_op_def)

lemma total_bind:
  assumes "total_op m" "\<And>x. total_op (k x)"
  shows "total_op (bind_op m k)"
  unfolding total_op_def
proof
  fix s
  obtain r s' where m: "m s = Inr (r, s')" using assms(1) by (rule total_opE)
  show "\<exists>r s'. bind_op m k s = Inr (r, s')"
  proof (cases r)
    case (Inr x)
    then show ?thesis using m assms(2)[of x] by (simp add: bind_op_def total_op_def)
  qed (simp add: m bind_op_def)
qed

lemma total_prod: "(\<And>a b. total_op (f a b)) \<Longrightarrow> total_op (case p of (a, b) \<Rightarrow> f a b)"
  by (cases p) simp

lemma total_if: "(b \<Longrightarrow> total_op m) \<Longrightarrow> (\<not> b \<Longrightarrow> total_op n) \<Longrightarrow> total_op (if b then m else n)"
  by simp

lemmas total_intros = total_ret total_try total_need total_bind total_prod total_if

text \<open>A layer that can run, as for the Llama model; appending to a cache does not panic.\<close>

definition weights_ok :: "('t, 'w) candle \<Rightarrow> ('t, 'kv) kv_ops \<Rightarrow> ('t, 'w) layer_weights \<Rightarrow> bool" where
  "weights_ok T KV W \<longleftrightarrow> n_kv_head W \<noteq> 0 \<and> (lw_use_flash_attn W \<longrightarrow> c_flash_attn T \<noteq> None) \<and> (\<forall>k v. total_op (kv_append KV k v))"

lemma forward_attn_total:
  assumes "weights_ok T KV W"
  shows "total_op (forward_attn T KV W msk pos x)"
  unfolding forward_attn_def phi3_flash_def Let_def
  by (intro total_intros) (use assms in \<open>auto simp: weights_ok_def usize_div_def\<close>)

section \<open>The worker keeps the contract\<close>

definition phi3_step ::
  "('t, 'w) candle \<Rightarrow> ('t, 'kv) kv_ops \<Rightarrow> ('t, 'w) layer_weights \<Rightarrow> 't option \<Rightarrow> usize \<Rightarrow> 't \<Rightarrow> ('kv, 't) op" where
  "phi3_step T KV W msk pos xs =
     try_op (c_rms_norm T (attn_norm W) xs) (\<lambda>ys.
     bind_op (forward_attn T KV W msk pos ys) (\<lambda>ys.
     try_op (after_attn T W xs ys) ret))"

text \<open>The meaning of layer \<open>i\<close>: the step of that layer on its own cache.\<close>

definition phi3_blk ::
  "('t, 'w) candle \<Rightarrow> ('t, 'kv) kv_ops \<Rightarrow> (nat \<Rightarrow> ('t, 'w) layer_weights) \<Rightarrow> nat \<Rightarrow> ('kv, 't) block" where
  "phi3_blk T KV W i kv pos n x = (case phi3_mask T n of
       Inl e \<Rightarrow> (Inl e, kv)
     | Inr msk \<Rightarrow> (case phi3_step T KV (W i) msk (ucast pos) x kv of Inl _ \<Rightarrow> (Inl ''panic'', kv) | Inr p \<Rightarrow> p))"

definition cache_at :: "'kv layers_cache \<Rightarrow> nat \<Rightarrow> session \<Rightarrow> 'kv option" where
  "cache_at c j s = get_clone (lc_layers c ! j) s"

lemma on_cache_at:
  assumes "j < length (lc_layers c)" "cache_at c j s = Some kv" "m kv = Inr (r, kv')"
  obtains c' where "on_cache j s m c = Inr (r, c')" "length (lc_layers c') = length (lc_layers c)"
    "lc_dim c' = lc_dim c" "lc_max_seq_len c' = lc_max_seq_len c"
    "\<And>i t. cache_at c' i t = (if i = j \<and> t = s then Some kv' else cache_at c i t)"
proof -
  have g: "get_cache j s c = Inr kv" using assms(1,2) by (simp add: get_cache_def cache_at_def vec_index_def)
  show thesis
  proof (rule that)
    show "on_cache j s m c = Inr (r, c\<lparr>lc_layers := (lc_layers c)[j := snd (shm_insert s kv' (lc_layers c ! j))]\<rparr>)"
      using g assms(3) by (simp add: on_cache_def)
  qed (use assms(1) in \<open>auto simp: cache_at_def nth_list_update get_clone_insert\<close>)
qed

text \<open>One turn of the loop is the step of the layer on the cache of the session.\<close>

lemma layer_turn:
  assumes w: "weights_ok T KV W" and c: "j < length (lc_layers c)" "cache_at c j s = Some kv"
    and st: "phi3_step T KV W msk pos xs kv = Inr (r, kv')"
  obtains c' where "length (lc_layers c') = length (lc_layers c)" "lc_dim c' = lc_dim c" "lc_max_seq_len c' = lc_max_seq_len c"
    "\<And>i t. cache_at c' i t = (if i = j \<and> t = s then Some kv' else cache_at c i t)"
    "\<And>Ws. layers_loop T KV s msk pos (W # Ws) j xs c =
       (case r of Inl e \<Rightarrow> Inr (Inl e, c') | Inr y \<Rightarrow> layers_loop T KV s msk pos Ws (Suc j) y c')"
proof (cases "c_rms_norm T (attn_norm W) xs")
  case (Inl e)
  then have "r = Inl e" "kv' = kv" using st by (auto simp: phi3_step_def)
  then show ?thesis using Inl c by (intro that[of c]) auto
next
  case (Inr ys)
  obtain q kv1 where q: "forward_attn T KV W msk pos ys kv = Inr (q, kv1)"
    by (rule total_opE[OF forward_attn_total[OF w]])
  obtain c' where c': "on_cache j s (forward_attn T KV W msk pos ys) c = Inr (q, c')" "length (lc_layers c') = length (lc_layers c)"
    "lc_dim c' = lc_dim c" "lc_max_seq_len c' = lc_max_seq_len c"
    "\<And>i t. cache_at c' i t = (if i = j \<and> t = s then Some kv1 else cache_at c i t)"
    by (rule on_cache_at[where m = "forward_attn T KV W msk pos ys", OF c q]) blast
  have "kv' = kv1" "r = (case q of Inl e \<Rightarrow> Inl e | Inr ys \<Rightarrow> after_attn T W xs ys)"
    using st Inr q by (auto simp: phi3_step_def bind_op_def try_op_def ret_def split: sum.splits)
  then show ?thesis
    using Inr c' by (intro that[of c']) (auto simp: bind_op_def try_op_def split: sum.splits)
qed

lemma layers_loop_run:
  assumes w: "\<And>i. a \<le> i \<Longrightarrow> i < b \<Longrightarrow> weights_ok T KV (W i)" and m: "phi3_mask T n = Inr msk"
    and c: "length (lc_layers c) = b - a" "\<And>i. a \<le> i \<Longrightarrow> i < b \<Longrightarrow> cache_at c (i - a) s = Some (C i)" "k \<le> b - a"
    and run: "run_layers (phi3_blk T KV W) [a + k ..< b] pos n x C = (q, D)"
  shows "\<exists>c'. layers_loop T KV s msk (ucast pos) (map W [a + k ..< b]) k x c = Inr (q, c') \<and> length (lc_layers c') = b - a \<and>
    lc_dim c' = lc_dim c \<and> lc_max_seq_len c' = lc_max_seq_len c \<and>
    (\<forall>i. a \<le> i \<longrightarrow> i < b \<longrightarrow> cache_at c' (i - a) s = Some (D i)) \<and> (\<forall>i t. t \<noteq> s \<longrightarrow> cache_at c' i t = cache_at c i t)"
  using c run
proof (induction "b - (a + k)" arbitrary: k x c C)
  case 0
  then show ?case by (simp add: ret_def)
next
  case (Suc d)
  have ak: "a + k < b" using Suc(2) by simp
  then have upt: "[a + k ..< b] = (a + k) # [a + Suc k ..< b]" by (simp add: upt_conv_Cons)
  have kv: "cache_at c k s = Some (C (a + k))" "k < length (lc_layers c)" using Suc(3) Suc(4)[of "a + k"] ak by auto
  have wk: "weights_ok T KV (W (a + k))" using w ak by simp
  have "total_op (phi3_step T KV (W (a + k)) msk (ucast pos) x)"
    unfolding phi3_step_def by (intro total_intros forward_attn_total[OF wk])
  then obtain r kv' where st: "phi3_step T KV (W (a + k)) msk (ucast pos) x (C (a + k)) = Inr (r, kv')"
    by (rule total_opE)
  have bk: "phi3_blk T KV W (a + k) (C (a + k)) pos n x = (r, kv')" using st m by (simp add: phi3_blk_def)
  obtain c1 where c1: "length (lc_layers c1) = length (lc_layers c)" "lc_dim c1 = lc_dim c" "lc_max_seq_len c1 = lc_max_seq_len c"
    "\<And>i t. cache_at c1 i t = (if i = k \<and> t = s then Some kv' else cache_at c i t)"
    "\<And>Ws. layers_loop T KV s msk (ucast pos) (W (a + k) # Ws) k x c =
       (case r of Inl e \<Rightarrow> Inr (Inl e, c1) | Inr y \<Rightarrow> layers_loop T KV s msk (ucast pos) Ws (Suc k) y c1)"
    using layer_turn[OF wk kv(2,1) st] by metis
  have C1: "cache_at c1 (i - a) s = Some ((C(a + k := kv')) i)" if "a \<le> i" "i < b" for i
    using that c1(4) Suc(4)[OF that] by (cases "i = a + k") auto
  show ?case
  proof (cases r)
    case (Inl e)
    then have "q = Inl e" "D = C(a + k := kv')" using Suc(6) bk by (auto simp: upt)
    then show ?thesis using c1 C1 Inl Suc(3) by (simp add: upt)
  next
    case (Inr y)
    have run: "run_layers (phi3_blk T KV W) [a + Suc k ..< b] pos n y (C(a + k := kv')) = (q, D)"
      using Suc(6) bk Inr by (simp add: upt)
    have "\<exists>c'. layers_loop T KV s msk (ucast pos) (map W [a + Suc k ..< b]) (Suc k) y c1 = Inr (q, c') \<and> length (lc_layers c') = b - a \<and>
      lc_dim c' = lc_dim c1 \<and> lc_max_seq_len c' = lc_max_seq_len c1 \<and>
      (\<forall>i. a \<le> i \<longrightarrow> i < b \<longrightarrow> cache_at c' (i - a) s = Some (D i)) \<and> (\<forall>i t. t \<noteq> s \<longrightarrow> cache_at c' i t = cache_at c1 i t)"
      by (rule Suc(1)[OF _ _ C1 _ run]) (use Suc(2,3) ak c1(1) in auto)
    then show ?thesis using c1 Inr by (auto simp: upt)
  qed
qed

lemma add_caches_at:
  assumes "\<forall>i \<in> set is. i < length (lc_layers c)"
  shows "\<exists>c'. add_caches KV s is c = Inr c' \<and> length (lc_layers c') = length (lc_layers c) \<and> lc_dim c' = lc_dim c \<and>
    lc_max_seq_len c' = lc_max_seq_len c \<and>
    (\<forall>i t. cache_at c' i t = (if i \<in> set is \<and> t = s then Some (kv_new KV (lc_dim c) (lc_max_seq_len c)) else cache_at c i t))"
  using assms
proof (induction "is" arbitrary: c)
  case (Cons j "is")
  let ?c = "c\<lparr>lc_layers := (lc_layers c)[j := snd (shm_insert s (kv_new KV (lc_dim c) (lc_max_seq_len c)) (lc_layers c ! j))]\<rparr>"
  have a: "add_cache KV j s c = Inr ?c" using Cons.prems by (simp add: add_cache_def vec_index_def)
  have "\<forall>i \<in> set is. i < length (lc_layers ?c)" using Cons.prems by simp
  from Cons.IH[OF this] show ?case
    using Cons.prems by (auto simp: a cache_at_def nth_list_update get_clone_insert)
qed simp

lemma del_caches_at:
  assumes "\<forall>i \<in> set is. i < length (lc_layers c)"
  shows "\<exists>c'. del_caches s is c = Inr c' \<and> length (lc_layers c') = length (lc_layers c) \<and> lc_dim c' = lc_dim c \<and>
    lc_max_seq_len c' = lc_max_seq_len c \<and>
    (\<forall>i t. cache_at c' i t = (if i \<in> set is \<and> t = s then None else cache_at c i t))"
  using assms
proof (induction "is" arbitrary: c)
  case (Cons j "is")
  let ?c = "c\<lparr>lc_layers := (lc_layers c)[j := snd (shm_remove s (lc_layers c ! j))]\<rparr>"
  have a: "del_cache j s c = Inr ?c" using Cons.prems by (simp add: del_cache_def vec_index_def)
  have "\<forall>i \<in> set is. i < length (lc_layers ?c)" using Cons.prems by simp
  from Cons.IH[OF this] show ?case
    using Cons.prems by (auto simp: a cache_at_def nth_list_update get_clone_remove)
qed simp

definition phi3_ok ::
  "('t, 'w) candle \<Rightarrow> ('t, 'kv) kv_ops \<Rightarrow> (nat \<Rightarrow> ('t, 'w) layer_weights) \<Rightarrow> usize \<Rightarrow> usize \<Rightarrow> nat \<Rightarrow> nat \<Rightarrow> ('t, 'w, 'kv) phi3_layers_worker \<Rightarrow> bool" where
  "phi3_ok T KV W dim mx a b l \<longleftrightarrow> a < b \<and> (\<forall>i. a \<le> i \<and> i < b \<longrightarrow> weights_ok T KV (W i)) \<and> ph_layers l = map W [a ..< b] \<and>
     length (lc_layers (ph_caches l)) = b - a \<and> lc_dim (ph_caches l) = dim \<and> lc_max_seq_len (ph_caches l) = mx"

definition phi3_view :: "nat \<Rightarrow> nat \<Rightarrow> ('t, 'w, 'kv) phi3_layers_worker \<Rightarrow> session \<Rightarrow> (nat \<Rightarrow> 'kv) option" where
  "phi3_view a b l s = (if \<exists>i \<in> {a ..< b}. cache_at (ph_caches l) (i - a) s = None then None
     else Some (\<lambda>i. the (cache_at (ph_caches l) (i - a) s)))"

lemma phi3_view_cong:
  "(\<And>i. cache_at (ph_caches l) i s = cache_at (ph_caches l') i s) \<Longrightarrow> phi3_view a b l s = phi3_view a b l' s"
  by (simp add: phi3_view_def)

lemma phi3_forward_ok:
  assumes ok: "phi3_ok T KV W dim mx a b l" and v: "phi3_view a b l s = Some C"
    and run: "run_layers (phi3_blk T KV W) [a ..< b] pos n x C = (q, D)"
  shows "\<exists>l' C'. phi3_forward T KV s step (x, n) pos l = Inr (map_sum id (\<lambda>y. (y, n)) q, l') \<and> phi3_ok T KV W dim mx a b l' \<and>
    phi3_view a b l' s = Some C' \<and> (\<forall>i \<in> set [a ..< b]. C' i = D i) \<and> (\<forall>s'. s' \<noteq> s \<longrightarrow> phi3_view a b l' s' = phi3_view a b l s')"
proof -
  have C: "cache_at (ph_caches l) (i - a) s = Some (C i)" if "a \<le> i" "i < b" for i
    using v that by (auto simp: phi3_view_def split: if_splits)
  have ab: "[a ..< b] = a # [Suc a ..< b]" using ok by (simp add: phi3_ok_def upt_conv_Cons)
  show ?thesis
  proof (cases "phi3_mask T n")
    case (Inl e)
    then have "q = Inl e" "D = C" using run by (auto simp: ab phi3_blk_def)
    then show ?thesis using Inl ok v by (simp add: phi3_forward_def)
  next
    case (Inr msk)
    have "\<exists>c'. layers_loop T KV s msk (ucast pos) (map W [a + 0 ..< b]) 0 x (ph_caches l) = Inr (q, c') \<and> length (lc_layers c') = b - a \<and>
      lc_dim c' = lc_dim (ph_caches l) \<and> lc_max_seq_len c' = lc_max_seq_len (ph_caches l) \<and>
      (\<forall>i. a \<le> i \<longrightarrow> i < b \<longrightarrow> cache_at c' (i - a) s = Some (D i)) \<and> (\<forall>i t. t \<noteq> s \<longrightarrow> cache_at c' i t = cache_at (ph_caches l) i t)"
      by (rule layers_loop_run[OF _ Inr _ C]) (use ok run in \<open>simp_all add: phi3_ok_def\<close>)
    then obtain c' where c': "layers_loop T KV s msk (ucast pos) (ph_layers l) 0 x (ph_caches l) = Inr (q, c')" "length (lc_layers c') = b - a"
      "lc_dim c' = dim" "lc_max_seq_len c' = mx"
      "\<And>i. a \<le> i \<Longrightarrow> i < b \<Longrightarrow> cache_at c' (i - a) s = Some (D i)" "\<And>i t. t \<noteq> s \<Longrightarrow> cache_at c' i t = cache_at (ph_caches l) i t"
      using ok by (auto simp: phi3_ok_def)
    have "phi3_view a b (l\<lparr>ph_caches := c'\<rparr>) s = Some (\<lambda>i. the (cache_at c' (i - a) s))"
      using c'(5) by (auto simp: phi3_view_def)
    moreover have "phi3_view a b (l\<lparr>ph_caches := c'\<rparr>) s' = phi3_view a b l s'" if "s' \<noteq> s" for s'
      using c'(6)[OF that] by (intro phi3_view_cong) simp
    ultimately show ?thesis
      using c' Inr ok by (auto simp: phi3_forward_def phi3_ok_def)
  qed
qed

interpretation phi3: layers_worker "phi3_ops T KV" "[a ..< b]" "phi3_blk T KV W" "\<lambda>_. kv_new KV dim mx"
  "phi3_view a b" "phi3_ok T KV W dim mx a b" for T KV W dim mx a b
proof (unfold_locales, goal_cases)
  case (1 l s cfg)
  then have "\<forall>i \<in> set [0 ..< length (ph_layers l)]. i < length (lc_layers (ph_caches l))" by (simp add: phi3_ok_def)
  then obtain c' where c': "add_caches KV s [0 ..< length (ph_layers l)] (ph_caches l) = Inr c'" "length (lc_layers c') = length (lc_layers (ph_caches l))"
    "lc_dim c' = lc_dim (ph_caches l)" "lc_max_seq_len c' = lc_max_seq_len (ph_caches l)"
    "\<And>i t. cache_at c' i t = (if i \<in> set [0 ..< length (ph_layers l)] \<and> t = s then Some (kv_new KV (lc_dim (ph_caches l)) (lc_max_seq_len (ph_caches l))) else cache_at (ph_caches l) i t)"
    using add_caches_at[of "[0 ..< length (ph_layers l)]" "ph_caches l" KV s] by metis
  have at: "cache_at c' (i - a) s = Some (kv_new KV dim mx)" if "a \<le> i" "i < b" for i
    using 1 that by (auto simp: c'(5) phi3_ok_def)
  have "phi3_view a b (l\<lparr>ph_caches := c'\<rparr>) s = Some (\<lambda>i. the (cache_at c' (i - a) s))"
    using at by (auto simp: phi3_view_def)
  moreover have "phi3_view a b (l\<lparr>ph_caches := c'\<rparr>) s' = phi3_view a b l s'" if "s' \<noteq> s" for s'
    using that by (intro phi3_view_cong) (simp add: c'(5))
  ultimately show ?case
    using 1 c'(1-4) at by (auto simp: phi3_ops_def phi3_start_def phi3_ok_def)
next
  case (2 l s C pos n x q D step)
  then show ?case using phi3_forward_ok by (simp add: phi3_ops_def)
next
  case (3 l s)
  then have "\<forall>i \<in> set [0 ..< length (ph_layers l)]. i < length (lc_layers (ph_caches l))" by (simp add: phi3_ok_def)
  then obtain c' where c': "del_caches s [0 ..< length (ph_layers l)] (ph_caches l) = Inr c'" "length (lc_layers c') = length (lc_layers (ph_caches l))"
    "lc_dim c' = lc_dim (ph_caches l)" "lc_max_seq_len c' = lc_max_seq_len (ph_caches l)"
    "\<And>i t. cache_at c' i t = (if i \<in> set [0 ..< length (ph_layers l)] \<and> t = s then None else cache_at (ph_caches l) i t)"
    using del_caches_at[of "[0 ..< length (ph_layers l)]" "ph_caches l" s] by metis
  have "phi3_view a b (l\<lparr>ph_caches := c'\<rparr>) s' = phi3_view a b l s'" if "s' \<noteq> s" for s'
    using that by (intro phi3_view_cong) (simp add: c'(5))
  then show ?case
    using 3 c'(1-4) by (auto simp: phi3_ops_def phi3_finish_def phi3_ok_def)
qed

end
