(* ===== verification/Llama_Layers.thy ===== *)
theory Llama_Layers
  imports Candle Layers_Workers
begin

text \<open>
  The layers of the Llama models: \<^verbatim>\<open>crates/models/src/llama/internal/mod.rs\<close> (the
  configuration, the cache, attention, the multilayer perceptron, the blocks and their
  loading) and the worker around them,
  \<^verbatim>\<open>crates/models/src/llama/layers_worker.rs\<close>. The tensor library is the parameter \<open>T\<close>
  (theory \<open>Candle\<close>), the weight files are the parameter \<open>V\<close>. The interpretation \<open>llama\<close>
  says that the worker keeps the contract of a layers worker: a session's result at a layer
  depends on that layer's own cache only, not on the position of the layer in the node, on the
  memoised masks or on the other sessions.
\<close>

section \<open>Configuration\<close>

definition DEFAULT_MAX_SEQ_LEN :: usize where
  "DEFAULT_MAX_SEQ_LEN = 4096"

datatype llama3_rope_type = Llama3 | RopeDefault

record llama3_rope_config =
  rope_factor :: f32
  low_freq_factor :: f32
  high_freq_factor :: f32
  original_max_position_embeddings :: usize
  rope_type :: llama3_rope_type

datatype llama_eos_toks = Single u32 | Multiple "u32 list"

record llama_config =
  lc_hidden_size :: usize
  lc_intermediate_size :: usize
  lc_vocab_size :: usize
  lc_num_hidden_layers :: usize
  lc_num_attention_heads :: usize
  lc_num_key_value_heads :: "usize option"
  lc_rms_norm_eps :: f64
  lc_rope_theta :: f32
  lc_bos_token_id :: "u32 option"
  lc_eos_token_id :: "llama_eos_toks option"
  lc_rope_scaling :: "llama3_rope_config option"
  lc_max_position_embeddings :: usize
  lc_tie_word_embeddings :: "bool option"

record config =
  hidden_size :: usize
  intermediate_size :: usize
  vocab_size :: usize
  num_hidden_layers :: usize
  num_attention_heads :: usize
  num_key_value_heads :: usize
  use_flash_attn :: bool
  rms_norm_eps :: f64
  rope_theta :: f32
  bos_token_id :: "u32 option"
  eos_token_id :: "llama_eos_toks option"
  rope_scaling :: "llama3_rope_config option"
  max_position_embeddings :: usize
  tie_word_embeddings :: bool

definition lc_kv_heads :: "llama_config \<Rightarrow> usize" where
  "lc_kv_heads c = (case lc_num_key_value_heads c of Some n \<Rightarrow> n | None \<Rightarrow> lc_num_attention_heads c)"

text \<open>The bit pattern of \<open>10000.0\<close>.\<close>

definition default_rope :: f32 where
  "default_rope = 0x461C4000"

definition into_config :: "llama_config \<Rightarrow> bool \<Rightarrow> config" where
  "into_config c flash = \<lparr>hidden_size = lc_hidden_size c, intermediate_size = lc_intermediate_size c,
     vocab_size = lc_vocab_size c, num_hidden_layers = lc_num_hidden_layers c,
     num_attention_heads = lc_num_attention_heads c, num_key_value_heads = lc_kv_heads c, use_flash_attn = flash,
     rms_norm_eps = lc_rms_norm_eps c, rope_theta = lc_rope_theta c, bos_token_id = lc_bos_token_id c,
     eos_token_id = lc_eos_token_id c, rope_scaling = lc_rope_scaling c,
     max_position_embeddings = lc_max_position_embeddings c,
     tie_word_embeddings = (case lc_tie_word_embeddings c of Some b \<Rightarrow> b | None \<Rightarrow> False)\<rparr>"

text \<open>The two presets differ in the bit patterns of \<open>1e-6\<close> and \<open>1e-5\<close>.\<close>

definition config_7b_v1 :: "bool \<Rightarrow> config" where
  "config_7b_v1 flash = \<lparr>hidden_size = 4096, intermediate_size = 11008, vocab_size = 32000, num_hidden_layers = 32,
     num_attention_heads = 32, num_key_value_heads = 32, use_flash_attn = flash, rms_norm_eps = 0x3EB0C6F7A0B5ED8D,
     rope_theta = default_rope, bos_token_id = None, eos_token_id = None, rope_scaling = None,
     max_position_embeddings = DEFAULT_MAX_SEQ_LEN, tie_word_embeddings = False\<rparr>"

definition config_7b_v2 :: "bool \<Rightarrow> config" where
  "config_7b_v2 flash = \<lparr>hidden_size = 4096, intermediate_size = 11008, vocab_size = 32000, num_hidden_layers = 32,
     num_attention_heads = 32, num_key_value_heads = 32, use_flash_attn = flash, rms_norm_eps = 0x3EE4F8B588E368F1,
     rope_theta = default_rope, bos_token_id = None, eos_token_id = None, rope_scaling = None,
     max_position_embeddings = DEFAULT_MAX_SEQ_LEN, tie_word_embeddings = False\<rparr>"

section \<open>The cache of a session\<close>

record 't llama_cache =
  lc_masks :: "(usize, 't) hmap"
  use_kv_cache :: bool
  kvs :: "('t \<times> 't) option list"
  cache_cos :: 't
  cache_sin :: 't

definition calculate_default_inv_freq :: "float_ops \<Rightarrow> config \<Rightarrow> f32 list res" where
  "calculate_default_inv_freq fp cfg =
     res_bind (usize_div (hidden_size cfg) (num_attention_heads cfg)) (\<lambda>head_dim.
     Inr (map (\<lambda>k. f32_div fp f32_one (f32_powf fp (rope_theta cfg)
            (f32_div fp (f32_of_usize fp (word_of_nat (2 * k))) (f32_of_usize fp head_dim))))
          [0 ..< (unat head_dim + 1) div 2]))"

definition scale_freq :: "float_ops \<Rightarrow> llama3_rope_config \<Rightarrow> f32 \<Rightarrow> f32" where
  "scale_freq fp r freq =
     (let orig = f32_of_usize fp (original_max_position_embeddings r);
          low_freq_wavelen = f32_div fp orig (low_freq_factor r);
          high_freq_wavelen = f32_div fp orig (high_freq_factor r);
          wavelen = f32_div fp (f32_mul fp f32_two f32_pi) freq
      in if f32_lt fp wavelen high_freq_wavelen then freq
         else if f32_lt fp low_freq_wavelen wavelen then f32_div fp freq (rope_factor r)
         else let smooth = f32_div fp (f32_sub fp (f32_div fp orig wavelen) (low_freq_factor r))
                     (f32_sub fp (high_freq_factor r) (low_freq_factor r))
              in f32_add fp (f32_div fp (f32_mul fp (f32_sub fp f32_one smooth) freq) (rope_factor r))
                   (f32_mul fp smooth freq))"

definition rope_freqs :: "float_ops \<Rightarrow> config \<Rightarrow> f32 list res" where
  "rope_freqs fp cfg = (case rope_scaling cfg of
       None \<Rightarrow> calculate_default_inv_freq fp cfg
     | Some r \<Rightarrow> (case rope_type r of
         RopeDefault \<Rightarrow> calculate_default_inv_freq fp cfg
       | Llama3 \<Rightarrow> res_bind (calculate_default_inv_freq fp cfg) (\<lambda>fs. Inr (map (scale_freq fp r) fs))))"

definition cache_new :: "('t, 'w) candle \<Rightarrow> bool \<Rightarrow> dtype \<Rightarrow> config \<Rightarrow> ('s, 't llama_cache) op" where
  "cache_new T use_kv dt cfg =
     need_op (rope_freqs (c_fp T) cfg) (\<lambda>freqs.
     try_op (c_new_f32s T freqs) (\<lambda>theta.
     try_op (c_arange T 0 (ucast (max_position_embeddings cfg))) (\<lambda>r.
     try_op (c_to_dtype T r DT_F32) (\<lambda>r.
     try_op (c_reshape T r [max_position_embeddings cfg, 1]) (\<lambda>r.
     try_op (c_reshape T theta [1, c_elem_count T theta]) (\<lambda>row.
     try_op (c_matmul T r row) (\<lambda>idx_theta.
     try_op (cres_bind (c_cos T idx_theta) (\<lambda>x. c_to_dtype T x dt)) (\<lambda>cos.
     try_op (cres_bind (c_sin T idx_theta) (\<lambda>x. c_to_dtype T x dt)) (\<lambda>sin.
     ret \<lparr>lc_masks = [], use_kv_cache = use_kv, kvs = replicate (unat (num_hidden_layers cfg)) None,
          cache_cos = cos, cache_sin = sin\<rparr>)))))))))"

definition cache_mask :: "('t, 'w) candle \<Rightarrow> usize \<Rightarrow> ('t llama_cache, 't) op" where
  "cache_mask T t = get_op (\<lambda>c. case hm_get (lc_masks c) t of
       Some m \<Rightarrow> ret m
     | None \<Rightarrow> try_op (make_mask T t) (\<lambda>m.
         put_op (\<lambda>c. c\<lparr>lc_masks := hm_insert t m (lc_masks c)\<rparr>) (ret m)))"

section \<open>Attention\<close>

record 'w self_attention =
  q_proj :: 'w
  k_proj :: 'w
  v_proj :: 'w
  o_proj :: 'w
  sa_heads :: usize
  sa_kv_heads :: usize
  sa_head_dim :: usize
  sa_use_flash_attn :: bool
  sa_max_position_embeddings :: usize

text \<open>Without the feature \<open>flash-attn\<close> the function is \<open>unimplemented!\<close>.\<close>

definition flash_attn :: "('t, 'w) candle \<Rightarrow> 't \<Rightarrow> 't \<Rightarrow> 't \<Rightarrow> f32 \<Rightarrow> bool \<Rightarrow> ('s, 't) op" where
  "flash_attn T q k v scale causal = (case c_flash_attn T of
       Some f \<Rightarrow> try_op (f q k v scale causal) ret
     | None \<Rightarrow> need_op (Inl Unsupported) ret)"

definition apply_rotary_emb :: "('t, 'w) candle \<Rightarrow> 't \<Rightarrow> usize \<Rightarrow> ('t llama_cache, 't) op" where
  "apply_rotary_emb T x index_pos =
     try_op (dims4 T x) (\<lambda>(_, _, seq_len, _).
     get_op (\<lambda>c.
     try_op (c_narrow T (cache_cos c) (Dim 0) index_pos seq_len) (\<lambda>cos.
     try_op (c_narrow T (cache_sin c) (Dim 0) index_pos seq_len) (\<lambda>sin.
     try_op (c_rope T x cos sin) ret))))"

definition split_heads :: "('t, 'w) candle \<Rightarrow> 't \<Rightarrow> usize \<Rightarrow> usize \<Rightarrow> usize \<Rightarrow> usize \<Rightarrow> 't cres" where
  "split_heads T x b_sz seq_len heads head_dim =
     cres_bind (c_reshape T x [b_sz, seq_len, heads, head_dim]) (\<lambda>y. c_transpose T y 1 2)"

definition extend_kv :: "('t, 'w) candle \<Rightarrow> 'w self_attention \<Rightarrow> 't \<times> 't \<Rightarrow> 't \<Rightarrow> 't \<Rightarrow> ('s, 't \<times> 't) op" where
  "extend_kv T A = (\<lambda>(cache_k, cache_v) k v.
     try_op (cres_bind (c_cat T [cache_k, k] 2) (c_contiguous T)) (\<lambda>k.
     try_op (cres_bind (c_cat T [cache_v, v] 2) (c_contiguous T)) (\<lambda>v.
     need_op (vec_index (c_dims T k) 1) (\<lambda>k_seq_len.
     try_op (if k_seq_len > sa_max_position_embeddings A
             then cres_bind (c_narrow T k Minus1 (k_seq_len - sa_max_position_embeddings A) (sa_max_position_embeddings A)) (c_contiguous T)
             else Inr k) (\<lambda>k.
     need_op (vec_index (c_dims T v) 1) (\<lambda>v_seq_len.
     try_op (if v_seq_len > 2 * sa_max_position_embeddings A
             then cres_bind (c_narrow T v Minus1 (v_seq_len - sa_max_position_embeddings A) (sa_max_position_embeddings A)) (c_contiguous T)
             else Inr v) (\<lambda>v. ret (k, v))))))))"

definition update_kv :: "('t, 'w) candle \<Rightarrow> 'w self_attention \<Rightarrow> nat \<Rightarrow> 't \<Rightarrow> 't \<Rightarrow> ('t llama_cache, 't \<times> 't) op" where
  "update_kv T A block_idx k v = get_op (\<lambda>c.
     if use_kv_cache c
     then need_op (vec_index (kvs c) block_idx) (\<lambda>slot.
       bind_op (case slot of Some kv \<Rightarrow> extend_kv T A kv k v | None \<Rightarrow> ret (k, v)) (\<lambda>(k, v).
       put_op (\<lambda>c. c\<lparr>kvs := (kvs c)[block_idx := Some (k, v)]\<rparr>) (ret (k, v))))
     else ret (k, v))"

definition masked_fill :: "('t, 'w) candle \<Rightarrow> 't \<Rightarrow> 't \<Rightarrow> f32 \<Rightarrow> 't cres" where
  "masked_fill T on_false m on_true =
     cres_bind (c_new_f32 T on_true) (\<lambda>x.
     cres_bind (c_broadcast_as T x (c_dims T m)) (\<lambda>on_true.
     c_where_cond T m on_true on_false))"

definition attn_flash :: "('t, 'w) candle \<Rightarrow> 'w self_attention \<Rightarrow> usize \<Rightarrow> 't \<Rightarrow> 't \<Rightarrow> 't \<Rightarrow> ('s, 't) op" where
  "attn_flash T A seq_len q k v =
     try_op (c_transpose T q 1 2) (\<lambda>q.
     try_op (c_transpose T k 1 2) (\<lambda>k.
     try_op (c_transpose T v 1 2) (\<lambda>v.
     bind_op (flash_attn T q k v (f32_div (c_fp T) f32_one (f32_sqrt (c_fp T) (f32_of_usize (c_fp T) (sa_head_dim A)))) (seq_len > 1)) (\<lambda>y.
     try_op (c_transpose T y 1 2) ret))))"

definition attn_plain :: "('t, 'w) candle \<Rightarrow> 'w self_attention \<Rightarrow> usize \<Rightarrow> 't \<Rightarrow> 't \<Rightarrow> 't \<Rightarrow> ('t llama_cache, 't) op" where
  "attn_plain T A seq_len q k v =
     (let in_dtype = c_dtype T q in
     try_op (c_to_dtype T q DT_F32) (\<lambda>q.
     try_op (c_to_dtype T k DT_F32) (\<lambda>k.
     try_op (c_to_dtype T v DT_F32) (\<lambda>v.
     try_op (c_t T k) (\<lambda>kt.
     try_op (c_matmul T q kt) (\<lambda>att.
     try_op (c_div_scalar T att (f64_sqrt (c_fp T) (f64_of_usize (c_fp T) (sa_head_dim A)))) (\<lambda>att.
     bind_op (if seq_len = 1 then ret att else
         bind_op (cache_mask T seq_len) (\<lambda>mask.
         try_op (c_broadcast_as T mask (c_dims T att)) (\<lambda>mask.
         try_op (masked_fill T att mask f32_neg_infinity) ret))) (\<lambda>att.
     try_op (c_softmax T att Minus1) (\<lambda>att.
     try_op (c_contiguous T v) (\<lambda>v.
     try_op (c_matmul T att v) (\<lambda>y.
     try_op (c_to_dtype T y in_dtype) ret)))))))))))"

definition attn_forward :: "('t, 'w) candle \<Rightarrow> 'w self_attention \<Rightarrow> 't \<Rightarrow> usize \<Rightarrow> nat \<Rightarrow> ('t llama_cache, 't) op" where
  "attn_forward T A x index_pos block_idx =
     try_op (dims3 T x) (\<lambda>(b_sz, seq_len, hidden).
     try_op (c_linear T (q_proj A) x) (\<lambda>q.
     try_op (c_linear T (k_proj A) x) (\<lambda>k.
     try_op (c_linear T (v_proj A) x) (\<lambda>v.
     try_op (cres_bind (split_heads T q b_sz seq_len (sa_heads A) (sa_head_dim A)) (c_contiguous T)) (\<lambda>q.
     try_op (cres_bind (split_heads T k b_sz seq_len (sa_kv_heads A) (sa_head_dim A)) (c_contiguous T)) (\<lambda>k.
     try_op (split_heads T v b_sz seq_len (sa_kv_heads A) (sa_head_dim A)) (\<lambda>v.
     bind_op (apply_rotary_emb T q index_pos) (\<lambda>q.
     bind_op (apply_rotary_emb T k index_pos) (\<lambda>k.
     bind_op (update_kv T A block_idx k v) (\<lambda>(k, v).
     need_op (usize_div (sa_heads A) (sa_kv_heads A)) (\<lambda>n_rep.
     try_op (repeat_kv T k n_rep) (\<lambda>k.
     try_op (repeat_kv T v n_rep) (\<lambda>v.
     bind_op (if sa_use_flash_attn A then attn_flash T A seq_len q k v else attn_plain T A seq_len q k v) (\<lambda>y.
     try_op (c_transpose T y 1 2) (\<lambda>y.
     try_op (c_reshape T y [b_sz, seq_len, hidden]) (\<lambda>y.
     try_op (c_linear T (o_proj A) y) ret))))))))))))))))"

section \<open>Blocks\<close>

record 'w mlp =
  c_fc1 :: 'w
  c_fc2 :: 'w
  c_proj :: 'w

definition mlp_forward :: "('t, 'w) candle \<Rightarrow> 'w mlp \<Rightarrow> 't \<Rightarrow> 't cres" where
  "mlp_forward T M x =
     cres_bind (c_linear T (c_fc1 M) x) (\<lambda>a.
     cres_bind (c_silu T a) (\<lambda>a.
     cres_bind (c_linear T (c_fc2 M) x) (\<lambda>b.
     cres_bind (c_mul T a b) (\<lambda>x.
     c_linear T (c_proj M) x))))"

record 'w block =
  rms_1 :: 'w
  attn :: "'w self_attention"
  rms_2 :: 'w
  blk_mlp :: "'w mlp"

definition block_forward :: "('t, 'w) candle \<Rightarrow> 'w block \<Rightarrow> 't \<Rightarrow> usize \<Rightarrow> nat \<Rightarrow> ('t llama_cache, 't) op" where
  "block_forward T B x index_pos block_idx =
     try_op (c_rms_norm T (rms_1 B) x) (\<lambda>h.
     bind_op (attn_forward T (attn B) h index_pos block_idx) (\<lambda>h.
     try_op (c_add T h x) (\<lambda>x.
     try_op (c_rms_norm T (rms_2 B) x) (\<lambda>h.
     try_op (mlp_forward T (blk_mlp B) h) (\<lambda>h.
     try_op (c_add T h x) ret)))))"

fun blocks_forward :: "('t, 'w) candle \<Rightarrow> 'w block list \<Rightarrow> nat \<Rightarrow> 't \<Rightarrow> usize \<Rightarrow> ('t llama_cache, 't) op" where
  "blocks_forward T [] block_idx x index_pos = ret x"
| "blocks_forward T (B # Bs) block_idx x index_pos =
     bind_op (block_forward T B x index_pos block_idx) (\<lambda>x. blocks_forward T Bs (Suc block_idx) x index_pos)"

definition llama_layers_forward :: "('t, 'w) candle \<Rightarrow> 'w block list \<Rightarrow> 't \<Rightarrow> usize \<Rightarrow> ('t llama_cache, 't) op" where
  "llama_layers_forward T Bs x index_pos = blocks_forward T Bs 0 x index_pos"

section \<open>Loading\<close>

text \<open>
  A \<open>VarBuilder\<close> is a path into the weight files; \<open>pp\<close> extends the path. What it reads
  at a path is the parameter \<open>V\<close>.
\<close>

type_synonym vb_path = "string list"

record 'w var_builder =
  vb_linear :: "usize \<Rightarrow> usize \<Rightarrow> vb_path \<Rightarrow> 'w cres"
  vb_rms_norm :: "usize \<Rightarrow> f64 \<Rightarrow> vb_path \<Rightarrow> 'w cres"
  vb_embedding :: "usize \<Rightarrow> usize \<Rightarrow> vb_path \<Rightarrow> 'w cres"
  vb_linear_of_embedding :: "'w \<Rightarrow> 'w"

definition attn_load :: "'w var_builder \<Rightarrow> vb_path \<Rightarrow> config \<Rightarrow> ('s, 'w self_attention) op" where
  "attn_load V vb cfg =
     need_op (usize_div (hidden_size cfg) (num_attention_heads cfg)) (\<lambda>head_dim.
     let size_in = hidden_size cfg; size_q = head_dim * num_attention_heads cfg; size_kv = head_dim * num_key_value_heads cfg in
     try_op (vb_linear V size_in size_q (vb @ [''q_proj''])) (\<lambda>q.
     try_op (vb_linear V size_in size_kv (vb @ [''k_proj''])) (\<lambda>k.
     try_op (vb_linear V size_in size_kv (vb @ [''v_proj''])) (\<lambda>v.
     try_op (vb_linear V size_q size_in (vb @ [''o_proj''])) (\<lambda>out.
     ret \<lparr>q_proj = q, k_proj = k, v_proj = v, o_proj = out, sa_heads = num_attention_heads cfg,
          sa_kv_heads = num_key_value_heads cfg, sa_head_dim = head_dim, sa_use_flash_attn = use_flash_attn cfg,
          sa_max_position_embeddings = max_position_embeddings cfg\<rparr>)))))"

definition mlp_load :: "'w var_builder \<Rightarrow> vb_path \<Rightarrow> config \<Rightarrow> 'w mlp cres" where
  "mlp_load V vb cfg =
     cres_bind (vb_linear V (hidden_size cfg) (intermediate_size cfg) (vb @ [''gate_proj''])) (\<lambda>fc1.
     cres_bind (vb_linear V (hidden_size cfg) (intermediate_size cfg) (vb @ [''up_proj''])) (\<lambda>fc2.
     cres_bind (vb_linear V (intermediate_size cfg) (hidden_size cfg) (vb @ [''down_proj''])) (\<lambda>proj.
     Inr \<lparr>c_fc1 = fc1, c_fc2 = fc2, c_proj = proj\<rparr>)))"

definition block_load :: "'w var_builder \<Rightarrow> vb_path \<Rightarrow> config \<Rightarrow> ('s, 'w block) op" where
  "block_load V vb cfg =
     bind_op (attn_load V (vb @ [''self_attn'']) cfg) (\<lambda>attn.
     try_op (mlp_load V (vb @ [''mlp'']) cfg) (\<lambda>m.
     try_op (vb_rms_norm V (hidden_size cfg) (rms_norm_eps cfg) (vb @ [''input_layernorm''])) (\<lambda>r1.
     try_op (vb_rms_norm V (hidden_size cfg) (rms_norm_eps cfg) (vb @ [''post_attention_layernorm''])) (\<lambda>r2.
     ret \<lparr>rms_1 = r1, attn = attn, rms_2 = r2, blk_mlp = m\<rparr>))))"

text \<open>The block of a layer, read and unwrapped.\<close>

definition load_layer :: "'w var_builder \<Rightarrow> config \<Rightarrow> nat \<Rightarrow> 'w block res" where
  "load_layer V cfg i = res_bind (block_load V [''model.layers.'' @ digits i] cfg ()) (\<lambda>(r, _).
     case r of Inl _ \<Rightarrow> Inl UnwrapOnErr | Inr B \<Rightarrow> Inr B)"

definition llama_layers_load :: "'w var_builder \<Rightarrow> config \<Rightarrow> u32_range \<Rightarrow> 'w block list res" where
  "llama_layers_load V cfg r =
     (if \<not> rend r \<le> ucast (num_hidden_layers cfg) then Inl AssertFailed
      else res_mapM (load_layer V cfg) (range_list r))"

section \<open>The worker\<close>

record ('t, 'w) llama_layers_worker =
  lw_caches :: "(session, 't llama_cache) shared_hash_map"
  lw_llama :: "'w block list"
  lw_cfg :: config
  lw_dtype :: dtype

definition USE_KV_CACHE :: bool where
  "USE_KV_CACHE = True"

definition llama_worker_new :: "'w var_builder \<Rightarrow> u32_range \<Rightarrow> config \<Rightarrow> dtype \<Rightarrow> ('t, 'w) llama_layers_worker res" where
  "llama_worker_new V r cfg dt = res_bind (llama_layers_load V cfg r) (\<lambda>llama.
     Inr \<lparr>lw_caches = shm_new, lw_llama = llama, lw_cfg = cfg, lw_dtype = dt\<rparr>)"

definition llama_start :: "('t, 'w) candle \<Rightarrow> session \<Rightarrow> chat_cfg \<Rightarrow> (('t, 'w) llama_layers_worker, unit) op" where
  "llama_start T session cfg w =
     res_bind (cache_new T USE_KV_CACHE (lw_dtype w) (lw_cfg w) ()) (\<lambda>(r, _). case r of
       Inl _ \<Rightarrow> Inl UnwrapOnErr
     | Inr cache \<Rightarrow> Inr (Inr (), w\<lparr>lw_caches := snd (shm_insert session cache (lw_caches w))\<rparr>))"

text \<open>The cache is shared by reference: what the layers leave in it is kept even when they fail.\<close>

definition llama_forward ::
  "('t, 'w) candle \<Rightarrow> session \<Rightarrow> u32 \<Rightarrow> 't \<times> u32 \<Rightarrow> u32 \<Rightarrow> (('t, 'w) llama_layers_worker, 't \<times> u32) op" where
  "llama_forward T session step = (\<lambda>(xs, seq_len) index_pos w. case get_clone (lw_caches w) session of
       None \<Rightarrow> Inl UnwrapOnNone
     | Some cache \<Rightarrow> res_bind (llama_layers_forward T (lw_llama w) xs (ucast index_pos) cache) (\<lambda>(r, cache).
         Inr (map_sum id (\<lambda>res. (res, seq_len)) r, w\<lparr>lw_caches := snd (shm_insert session cache (lw_caches w))\<rparr>)))"

definition llama_finish :: "session \<Rightarrow> ('t, 'w) llama_layers_worker \<Rightarrow> ('t, 'w) llama_layers_worker res" where
  "llama_finish session w = Inr (w\<lparr>lw_caches := snd (shm_remove session (lw_caches w))\<rparr>)"

definition llama_ops :: "('t, 'w) candle \<Rightarrow> ('t, ('t, 'w) llama_layers_worker) layers_ops" where
  "llama_ops T = \<lparr>lw_start = llama_start T, lw_forward = llama_forward T, lw_finish = llama_finish\<rparr>"

section \<open>A block depends on its own cache only\<close>

text \<open>
  The masks of a cache are memoised: each is the mask of its size. \<open>at_slot\<close> relates a cache
  and a slot of it to a cache with only that slot; \<open>local_op\<close> says that a computation at the
  slot and one on the small cache run alike, without panic, and that the first leaves the
  other slots.
\<close>

definition masks_ok :: "('t, 'w) candle \<Rightarrow> 't llama_cache \<Rightarrow> bool" where
  "masks_ok T c \<longleftrightarrow> (\<forall>t m. hm_get (lc_masks c) t = Some m \<longrightarrow> make_mask T t = Inr m)"

definition at_slot :: "('t, 'w) candle \<Rightarrow> nat \<Rightarrow> 't llama_cache \<Rightarrow> 't llama_cache \<Rightarrow> bool" where
  "at_slot T j c d \<longleftrightarrow> use_kv_cache c = use_kv_cache d \<and> cache_cos c = cache_cos d \<and> cache_sin c = cache_sin d \<and>
     j < length (kvs c) \<and> kvs d = [kvs c ! j] \<and> masks_ok T c \<and> masks_ok T d"

definition slot_frame :: "nat \<Rightarrow> 't llama_cache \<Rightarrow> 't llama_cache \<Rightarrow> bool" where
  "slot_frame j c c' \<longleftrightarrow> length (kvs c') = length (kvs c) \<and> (\<forall>i. i \<noteq> j \<longrightarrow> kvs c' ! i = kvs c ! i) \<and>
     use_kv_cache c' = use_kv_cache c \<and> cache_cos c' = cache_cos c \<and> cache_sin c' = cache_sin c"

definition local_op :: "('t, 'w) candle \<Rightarrow> nat \<Rightarrow> ('t llama_cache, 'a) op \<Rightarrow> ('t llama_cache, 'a) op \<Rightarrow> bool" where
  "local_op T j m n \<longleftrightarrow> (\<forall>c d. at_slot T j c d \<longrightarrow>
     (\<exists>r c' d'. m c = Inr (r, c') \<and> n d = Inr (r, d') \<and> at_slot T j c' d' \<and> slot_frame j c c'))"

lemma slot_frame_refl [simp]: "slot_frame j c c"
  by (simp add: slot_frame_def)

lemma slot_frame_trans: "slot_frame j a b \<Longrightarrow> slot_frame j b c \<Longrightarrow> slot_frame j a c"
  by (auto simp: slot_frame_def)

lemma local_opI:
  assumes "\<And>c d. at_slot T j c d \<Longrightarrow> \<exists>r c' d'. m c = Inr (r, c') \<and> n d = Inr (r, d') \<and> at_slot T j c' d' \<and> slot_frame j c c'"
  shows "local_op T j m n"
  using assms by (auto simp: local_op_def)

lemma local_ret [intro]: "local_op T j (ret x) (ret x)"
  by (auto simp: local_op_def ret_def)

lemma local_try [intro]:
  assumes "\<And>x. m = Inr x \<Longrightarrow> local_op T j (k x) (k' x)"
  shows "local_op T j (try_op m k) (try_op m k')"
  using assms by (cases m) (auto simp: local_op_def)

lemma local_need [intro]:
  assumes "\<And>x. m = Inr x \<Longrightarrow> local_op T j (k x) (k' x)" "\<exists>x. m = Inr x"
  shows "local_op T j (need_op m k) (need_op m k')"
  using assms by (auto simp: local_op_def need_op_def)

lemma local_bind [intro]:
  assumes "local_op T j m m'" "\<And>x. local_op T j (k x) (k' x)"
  shows "local_op T j (bind_op m k) (bind_op m' k')"
proof (rule local_opI)
  fix c d assume a: "at_slot T j c d"
  then obtain r c' d' where r: "m c = Inr (r, c')" "m' d = Inr (r, d')" "at_slot T j c' d'" "slot_frame j c c'"
    using assms(1) unfolding local_op_def by blast
  show "\<exists>r c' d'. bind_op m k c = Inr (r, c') \<and> bind_op m' k' d = Inr (r, d') \<and> at_slot T j c' d' \<and> slot_frame j c c'"
  proof (cases r)
    case (Inl e)
    then show ?thesis using r by (simp add: bind_op_def)
  next
    case (Inr x)
    obtain r2 c2 d2 where "k x c' = Inr (r2, c2)" "k' x d' = Inr (r2, d2)" "at_slot T j c2 d2" "slot_frame j c' c2"
      using assms(2)[of x] r(3) unfolding local_op_def by blast
    then show ?thesis using r Inr slot_frame_trans[OF r(4)] by (simp add: bind_op_def)
  qed
qed

lemma local_get:
  assumes "\<And>c d. at_slot T j c d \<Longrightarrow> local_op T j (k c) (k' d)"
  shows "local_op T j (get_op k) (get_op k')"
  using assms by (auto simp: local_op_def get_op_def)

lemma local_split [intro]:
  "(\<And>a b. local_op T j (f a b) (g a b)) \<Longrightarrow> local_op T j (case p of (a, b) \<Rightarrow> f a b) (case p of (a, b) \<Rightarrow> g a b)"
  by (cases p) simp

lemma local_if [intro]:
  "local_op T j m m' \<Longrightarrow> local_op T j n n' \<Longrightarrow> local_op T j (if b then m else n) (if b then m' else n')"
  by simp

lemma local_mask [intro]: "local_op T j (cache_mask T t) (cache_mask T t)"
proof (rule local_opI)
  fix c d assume a: "at_slot T j c d"
  then have m: "\<And>t m. hm_get (lc_masks c) t = Some m \<Longrightarrow> make_mask T t = Inr m"
    "\<And>t m. hm_get (lc_masks d) t = Some m \<Longrightarrow> make_mask T t = Inr m"
    by (auto simp: at_slot_def masks_ok_def)
  define upd where "upd = (\<lambda>x (c :: 'a llama_cache). if hm_get (lc_masks c) t = None then c\<lparr>lc_masks := hm_insert t x (lc_masks c)\<rparr> else c)"
  show "\<exists>r c' d'. cache_mask T t c = Inr (r, c') \<and> cache_mask T t d = Inr (r, d') \<and> at_slot T j c' d' \<and> slot_frame j c c'"
  proof (cases "make_mask T t")
    case (Inl e)
    then have "hm_get (lc_masks c) t = None" "hm_get (lc_masks d) t = None"
      by (metis m(1) not_None_eq sum.distinct(1), metis m(2) not_None_eq sum.distinct(1))
    then show ?thesis using Inl a by (simp add: cache_mask_def get_op_def)
  next
    case (Inr x)
    have e: "cache_mask T t b = Inr (Inr x, upd x b)" if "b = c \<or> b = d" for b
      using Inr m that by (cases "hm_get (lc_masks b) t") (auto simp: cache_mask_def upd_def op_defs)
    have "at_slot T j (upd x c) (upd x d)" "slot_frame j c (upd x c)"
      using a Inr by (auto simp: at_slot_def masks_ok_def upd_def slot_frame_def hm_get_insert)
    then show ?thesis using e by blast
  qed
qed

lemma local_rotary [intro]: "local_op T j (apply_rotary_emb T x pos) (apply_rotary_emb T x pos)"
  unfolding apply_rotary_emb_def
  by (intro local_try local_split local_get) (auto simp: at_slot_def)

lemma local_extend [intro]:
  assumes "candle_ok T"
  shows "local_op T j (extend_kv T A kv k v) (extend_kv T A kv k v)"
proof -
  have rank: "1 < length (c_dims T y)" if "cres_bind (c_cat T xs 2) (c_contiguous T) = Inr y" for xs y
    using that assms by (cases "c_cat T xs 2") (fastforce simp: candle_ok_def)+
  show ?thesis
    by (cases kv, simp only: extend_kv_def prod.case, intro local_try local_need local_ret)
      (use rank in \<open>auto simp: vec_index_def\<close>)
qed

lemma local_update [intro]:
  assumes "candle_ok T"
  shows "local_op T j (update_kv T A j k v) (update_kv T A 0 k v)"
proof -
  have put: "local_op T j (put_op (\<lambda>c. c\<lparr>kvs := (kvs c)[j := x]\<rparr>) (ret y)) (put_op (\<lambda>c. c\<lparr>kvs := (kvs c)[0 := x]\<rparr>) (ret y))" for x and y :: "'a \<times> 'a"
    by (rule local_opI) (auto simp: op_defs at_slot_def slot_frame_def masks_ok_def)
  have slot: "local_op T j
     (need_op (Inr s) (\<lambda>slot. bind_op (case slot of Some kv \<Rightarrow> extend_kv T A kv k v | None \<Rightarrow> ret (k, v)) (\<lambda>(k, v).
       put_op (\<lambda>c. c\<lparr>kvs := (kvs c)[j := Some (k, v)]\<rparr>) (ret (k, v)))))
     (need_op (Inr s) (\<lambda>slot. bind_op (case slot of Some kv \<Rightarrow> extend_kv T A kv k v | None \<Rightarrow> ret (k, v)) (\<lambda>(k, v).
       put_op (\<lambda>c. c\<lparr>kvs := (kvs c)[0 := Some (k, v)]\<rparr>) (ret (k, v)))))" for s
    by (intro local_need local_bind local_split put) (use assms in \<open>auto split: option.split\<close>)
  show ?thesis
    unfolding update_kv_def
  proof (rule local_get)
    fix c d assume a: "at_slot T j c d"
    then have v: "vec_index (kvs c) j = Inr (kvs c ! j)" "vec_index (kvs d) 0 = Inr (kvs c ! j)" "use_kv_cache c = use_kv_cache d"
      by (auto simp: at_slot_def)
    show "local_op T j
      (if use_kv_cache c then need_op (vec_index (kvs c) j) (\<lambda>slot. bind_op (case slot of Some kv \<Rightarrow> extend_kv T A kv k v | None \<Rightarrow> ret (k, v)) (\<lambda>(k, v).
         put_op (\<lambda>c. c\<lparr>kvs := (kvs c)[j := Some (k, v)]\<rparr>) (ret (k, v)))) else ret (k, v))
      (if use_kv_cache d then need_op (vec_index (kvs d) 0) (\<lambda>slot. bind_op (case slot of Some kv \<Rightarrow> extend_kv T A kv k v | None \<Rightarrow> ret (k, v)) (\<lambda>(k, v).
         put_op (\<lambda>c. c\<lparr>kvs := (kvs c)[0 := Some (k, v)]\<rparr>) (ret (k, v)))) else ret (k, v))"
      unfolding v by (intro local_if slot local_ret)
  qed
qed

text \<open>An attention that can run: grouped heads, and flash attention only where it is compiled in.\<close>

definition attn_ok :: "('t, 'w) candle \<Rightarrow> 'w self_attention \<Rightarrow> bool" where
  "attn_ok T A \<longleftrightarrow> sa_kv_heads A \<noteq> 0 \<and> (sa_use_flash_attn A \<longrightarrow> c_flash_attn T \<noteq> None)"

lemma local_flash: "c_flash_attn T \<noteq> None \<Longrightarrow> local_op T j (attn_flash T A n q k v) (attn_flash T A n q k v)"
  unfolding attn_flash_def by (intro local_try local_bind) (auto simp: flash_attn_def intro!: local_try)

lemma local_plain: "local_op T j (attn_plain T A n q k v) (attn_plain T A n q k v)"
  unfolding attn_plain_def Let_def by (intro local_try local_bind local_if local_ret local_mask)

lemma local_attn:
  assumes "candle_ok T" "attn_ok T A"
  shows "local_op T j (attn_forward T A x pos j) (attn_forward T A x pos 0)"
proof -
  have core: "local_op T j (if sa_use_flash_attn A then attn_flash T A n q k v else attn_plain T A n q k v)
     (if sa_use_flash_attn A then attn_flash T A n q k v else attn_plain T A n q k v)" for n q k v
    using local_flash[of T j A n q k v] local_plain[of T j A n q k v] assms(2) by (simp add: attn_ok_def)
  show ?thesis
    unfolding attn_forward_def
    by (intro local_try local_split local_bind local_rotary local_update local_need core local_ret assms(1))
      (use assms(2) in \<open>simp add: usize_div_def attn_ok_def\<close>)
qed

lemma local_block:
  assumes "candle_ok T" "attn_ok T (attn B)"
  shows "local_op T j (block_forward T B x pos j) (block_forward T B x pos 0)"
  unfolding block_forward_def by (intro local_try local_bind local_attn local_ret assms)

section \<open>The worker keeps the contract\<close>

text \<open>The meaning of layer \<open>i\<close>: its block on a cache with its own slot only.\<close>

definition slot_cache :: "'t \<Rightarrow> 't \<Rightarrow> ('t \<times> 't) option \<Rightarrow> 't llama_cache" where
  "slot_cache cos sin kv = \<lparr>lc_masks = [], use_kv_cache = True, kvs = [kv], cache_cos = cos, cache_sin = sin\<rparr>"

definition llama_blk ::
  "('t, 'w) candle \<Rightarrow> (nat \<Rightarrow> 'w block) \<Rightarrow> 't \<Rightarrow> 't \<Rightarrow> nat \<Rightarrow> (('t \<times> 't) option, 't) Layers_Workers.block" where
  "llama_blk T W cos sin i kv pos n x =
     (case block_forward T (W i) x (ucast pos) 0 (slot_cache cos sin kv) of
        Inl _ \<Rightarrow> (Inl ''panic'', kv) | Inr (r, c) \<Rightarrow> (r, kvs c ! 0))"

definition cache_ok :: "('t, 'w) candle \<Rightarrow> 't \<Rightarrow> 't \<Rightarrow> nat \<Rightarrow> 't llama_cache \<Rightarrow> bool" where
  "cache_ok T cos sin m c \<longleftrightarrow> use_kv_cache c \<and> cache_cos c = cos \<and> cache_sin c = sin \<and> masks_ok T c \<and> m \<le> length (kvs c)"

lemma block_at:
  assumes "candle_ok T" "attn_ok T (attn (W i))" "cache_ok T cos sin m c" "j < m"
    "llama_blk T W cos sin i (kvs c ! j) pos n x = (r, kv)"
  obtains c' where "block_forward T (W i) x (ucast pos) j c = Inr (r, c')" "cache_ok T cos sin m c'"
    "length (kvs c') = length (kvs c)" "kvs c' ! j = kv" "\<And>i. i \<noteq> j \<Longrightarrow> kvs c' ! i = kvs c ! i"
proof -
  have "at_slot T j c (slot_cache cos sin (kvs c ! j))"
    using assms(3,4) by (simp add: at_slot_def slot_cache_def cache_ok_def masks_ok_def)
  then obtain r' c' d' where b: "block_forward T (W i) x (ucast pos) j c = Inr (r', c')"
    "block_forward T (W i) x (ucast pos) 0 (slot_cache cos sin (kvs c ! j)) = Inr (r', d')" "at_slot T j c' d'" "slot_frame j c c'"
    using local_block[OF assms(1,2), of j x "ucast pos"] unfolding local_op_def by blast
  then have "r' = r" "kvs c' ! j = kv" using assms(5) by (auto simp: llama_blk_def at_slot_def)
  then show thesis using that b assms(3) by (auto simp: slot_frame_def at_slot_def cache_ok_def)
qed

lemma blocks_run:
  assumes "candle_ok T" "\<And>i. a \<le> i \<Longrightarrow> i < b \<Longrightarrow> attn_ok T (attn (W i))" "cache_ok T cos sin (b - a) c"
    "\<And>i. a \<le> i \<Longrightarrow> i < b \<Longrightarrow> kvs c ! (i - a) = C i" "k \<le> b - a"
    "run_layers (llama_blk T W cos sin) [a + k ..< b] pos n x C = (q, D)"
  shows "\<exists>c'. blocks_forward T (map W [a + k ..< b]) k x (ucast pos) c = Inr (q, c') \<and> cache_ok T cos sin (b - a) c' \<and>
    (\<forall>i. a \<le> i \<longrightarrow> i < b \<longrightarrow> kvs c' ! (i - a) = D i)"
  using assms(3-6)
proof (induction "b - (a + k)" arbitrary: k x c C)
  case 0
  then show ?case by (simp add: ret_def)
next
  case (Suc m)
  have ak: "a + k < b" using Suc(2) by simp
  then have upt: "[a + k ..< b] = (a + k) # [a + Suc k ..< b]" by (simp add: upt_conv_Cons)
  have Ck: "kvs c ! k = C (a + k)" using Suc(4)[of "a + k"] ak by simp
  obtain r kv where bk: "llama_blk T W cos sin (a + k) (C (a + k)) pos n x = (r, kv)" by force
  have "k < b - a" using ak by simp
  obtain c1 where c1: "block_forward T (W (a + k)) x (ucast pos) k c = Inr (r, c1)" "cache_ok T cos sin (b - a) c1"
    "length (kvs c1) = length (kvs c)" "kvs c1 ! k = kv" "\<And>i. i \<noteq> k \<Longrightarrow> kvs c1 ! i = kvs c ! i"
    using block_at[OF assms(1) assms(2)[OF _ ak] Suc(3) \<open>k < b - a\<close> bk[folded Ck]] by auto
  have C1: "kvs c1 ! (i - a) = (C(a + k := kv)) i" if "a \<le> i" "i < b" for i
    using that c1(4,5) Suc(4)[OF that] by (cases "i = a + k") auto
  show ?case
  proof (cases r)
    case (Inl e)
    then have "q = Inl e" "D = C(a + k := kv)" using Suc(6) bk by (auto simp: upt)
    then show ?thesis using c1(1,2) C1 Inl by (auto simp: upt bind_op_def)
  next
    case (Inr y)
    have run: "run_layers (llama_blk T W cos sin) [a + Suc k ..< b] pos n y (C(a + k := kv)) = (q, D)"
      using Suc(6) bk Inr by (simp add: upt)
    have "\<exists>c'. blocks_forward T (map W [a + Suc k ..< b]) (Suc k) y (ucast pos) c1 = Inr (q, c') \<and> cache_ok T cos sin (b - a) c' \<and>
      (\<forall>i. a \<le> i \<longrightarrow> i < b \<longrightarrow> kvs c' ! (i - a) = D i)"
      by (rule Suc(1)[OF _ c1(2) C1 _ run]) (use Suc(2) ak in auto)
    then show ?thesis using c1(1) Inr by (auto simp: upt bind_op_def)
  qed
qed

definition llama_ok ::
  "('t, 'w) candle \<Rightarrow> (nat \<Rightarrow> 'w block) \<Rightarrow> 't \<Rightarrow> 't \<Rightarrow> nat \<Rightarrow> nat \<Rightarrow> ('t, 'w) llama_layers_worker \<Rightarrow> bool" where
  "llama_ok T W cos sin a b l \<longleftrightarrow> candle_ok T \<and> (\<forall>i. a \<le> i \<and> i < b \<longrightarrow> attn_ok T (attn (W i))) \<and> lw_llama l = map W [a ..< b] \<and>
     (\<forall>s c. get_clone (lw_caches l) s = Some c \<longrightarrow> cache_ok T cos sin (b - a) c) \<and>
     (\<exists>c. cache_new T USE_KV_CACHE (lw_dtype l) (lw_cfg l) () = Inr (Inr c, ()) \<and> cache_cos c = cos \<and> cache_sin c = sin) \<and>
     b - a \<le> unat (num_hidden_layers (lw_cfg l))"

definition llama_view :: "nat \<Rightarrow> ('t, 'w) llama_layers_worker \<Rightarrow> session \<Rightarrow> (nat \<Rightarrow> ('t \<times> 't) option) option" where
  "llama_view a l s = map_option (\<lambda>c i. kvs c ! (i - a)) (get_clone (lw_caches l) s)"

lemma cache_new_fresh:
  assumes "cache_new T use_kv dt cfg s = Inr (Inr c, s')"
  shows "lc_masks c = []" "use_kv_cache c = use_kv" "kvs c = replicate (unat (num_hidden_layers cfg)) None"
  using assms by (auto simp: cache_new_def need_op_def try_op_def ret_def split: sum.splits)

lemma llama_start_ok:
  assumes "llama_ok T W cos sin a b l"
  shows "\<exists>l' C. llama_start T s cfg l = Inr (Inr (), l') \<and> llama_ok T W cos sin a b l' \<and> llama_view a l' s = Some C \<and>
    (\<forall>i \<in> set [a ..< b]. C i = None) \<and> (\<forall>s'. s' \<noteq> s \<longrightarrow> llama_view a l' s' = llama_view a l s')"
proof -
  obtain c where c: "cache_new T USE_KV_CACHE (lw_dtype l) (lw_cfg l) () = Inr (Inr c, ())" "cache_cos c = cos" "cache_sin c = sin"
    using assms by (auto simp: llama_ok_def)
  note f = cache_new_fresh[OF c(1)]
  have "cache_ok T cos sin (b - a) c"
    using assms c f by (simp add: cache_ok_def llama_ok_def masks_ok_def USE_KV_CACHE_def)
  moreover have "kvs c ! (i - a) = None" if "a \<le> i" "i < b" for i
    using assms that f by (auto simp: llama_ok_def)
  ultimately show ?thesis
    using assms c by (auto simp: llama_start_def llama_ok_def llama_view_def get_clone_insert)
qed

lemma llama_forward_ok:
  assumes ok: "llama_ok T W cos sin a b l" and v: "llama_view a l s = Some C"
    and run: "run_layers (llama_blk T W cos sin) [a ..< b] pos n x C = (q, D)"
  shows "\<exists>l' C'. llama_forward T s step (x, n) pos l = Inr (map_sum id (\<lambda>y. (y, n)) q, l') \<and> llama_ok T W cos sin a b l' \<and>
    llama_view a l' s = Some C' \<and> (\<forall>i \<in> set [a ..< b]. C' i = D i) \<and> (\<forall>s'. s' \<noteq> s \<longrightarrow> llama_view a l' s' = llama_view a l s')"
proof -
  obtain c where c: "get_clone (lw_caches l) s = Some c" "C = (\<lambda>i. kvs c ! (i - a))"
    using v by (auto simp: llama_view_def)
  have o: "candle_ok T" "\<And>i. a \<le> i \<Longrightarrow> i < b \<Longrightarrow> attn_ok T (attn (W i))" "cache_ok T cos sin (b - a) c" "lw_llama l = map W [a ..< b]"
    using ok c(1) by (auto simp: llama_ok_def)
  have "\<exists>c'. blocks_forward T (map W [a + 0 ..< b]) 0 x (ucast pos) c = Inr (q, c') \<and> cache_ok T cos sin (b - a) c' \<and>
    (\<forall>i. a \<le> i \<longrightarrow> i < b \<longrightarrow> kvs c' ! (i - a) = D i)"
    by (rule blocks_run[OF o(1-3)]) (use run in \<open>simp_all add: c(2)\<close>)
  then obtain c' where c': "llama_layers_forward T (lw_llama l) x (ucast pos) c = Inr (q, c')" "cache_ok T cos sin (b - a) c'"
    "\<forall>i. a \<le> i \<longrightarrow> i < b \<longrightarrow> kvs c' ! (i - a) = D i"
    by (auto simp: o(4) llama_layers_forward_def)
  then show ?thesis
    using ok c(1) by (auto simp: llama_forward_def llama_ok_def llama_view_def get_clone_insert)
qed

interpretation llama: layers_worker "llama_ops T" "[a ..< b]" "llama_blk T W cos sin" "\<lambda>_. None" "llama_view a" "llama_ok T W cos sin a b"
  for T W cos sin a b
proof (unfold_locales, goal_cases)
  case (1 l s cfg)
  then show ?case using llama_start_ok by (simp add: llama_ops_def)
next
  case (2 l s C pos n x q D step)
  then show ?case using llama_forward_ok by (simp add: llama_ops_def)
next
  case (3 l s)
  then show ?case by (auto simp: llama_ops_def llama_finish_def llama_ok_def llama_view_def get_clone_remove)
qed

end
