(* ===== verification/Logits_Processor.thy ===== *)
theory Logits_Processor
  imports Candle
begin

text \<open>
  The choice of the next token: \<^verbatim>\<open>crates/models/src/logits_processor.rs\<close>. The random number
  generator, weighted sampling (\<open>rand\<close>) and \<open>select_nth_unstable_by\<close>, whose order is not
  specified, are the parameter record \<open>sampler\<close>. The closure \<open>f\<close> of \<open>sample_f\<close> is the
  one \<open>sample\<close> passes, which does nothing.
\<close>

datatype sampling =
    ArgMax
  | SampleAll f64
  | TopK usize f64
  | TopP f64 f64
  | TopKThenTopP usize f64 f64

record 'g sampler =
  sp_seed :: "u64 \<Rightarrow> 'g"
  sp_weighted :: "f32 list \<Rightarrow> 'g \<Rightarrow> (nat \<times> 'g) cres"
  sp_select_nth :: "f32 list \<Rightarrow> nat \<Rightarrow> nat list"

record 'g logits_processor =
  lp_rng :: 'g
  lp_sampling :: sampling

definition from_sampling :: "'g sampler \<Rightarrow> u64 \<Rightarrow> sampling \<Rightarrow> 'g logits_processor" where
  "from_sampling R sd sm = \<lparr>lp_rng = sp_seed R sd, lp_sampling = sm\<rparr>"

text \<open>The bit pattern of \<open>1e-7\<close>.\<close>

definition lp_new :: "float_ops \<Rightarrow> 'g sampler \<Rightarrow> u64 \<Rightarrow> f64 option \<Rightarrow> f64 option \<Rightarrow> 'g logits_processor" where
  "lp_new fp R sd temp p =
     (let temp = Option.bind temp (\<lambda>v. if f64_lt fp v 0x3E7AD7F29ABCAF48 then None else Some v)
      in from_sampling R sd (case temp of
           None \<Rightarrow> ArgMax
         | Some t \<Rightarrow> (case p of None \<Rightarrow> SampleAll t | Some p \<Rightarrow> TopP p t)))"

section \<open>Sampling\<close>

text \<open>\<open>Iterator::max_by\<close> with \<open>total_cmp\<close>: the last of the largest.\<close>

fun max_by_total :: "(nat \<times> f32) list \<Rightarrow> (nat \<times> f32) option" where
  "max_by_total [] = None"
| "max_by_total (e # es) = Some (fold (\<lambda>y x. if total_less (snd y) (snd x) then x else y) es e)"

definition sample_argmax :: "('t, 'w) candle \<Rightarrow> 't \<Rightarrow> ('s, u32) op" where
  "sample_argmax T logits =
     try_op (c_to_vec1 T logits) (\<lambda>v.
     need_op (unwrap_option UnwrapOnNone (max_by_total (zip [0 ..< length v] v))) (\<lambda>(i, _).
     ret (word_of_nat i)))"

definition sample_multinomial :: "'g sampler \<Rightarrow> f32 list \<Rightarrow> ('g logits_processor, u32) op" where
  "sample_multinomial R prs = get_op (\<lambda>lp.
     try_op (sp_weighted R prs (lp_rng lp)) (\<lambda>(i, g).
     put_op (\<lambda>lp. lp\<lparr>lp_rng := g\<rparr>) (ret (word_of_nat i))))"

definition argsort :: "f32 list \<Rightarrow> nat list" where
  "argsort prs = sort_key (\<lambda>i. - total_key (prs ! i)) [0 ..< length prs]"

fun topp_clamp :: "float_ops \<Rightarrow> f32 \<Rightarrow> nat list \<Rightarrow> f32 \<Rightarrow> f32 list \<Rightarrow> f32 list" where
  "topp_clamp fp p [] cumsum prs = prs"
| "topp_clamp fp p (i # is) cumsum prs =
     (if f32_ge fp cumsum p then topp_clamp fp p is cumsum (prs[i := f32_zero])
      else topp_clamp fp p is (f32_add fp cumsum (prs ! i)) prs)"

definition sample_topp :: "float_ops \<Rightarrow> 'g sampler \<Rightarrow> f32 list \<Rightarrow> f32 \<Rightarrow> ('g logits_processor, u32) op" where
  "sample_topp fp R prs p = sample_multinomial R (topp_clamp fp p (argsort prs) f32_zero prs)"

text \<open>The tokens that \<open>select_nth_unstable_by\<close> put in front; the sampled position is looked up there.\<close>

definition pick :: "nat list \<Rightarrow> ('s, u32) op \<Rightarrow> ('s, u32) op" where
  "pick indices m = bind_op m (\<lambda>index. need_op (vec_index indices (unat index)) (\<lambda>i. ret (word_of_nat i)))"

definition sample_topk :: "'g sampler \<Rightarrow> f32 list \<Rightarrow> usize \<Rightarrow> ('g logits_processor, u32) op" where
  "sample_topk R prs k =
     (if unat k \<ge> length prs then sample_multinomial R prs
      else let indices = sp_select_nth R prs (unat k)
           in pick indices (sample_multinomial R (map (\<lambda>i. prs ! i) indices)))"

definition sample_topk_topp :: "float_ops \<Rightarrow> 'g sampler \<Rightarrow> f32 list \<Rightarrow> usize \<Rightarrow> f32 \<Rightarrow> ('g logits_processor, u32) op" where
  "sample_topk_topp fp R prs k p =
     (if unat k \<ge> length prs then sample_topp fp R prs p
      else let indices = sp_select_nth R prs (unat k); top = map (\<lambda>i. prs ! i) indices;
               sum_p = foldl (f32_add fp) f32_zero top
           in pick indices (if f32_ge fp f32_zero p \<or> f32_ge fp p sum_p
                then sample_multinomial R top else sample_topp fp R top p))"

definition lp_prs :: "('t, 'w) candle \<Rightarrow> 't \<Rightarrow> f64 \<Rightarrow> f32 list cres" where
  "lp_prs T logits temp =
     cres_bind (c_div_scalar T logits temp) (\<lambda>l.
     cres_bind (c_softmax_last_dim T l) (\<lambda>prs. c_to_vec1 T prs))"

definition lp_sample :: "('t, 'w) candle \<Rightarrow> 'g sampler \<Rightarrow> 't \<Rightarrow> ('g logits_processor, u32) op" where
  "lp_sample T R logits =
     try_op (c_to_dtype T logits DT_F32) (\<lambda>logits. get_op (\<lambda>lp. case lp_sampling lp of
       ArgMax \<Rightarrow> sample_argmax T logits
     | SampleAll temp \<Rightarrow> try_op (lp_prs T logits temp) (sample_multinomial R)
     | TopP p temp \<Rightarrow> try_op (lp_prs T logits temp) (\<lambda>prs.
         if f64_le (c_fp T) p 0 \<or> f64_le (c_fp T) 0x3FF0000000000000 p then sample_multinomial R prs
         else sample_topp (c_fp T) R prs (f32_of_f64 (c_fp T) p))
     | TopK k temp \<Rightarrow> try_op (lp_prs T logits temp) (\<lambda>prs. sample_topk R prs k)
     | TopKThenTopP k p temp \<Rightarrow> try_op (lp_prs T logits temp) (\<lambda>prs.
         sample_topk_topp (c_fp T) R prs k (f32_of_f64 (c_fp T) p))))"

text \<open>The sampling a chat asks for (\<^verbatim>\<open>chat\<close> of both models): a temperature of zero or less is greedy.\<close>

definition sampling_of :: "float_ops \<Rightarrow> chat_cfg \<Rightarrow> sampling" where
  "sampling_of fp cfg =
     (if f64_le fp (temperature cfg) 0 then ArgMax
      else (case (top_k cfg, top_p cfg) of
          (None, None) \<Rightarrow> SampleAll (temperature cfg)
        | (Some k, None) \<Rightarrow> TopK k (temperature cfg)
        | (None, Some p) \<Rightarrow> TopP p (temperature cfg)
        | (Some k, Some p) \<Rightarrow> TopKThenTopP k p (temperature cfg)))"

section \<open>Greedy sampling\<close>

lemma fold_max_last:
  assumes "\<forall>e \<in> set (xs @ [a]). total_key (snd e) \<le> total_key (snd a)"
    "fold (\<lambda>y x. if total_less (snd y) (snd x) then x else y) ys a = m"
  shows "m \<in> set (a # ys) \<and> (\<forall>e \<in> set (xs @ a # ys). total_key (snd e) \<le> total_key (snd m)) \<and>
    (\<exists>us vs. a # ys = us @ m # vs \<and> (\<forall>e \<in> set vs. total_key (snd e) < total_key (snd m)))"
  using assms
proof (induction ys arbitrary: xs a)
  case Nil
  then show ?case by (auto intro: exI[of _ "[]"])
next
  case (Cons y ys)
  show ?case
  proof (cases "total_less (snd y) (snd a)")
    case True
    then have "fold (\<lambda>y x. if total_less (snd y) (snd x) then x else y) ys a = m" using Cons.prems(2) by simp
    moreover have "\<forall>e \<in> set ((xs @ [y]) @ [a]). total_key (snd e) \<le> total_key (snd a)"
      using Cons.prems(1) True by (auto simp: total_less_def)
    ultimately have ih: "m \<in> set (a # ys)" "\<forall>e \<in> set ((xs @ [y]) @ a # ys). total_key (snd e) \<le> total_key (snd m)"
      "\<exists>us vs. a # ys = us @ m # vs \<and> (\<forall>e \<in> set vs. total_key (snd e) < total_key (snd m))"
      using Cons.IH by blast+
    then obtain us vs where uv: "a # ys = us @ m # vs" "\<forall>e \<in> set vs. total_key (snd e) < total_key (snd m)" by blast
    have "\<exists>us vs. a # y # ys = us @ m # vs \<and> (\<forall>e \<in> set vs. total_key (snd e) < total_key (snd m))"
    proof (cases us)
      case Nil
      then show ?thesis using uv True by (intro exI[of _ "[]"] exI[of _ "y # ys"]) (auto simp: total_less_def)
    next
      case (Cons u us')
      then show ?thesis using uv by (intro exI[of _ "a # y # us'"] exI[of _ vs]) auto
    qed
    then show ?thesis using ih by auto
  next
    case False
    then have "fold (\<lambda>y x. if total_less (snd y) (snd x) then x else y) ys y = m" using Cons.prems(2) by simp
    moreover have "\<forall>e \<in> set ((xs @ [a]) @ [y]). total_key (snd e) \<le> total_key (snd y)"
      using Cons.prems(1) False by (fastforce simp: total_less_def)
    ultimately have ih: "m \<in> set (y # ys)" "\<forall>e \<in> set ((xs @ [a]) @ y # ys). total_key (snd e) \<le> total_key (snd m)"
      "\<exists>us vs. y # ys = us @ m # vs \<and> (\<forall>e \<in> set vs. total_key (snd e) < total_key (snd m))"
      using Cons.IH by blast+
    then show ?thesis by (metis Cons_eq_appendI append.assoc append_Cons append_Nil list.set_intros(2))
  qed
qed

lemma max_by_total_index:
  assumes "v \<noteq> []"
  obtains i where "max_by_total (zip [0 ..< length v] v) = Some (i, v ! i)" "i < length v"
    "\<forall>j < length v. total_key (v ! j) \<le> total_key (v ! i)" "\<forall>j. i < j \<and> j < length v \<longrightarrow> total_key (v ! j) < total_key (v ! i)"
proof -
  let ?z = "zip [0 ..< length v] v"
  have len: "length ?z = length v" by simp
  have nth: "?z ! j = (j, v ! j)" if "j < length v" for j using that by simp
  obtain e es where z: "?z = e # es" using assms by (cases ?z) auto
  define m where "m = fold (\<lambda>y x. if total_less (snd y) (snd x) then x else y) es e"
  have "m \<in> set ?z \<and> (\<forall>e \<in> set ?z. total_key (snd e) \<le> total_key (snd m)) \<and>
    (\<exists>us vs. ?z = us @ m # vs \<and> (\<forall>e \<in> set vs. total_key (snd e) < total_key (snd m)))"
    using fold_max_last[of "[]" e es m] z m_def by simp
  then obtain us vs where mm: "\<forall>e \<in> set ?z. total_key (snd e) \<le> total_key (snd m)" "?z = us @ m # vs"
    "\<forall>e \<in> set vs. total_key (snd e) < total_key (snd m)" by blast
  define i where "i = length us"
  have i: "i < length v" using arg_cong[OF mm(2), of length] len by (simp add: i_def)
  have m: "m = (i, v ! i)" using nth[OF i] mm(2) by (simp add: i_def)
  show thesis
  proof (rule that)
    show "max_by_total ?z = Some (i, v ! i)" using z m m_def by simp
    show "\<forall>j < length v. total_key (v ! j) \<le> total_key (v ! i)"
      using mm(1) m nth len by (metis nth_mem snd_conv)
    show "\<forall>j. i < j \<and> j < length v \<longrightarrow> total_key (v ! j) < total_key (v ! i)"
    proof (intro allI impI)
      fix j assume j: "i < j \<and> j < length v"
      then have "?z ! j = vs ! (j - Suc i)" using mm(2) by (simp add: nth_append i_def)
      moreover have "j - Suc i < length vs" using j arg_cong[OF mm(2), of length] len by (auto simp: i_def)
      ultimately have "?z ! j \<in> set vs" by simp
      then show "total_key (v ! j) < total_key (v ! i)" using mm(3) m nth j by fastforce
    qed
  qed (rule i)
qed

text \<open>
  Greedy sampling returns the position of the largest logit, in the total order on floating
  point numbers (negative not-a-numbers first, positive ones last), and of the last one when
  several are equal. It panics only on an empty vector of logits.
\<close>

theorem argmax_is_last_maximum:
  assumes "c_to_vec1 T logits = Inr v" "v \<noteq> []" "length v \<le> 2 ^ 32"
  shows "\<exists>tok. sample_argmax T logits lp = Inr (Inr tok, lp) \<and> unat tok < length v \<and>
    (\<forall>j < length v. total_key (v ! j) \<le> total_key (v ! unat tok)) \<and>
    (\<forall>j. unat tok < j \<and> j < length v \<longrightarrow> total_key (v ! j) < total_key (v ! unat tok))"
proof -
  obtain i where i: "max_by_total (zip [0 ..< length v] v) = Some (i, v ! i)" "i < length v"
    "\<forall>j < length v. total_key (v ! j) \<le> total_key (v ! i)" "\<forall>j. i < j \<and> j < length v \<longrightarrow> total_key (v ! j) < total_key (v ! i)"
    by (rule max_by_total_index[OF assms(2)])
  have "unat (word_of_nat i :: u32) = i" using i(2) assms(3) by (simp add: unat_u32_of_nat)
  moreover have "sample_argmax T logits lp = Inr (Inr (word_of_nat i), lp)"
    using assms(1) i(1) by (simp add: sample_argmax_def op_defs)
  ultimately show ?thesis using i(2-4) by (intro exI[of _ "word_of_nat i"]) simp
qed

section \<open>Nucleus sampling\<close>

definition cum_at :: "float_ops \<Rightarrow> f32 list \<Rightarrow> nat list \<Rightarrow> nat \<Rightarrow> f32" where
  "cum_at fp prs is j = foldl (f32_add fp) f32_zero (map (\<lambda>i. prs ! i) (take j is))"

lemma topp_clamp_zero:
  assumes "f32_ge fp c p" "set is \<subseteq> {..< length prs}"
  shows "length (topp_clamp fp p is c prs) = length prs \<and>
    topp_clamp fp p is c prs ! k = (if k \<in> set is then f32_zero else prs ! k)"
  using assms(2)
proof (induction "is" arbitrary: prs)
  case (Cons i "is")
  then show ?case using assms(1) by (auto simp: nth_list_update)
qed simp

lemma topp_clamp_other: "k \<notin> set is \<Longrightarrow> topp_clamp fp p is c prs ! k = prs ! k"
  by (induction fp p "is" c prs rule: topp_clamp.induct) auto

lemma topp_clamp_gen:
  assumes "distinct is" "set is \<subseteq> {..< length prs}"
  shows "length (topp_clamp fp p is c prs) = length prs \<and> (\<exists>m \<le> length is.
     (\<forall>j < length is. topp_clamp fp p is c prs ! (is ! j) = (if j < m then prs ! (is ! j) else f32_zero)) \<and>
     (\<forall>j < m. \<not> f32_ge fp (foldl (f32_add fp) c (map (\<lambda>i. prs ! i) (take j is))) p) \<and>
     (m < length is \<longrightarrow> f32_ge fp (foldl (f32_add fp) c (map (\<lambda>i. prs ! i) (take m is))) p))"
  using assms
proof (induction "is" arbitrary: c)
  case (Cons i "is")
  show ?case
  proof (cases "f32_ge fp c p")
    case True
    then show ?thesis using topp_clamp_zero[OF True, of "i # is" prs] Cons.prems nth_mem[of _ "i # is"]
      by (intro conjI exI[of _ 0]) (auto simp del: topp_clamp.simps)
  next
    case False
    let ?c = "f32_add fp c (prs ! i)"
    obtain m where m: "length (topp_clamp fp p is ?c prs) = length prs" "m \<le> length is"
      "\<forall>j < length is. topp_clamp fp p is ?c prs ! (is ! j) = (if j < m then prs ! (is ! j) else f32_zero)"
      "\<forall>j < m. \<not> f32_ge fp (foldl (f32_add fp) ?c (map (\<lambda>i. prs ! i) (take j is))) p"
      "m < length is \<longrightarrow> f32_ge fp (foldl (f32_add fp) ?c (map (\<lambda>i. prs ! i) (take m is))) p"
      using Cons.IH[of ?c] Cons.prems by auto
    have keep: "topp_clamp fp p is ?c prs ! i = prs ! i"
      using Cons.prems(1) by (intro topp_clamp_other) simp
    show ?thesis
    proof (intro conjI exI[of _ "Suc m"])
      show "\<forall>j < length (i # is). topp_clamp fp p (i # is) c prs ! ((i # is) ! j) = (if j < Suc m then prs ! ((i # is) ! j) else f32_zero)"
        using m(3) keep False by (auto simp: nth_Cons split: nat.splits)
      show "\<forall>j < Suc m. \<not> f32_ge fp (foldl (f32_add fp) c (map (\<lambda>i. prs ! i) (take j (i # is)))) p"
        using m(4) False by (auto simp: take_Cons split: nat.splits)
    qed (use m(1,2,5) False in auto)
  qed
qed simp

lemma argsort_props:
  "distinct (argsort prs)" "set (argsort prs) = {..< length prs}" "length (argsort prs) = length prs"
  "i < j \<Longrightarrow> j < length prs \<Longrightarrow> total_key (prs ! (argsort prs ! j)) \<le> total_key (prs ! (argsort prs ! i))"
proof -
  show "distinct (argsort prs)" "set (argsort prs) = {..< length prs}" "length (argsort prs) = length prs"
    by (auto simp: argsort_def)
  assume "i < j" "j < length prs"
  then show "total_key (prs ! (argsort prs ! j)) \<le> total_key (prs ! (argsort prs ! i))"
    using sorted_nth_mono[OF sorted_sort_key[of "\<lambda>i. - total_key (prs ! i)" "[0 ..< length prs]"], of i j]
    by (simp add: argsort_def)
qed

text \<open>
  C34. Nucleus sampling keeps a prefix of the tokens in decreasing order of probability and sets the
  others to zero; the prefix is the shortest one whose sum, added up in that order, reaches
  \<open>top_p\<close>.
\<close>

theorem topp_keeps_nucleus:
  "\<exists>m \<le> length prs.
     (\<forall>j < length prs. topp_clamp fp p (argsort prs) f32_zero prs ! (argsort prs ! j) =
        (if j < m then prs ! (argsort prs ! j) else f32_zero)) \<and>
     (\<forall>i j. i < j \<and> j < length prs \<longrightarrow> total_key (prs ! (argsort prs ! j)) \<le> total_key (prs ! (argsort prs ! i))) \<and>
     (\<forall>j < m. \<not> f32_ge fp (cum_at fp prs (argsort prs) j) p) \<and>
     (m < length prs \<longrightarrow> f32_ge fp (cum_at fp prs (argsort prs) m) p)"
  using topp_clamp_gen[of "argsort prs" prs fp p f32_zero] argsort_props by (auto simp: cum_at_def)

section \<open>The token is one of the vocabulary\<close>

text \<open>What is documented of the two libraries: a sampled position has a weight, and the selected
  positions are as many as asked for and positions of the vector.\<close>

definition sampler_ok :: "'g sampler \<Rightarrow> bool" where
  "sampler_ok R \<longleftrightarrow> (\<forall>prs g i g'. sp_weighted R prs g = Inr (i, g') \<longrightarrow> i < length prs) \<and>
     (\<forall>prs k. k < length prs \<longrightarrow> length (sp_select_nth R prs k) = k \<and> set (sp_select_nth R prs k) \<subseteq> {..< length prs})"

text \<open>A computation that does not panic and whose token is below a bound.\<close>

definition tok_below :: "nat \<Rightarrow> ('s, u32) op \<Rightarrow> bool" where
  "tok_below n m \<longleftrightarrow> (\<forall>s. \<exists>r s'. m s = Inr (r, s') \<and> (\<forall>tok. r = Inr tok \<longrightarrow> unat tok < n))"

lemma tok_belowE:
  assumes "tok_below n m"
  obtains r s' where "m s = Inr (r, s')" "\<forall>tok. r = Inr tok \<longrightarrow> unat tok < n"
  using assms unfolding tok_below_def by blast

lemma tok_below_try: "(\<And>x. m = Inr x \<Longrightarrow> tok_below n (k x)) \<Longrightarrow> tok_below n (try_op m k)"
  by (cases m) (auto simp: tok_below_def)

lemma tok_below_get: "(\<And>s. tok_below n (k s)) \<Longrightarrow> tok_below n (get_op k)"
  by (auto simp: tok_below_def get_op_def)

lemma multinomial_below:
  assumes "sampler_ok R" "length prs \<le> 2 ^ 32" "length prs = n"
  shows "tok_below n (sample_multinomial R prs)"
proof -
  have "unat (word_of_nat i :: u32) < n" if "sp_weighted R prs g = Inr (i, g')" for g i g'
  proof -
    have "i < length prs" using that assms(1) unfolding sampler_ok_def by blast
    then show ?thesis using assms(2,3) by (simp add: unat_u32_of_nat)
  qed
  then show ?thesis
    by (auto simp: tok_below_def sample_multinomial_def op_defs split: sum.split)
qed

lemma topp_below:
  assumes "sampler_ok R" "length prs \<le> 2 ^ 32" "length prs = n"
  shows "tok_below n (sample_topp fp R prs p)"
proof -
  have "length (topp_clamp fp p (argsort prs) f32_zero prs) = length prs"
    using topp_clamp_gen[of "argsort prs" prs] argsort_props by blast
  then show ?thesis using assms by (simp add: sample_topp_def multinomial_below)
qed

lemma pick_below:
  assumes "tok_below (length indices) m" "set indices \<subseteq> {..< n}" "n \<le> 2 ^ 32"
  shows "tok_below n (pick indices m)"
  unfolding tok_below_def
proof
  fix s
  obtain r s' where r: "m s = Inr (r, s')" "\<forall>tok. r = Inr tok \<longrightarrow> unat tok < length indices"
    by (rule tok_belowE[OF assms(1), of s])
  show "\<exists>r s'. pick indices m s = Inr (r, s') \<and> (\<forall>tok. r = Inr tok \<longrightarrow> unat tok < n)"
  proof (cases r)
    case (Inl e)
    then show ?thesis using r by (simp add: pick_def bind_op_def)
  next
    case (Inr tok)
    then have i: "unat tok < length indices" using r(2) by simp
    then have "indices ! unat tok < n" using assms(2) nth_mem by blast
    then have "unat (word_of_nat (indices ! unat tok) :: u32) < n" using assms(3) by (simp add: unat_u32_of_nat)
    moreover have "vec_index indices (unat tok) = Inr (indices ! unat tok)" using i by simp
    ultimately show ?thesis using r(1) Inr by (simp add: pick_def bind_op_def need_op_def ret_def del: vec_index_Inr_iff)
  qed
qed


section \<open>Examples\<close>

definition first_sampler :: "nat sampler" where
  "first_sampler = \<lparr>sp_seed = unat, sp_weighted = (\<lambda>prs g. if prs = [] then Inl ''no weight'' else Inr (0, Suc g)),
     sp_select_nth = (\<lambda>_ k. [0 ..< k])\<rparr>"

lemma first_sampler_ok: "sampler_ok first_sampler"
  by (auto simp: sampler_ok_def first_sampler_def split: if_splits)

theorem argmax_is_last_maximum_witness:
  "\<exists>tok. sample_argmax flat_candle ([3], [7, 9, 9]) () = Inr (Inr tok, ()) \<and> unat tok < 3 \<and> total_key ([7, 9, 9] ! unat tok) \<ge> total_key 9"
proof -
  have "c_to_vec1 flat_candle ([3], [7, 9, 9]) = Inr [7, 9, 9]" by (simp add: flat_candle_def)
  then obtain tok where t: "sample_argmax flat_candle ([3], [7, 9, 9]) () = Inr (Inr tok, ())" "unat tok < length [7, 9, 9 :: f32]"
    "\<forall>j < length [7, 9, 9 :: f32]. total_key ([7, 9, 9] ! j) \<le> total_key ([7, 9, 9] ! unat tok)"
    using argmax_is_last_maximum[of flat_candle "([3], [7, 9, 9])" "[7, 9, 9]" "()"] by auto
  have "total_key ([7, 9, 9] ! 1) \<le> total_key ([7, 9, 9] ! unat tok)" by (rule t(3)[rule_format]) simp
  then show ?thesis using t(1,2) by simp
qed


theorem topp_keeps_nucleus_witness:
  "\<exists>m. m \<le> length [1, 5, 3 :: f32] \<and>
     topp_clamp flat_floats 6 (argsort [1, 5, 3]) f32_zero [1, 5, 3] ! (argsort [1, 5, 3] ! 2) =
       (if 2 < m then [1, 5, 3] ! (argsort [1, 5, 3] ! 2) else f32_zero)"
proof -
  obtain m where "m \<le> length [1, 5, 3 :: f32]"
    "\<forall>j < length [1, 5, 3 :: f32]. topp_clamp flat_floats 6 (argsort [1, 5, 3]) f32_zero [1, 5, 3] ! (argsort [1, 5, 3] ! j) =
       (if j < m then [1, 5, 3] ! (argsort [1, 5, 3] ! j) else f32_zero)"
    using topp_keeps_nucleus[of "[1, 5, 3]" flat_floats 6] by blast
  then show ?thesis by (intro exI[of _ m]) simp
qed

end
