(* ===== verification/Token_Stream.thy ===== *)
theory Token_Stream
  imports Candle
begin

text \<open>
  The incremental decoder of generated tokens: \<^verbatim>\<open>crates/models/src/token_output_stream.rs\<close>.
  The tokenizer is a parameter. Text is a list of Unicode scalar values; its length and the
  positions where it may be cut are those of its UTF-8 encoding, as in Rust. The Unicode class
  \<open>is_alphanumeric\<close> is a parameter.
\<close>

section \<open>Text\<close>

type_synonym ustr = "u32 list"

definition utf8_len :: "u32 \<Rightarrow> nat" where
  "utf8_len c = (if c < 0x80 then 1 else if c < 0x800 then 2 else if c < 0x10000 then 3 else 4)"

definition str_len :: "ustr \<Rightarrow> nat" where
  "str_len s = sum_list (map utf8_len s)"

text \<open>\<open>str::split_at\<close> panics when the position is not between two characters.\<close>

fun split_at :: "ustr \<Rightarrow> nat \<Rightarrow> (ustr \<times> ustr) res" where
  "split_at s 0 = Inr ([], s)"
| "split_at [] (Suc n) = Inl NotACharBoundary"
| "split_at (c # s) (Suc n) = (if utf8_len c \<le> Suc n
     then res_bind (split_at s (Suc n - utf8_len c)) (\<lambda>(a, b). Inr (c # a, b)) else Inl NotACharBoundary)"

lemma utf8_len_pos [simp]: "0 < utf8_len c"
  by (simp add: utf8_len_def)

lemma str_len_simps [simp]: "str_len [] = 0" "str_len (c # s) = utf8_len c + str_len s" "str_len (s @ t) = str_len s + str_len t"
  by (simp_all add: str_len_def)

lemma str_len_0 [simp]: "str_len s = 0 \<longleftrightarrow> s = []"
  using utf8_len_pos by (cases s) (auto simp del: utf8_len_pos simp: neq0_conv)

lemma split_at_prefix: "split_at (s @ t) (str_len s) = Inr (s, t)"
proof (induction s)
  case (Cons c s)
  obtain n where n: "utf8_len c + str_len s = Suc n" "Suc n - utf8_len c = str_len s" "utf8_len c \<le> Suc n"
    using utf8_len_pos[of c] by (cases "utf8_len c + str_len s") (auto simp del: utf8_len_pos)
  then show ?case using Cons by (simp del: utf8_len_pos)
qed simp

section \<open>The stream\<close>

record tokenizer =
  tk_decode :: "u32 list \<Rightarrow> ustr cres"
  tk_encode :: "ustr \<Rightarrow> u32 list cres"
  tk_token_to_id :: "string \<Rightarrow> u32 option"
  tk_alphanumeric :: "u32 \<Rightarrow> bool"

record token_output_stream =
  tos_tokens :: "u32 list"
  prev_index :: nat
  current_index :: nat

definition tos_new :: token_output_stream where
  "tos_new = \<lparr>tos_tokens = [], prev_index = 0, current_index = 0\<rparr>"

text \<open>A slice \<open>xs[a..b]\<close> panics when \<open>a > b\<close> or \<open>b\<close> is past the end.\<close>

definition slice_of :: "'a list \<Rightarrow> nat \<Rightarrow> nat \<Rightarrow> 'a list res" where
  "slice_of xs a b = (if a \<le> b \<and> b \<le> length xs then Inr (take (b - a) (drop a xs)) else Inl IndexOutOfBounds)"

definition prev_text :: "tokenizer \<Rightarrow> (token_output_stream, ustr) op" where
  "prev_text K = get_op (\<lambda>s. if tos_tokens s = [] then ret []
     else need_op (slice_of (tos_tokens s) (prev_index s) (current_index s)) (\<lambda>tokens.
       try_op (tk_decode K tokens) ret))"

definition next_token :: "tokenizer \<Rightarrow> u32 \<Rightarrow> (token_output_stream, ustr option) op" where
  "next_token K token =
     bind_op (prev_text K) (\<lambda>prev.
     put_op (\<lambda>s. s\<lparr>tos_tokens := tos_tokens s @ [token]\<rparr>) (get_op (\<lambda>s.
     need_op (slice_of (tos_tokens s) (prev_index s) (length (tos_tokens s))) (\<lambda>tokens.
     try_op (tk_decode K tokens) (\<lambda>text.
     if str_len text > str_len prev \<and> tk_alphanumeric K (last text)
     then need_op (split_at text (str_len prev)) (\<lambda>(_, rest).
       put_op (\<lambda>s. s\<lparr>prev_index := current_index s, current_index := length (tos_tokens s)\<rparr>) (ret (Some rest)))
     else ret None)))))"

definition decode_rest :: "tokenizer \<Rightarrow> (token_output_stream, ustr option) op" where
  "decode_rest K =
     bind_op (prev_text K) (\<lambda>prev. get_op (\<lambda>s.
     need_op (slice_of (tos_tokens s) (prev_index s) (length (tos_tokens s))) (\<lambda>tokens.
     try_op (tk_decode K tokens) (\<lambda>text.
     if str_len text > str_len prev
     then need_op (split_at text (str_len prev)) (\<lambda>(_, rest). ret (Some rest))
     else ret None))))"

definition decode_all :: "tokenizer \<Rightarrow> (token_output_stream, ustr) op" where
  "decode_all K = get_op (\<lambda>s. try_op (tk_decode K (tos_tokens s)) ret)"

definition tos_clear :: "token_output_stream \<Rightarrow> token_output_stream" where
  "tos_clear s = s\<lparr>tos_tokens := [], prev_index := 0, current_index := 0\<rparr>"

section \<open>What the stream delivers\<close>

definition tos_ok :: "token_output_stream \<Rightarrow> bool" where
  "tos_ok s \<longleftrightarrow> prev_index s \<le> current_index s \<and> current_index s \<le> length (tos_tokens s)"

text \<open>A tokenizer that decodes token by token.\<close>

definition concatenative :: "tokenizer \<Rightarrow> (u32 \<Rightarrow> ustr) \<Rightarrow> bool" where
  "concatenative K piece \<longleftrightarrow> (\<forall>ts. tk_decode K ts = Inr (concat (map piece ts)))"

definition opt_text :: "ustr option \<Rightarrow> ustr" where
  "opt_text t = (case t of None \<Rightarrow> [] | Some x \<Rightarrow> x)"

text \<open>The tokens of a reply, one after the other; the pieces that are sent.\<close>

fun feed :: "tokenizer \<Rightarrow> u32 list \<Rightarrow> (token_output_stream, ustr) op" where
  "feed K [] = ret []"
| "feed K (t # ts) = bind_op (next_token K t) (\<lambda>p. bind_op (feed K ts) (\<lambda>rest. ret (opt_text p @ rest)))"

text \<open>The text of the tokens before \<open>current_index\<close> has been sent.\<close>

definition sent_text :: "(u32 \<Rightarrow> ustr) \<Rightarrow> token_output_stream \<Rightarrow> ustr" where
  "sent_text piece s = concat (map piece (take (current_index s) (tos_tokens s)))"

lemma slice_ok: "a \<le> b \<Longrightarrow> b \<le> length xs \<Longrightarrow> slice_of xs a b = Inr (take (b - a) (drop a xs))"
  by (simp add: slice_of_def)

lemma prev_text_ok:
  assumes "tos_ok s" "concatenative K piece"
  shows "prev_text K s = Inr (Inr (concat (map piece (take (current_index s - prev_index s) (drop (prev_index s) (tos_tokens s))))), s)"
  using assms by (cases "tos_tokens s = []") (auto simp: prev_text_def op_defs slice_ok tos_ok_def concatenative_def)

lemma drop_slice:
  assumes "p \<le> c" "c \<le> length xs"
  shows "concat (map f (drop p xs)) = concat (map f (take (c - p) (drop p xs))) @ concat (map f (drop c xs))"
proof -
  have "drop p xs = take (c - p) (drop p xs) @ drop c xs"
    using assms append_take_drop_id[of "c - p" "drop p xs"] by simp
  then show ?thesis by (metis concat_append map_append)
qed

lemma next_token_ok:
  assumes ok: "tos_ok s" and K: "concatenative K piece"
  shows "\<exists>p s'. next_token K t s = Inr (Inr p, s') \<and> tos_ok s' \<and> tos_tokens s' = tos_tokens s @ [t] \<and>
    sent_text piece s' = sent_text piece s @ opt_text p"
proof -
  let ?ts = "tos_tokens s @ [t]" and ?c = "current_index s" and ?p = "prev_index s"
  define prev where "prev = concat (map piece (take (?c - ?p) (drop ?p (tos_tokens s))))"
  define rest where "rest = concat (map piece (drop ?c ?ts))"
  define win where "win = drop ?p ?ts"
  have le: "?p \<le> ?c" "?c \<le> length (tos_tokens s)" using ok by (auto simp: tos_ok_def)
  have dec: "tk_decode K win = Inr (prev @ rest)"
    using K drop_slice[of ?p ?c ?ts piece] le by (simp add: concatenative_def prev_def rest_def win_def)
  have sl: "slice_of ?ts ?p (Suc (length (tos_tokens s))) = Inr win"
    using le by (simp add: slice_of_def win_def)
  have pv: "prev_text K s = Inr (Inr prev, s)" using prev_text_ok[OF ok K] by (simp add: prev_def)
  have all: "concat (map piece ?ts) = sent_text piece s @ rest"
  proof -
    have "take ?c (tos_tokens s) @ drop ?c ?ts = ?ts" using le by simp
    then show ?thesis unfolding sent_text_def rest_def by (metis concat_append map_append)
  qed
  show ?thesis
  proof (cases "rest \<noteq> [] \<and> tk_alphanumeric K (last rest)")
    case True
    then have "str_len rest > 0" by (simp add: neq0_conv[symmetric] del: neq0_conv)
    then have "next_token K t s = Inr (Inr (Some rest), s\<lparr>tos_tokens := ?ts, prev_index := ?c, current_index := length ?ts\<rparr>)"
      using dec sl pv True by (simp add: next_token_def op_defs split_at_prefix)
    then show ?thesis using le all by (auto simp: tos_ok_def sent_text_def opt_text_def)
  next
    case False
    then have "\<not> (str_len (prev @ rest) > str_len prev \<and> tk_alphanumeric K (last (prev @ rest)))"
      by (cases "rest = []") auto
    then have "next_token K t s = Inr (Inr None, s\<lparr>tos_tokens := ?ts\<rparr>)"
      using dec sl pv by (auto simp: next_token_def op_defs simp del: str_len_simps)
    then show ?thesis using le by (auto simp: tos_ok_def sent_text_def opt_text_def)
  qed
qed

lemma decode_rest_ok:
  assumes ok: "tos_ok s" and K: "concatenative K piece"
  shows "\<exists>p. decode_rest K s = Inr (Inr p, s) \<and> sent_text piece s @ opt_text p = concat (map piece (tos_tokens s))"
proof -
  let ?ts = "tos_tokens s" and ?c = "current_index s" and ?p = "prev_index s"
  define prev where "prev = concat (map piece (take (?c - ?p) (drop ?p ?ts)))"
  define rest where "rest = concat (map piece (drop ?c ?ts))"
  define win where "win = drop ?p ?ts"
  have le: "?p \<le> ?c" "?c \<le> length ?ts" using ok by (auto simp: tos_ok_def)
  have dec: "tk_decode K win = Inr (prev @ rest)"
    using K drop_slice[OF le] by (simp add: concatenative_def prev_def rest_def win_def)
  have sl: "slice_of ?ts ?p (length ?ts) = Inr win" using le by (simp add: slice_of_def win_def)
  have pv: "prev_text K s = Inr (Inr prev, s)" using prev_text_ok[OF ok K] by (simp add: prev_def)
  have all: "concat (map piece ?ts) = sent_text piece s @ rest"
    unfolding sent_text_def rest_def by (metis append_take_drop_id concat_append map_append)
  show ?thesis
  proof (cases "rest = []")
    case True
    then show ?thesis using dec sl pv all by (simp add: decode_rest_def op_defs opt_text_def)
  next
    case False
    then have "str_len rest > 0" by (simp add: neq0_conv[symmetric] del: neq0_conv)
    then show ?thesis using dec sl pv all by (simp add: decode_rest_def op_defs split_at_prefix opt_text_def)
  qed
qed

lemma feed_ok:
  assumes "tos_ok s" "concatenative K piece"
  shows "\<exists>out s'. feed K ts s = Inr (Inr out, s') \<and> tos_ok s' \<and> tos_tokens s' = tos_tokens s @ ts \<and>
    sent_text piece s' = sent_text piece s @ out"
  using assms(1)
proof (induction ts arbitrary: s)
  case (Cons t ts)
  obtain p s1 where 1: "next_token K t s = Inr (Inr p, s1)" "tos_ok s1" "tos_tokens s1 = tos_tokens s @ [t]"
    "sent_text piece s1 = sent_text piece s @ opt_text p"
    using next_token_ok[OF Cons.prems assms(2), of t] by blast
  obtain out s2 where 2: "feed K ts s1 = Inr (Inr out, s2)" "tos_ok s2" "tos_tokens s2 = tos_tokens s1 @ ts"
    "sent_text piece s2 = sent_text piece s1 @ out"
    using Cons.IH[OF 1(2)] by blast
  show ?case using 1 2 by (simp add: bind_op_def ret_def)
qed (simp add: ret_def)


text \<open>A tokenizer with one token per Latin letter, a token for a space and one for a euro sign.\<close>

definition demo_piece :: "u32 \<Rightarrow> ustr" where
  "demo_piece t = (if t = 0 then [32] else if t = 1 then [0x20AC] else [t])"

definition demo_tokenizer :: tokenizer where
  "demo_tokenizer = \<lparr>tk_decode = \<lambda>ts. Inr (concat (map demo_piece ts)), tk_encode = Inr, tk_token_to_id = \<lambda>_. None,
     tk_alphanumeric = \<lambda>c. 97 \<le> c \<and> c \<le> 122\<rparr>"


end
