(* ===== verification/Chat.thy ===== *)
theory Chat
  imports Token_Stream Layers_Workers
begin

text \<open>
  What the chats of the models have in common (\<^verbatim>\<open>crates/models/src/lib.rs\<close>, trait
  \<open>ChatModel\<close>), and the chat of the fake model (\<^verbatim>\<open>crates/models/src/fake/mod.rs\<close>). A
  chat runs on the layers worker it is given, with state \<open>'l\<close>, and sends text to a channel;
  \<open>tx_limit\<close> is the number of messages its receiver takes before it is gone, if it ever is.

  The reference of a chat is the chat on \<open>ideal_ops\<close>, one machine that runs the layers of
  the model for one session. \<open>chat_sim\<close> says that a computation on a worker does what the
  same computation does on that machine; its rules lift the contract of a session
  (\<open>session_layers\<close>) to whole chats.
\<close>

section \<open>The channel and the state of a chat\<close>

record tx =
  tx_sent :: "ustr list"
  tx_limit :: "nat option"

definition tx_send :: "ustr \<Rightarrow> tx \<Rightarrow> bool \<times> tx" where
  "tx_send t c = (case tx_limit c of
       Some n \<Rightarrow> if length (tx_sent c) < n then (True, c\<lparr>tx_sent := tx_sent c @ [t]\<rparr>) else (False, c)
     | None \<Rightarrow> (True, c\<lparr>tx_sent := tx_sent c @ [t]\<rparr>))"

type_synonym ('l, 'a) chat_op = "('l \<times> tx, 'a) op"

definition on_layers :: "('l, 'a) op \<Rightarrow> ('l, 'a) chat_op" where
  "on_layers f = (\<lambda>(l, c). case f l of Inl p \<Rightarrow> Inl p | Inr (r, l') \<Rightarrow> Inr (r, (l', c)))"

definition layers_finish :: "('t, 'l) layers_ops \<Rightarrow> session \<Rightarrow> ('l, unit) chat_op" where
  "layers_finish ops session = on_layers (\<lambda>l. res_bind (lw_finish ops session l) (\<lambda>l'. Inr (Inr (), l')))"

text \<open>\<open>tx.send(t).await\<close>; the continuation gets whether the receiver is still there.\<close>

definition send_op :: "ustr \<Rightarrow> (bool \<Rightarrow> ('l, 'a) chat_op) \<Rightarrow> ('l, 'a) chat_op" where
  "send_op t k = (\<lambda>(l, c). let (ok, c') = tx_send t c in k ok (l, c'))"

text \<open>A value that a computation of its own changes: the token stream, the sampler.\<close>

definition run_local :: "('b, 'a) op \<Rightarrow> 'b \<Rightarrow> ('s, 'a \<times> 'b) op" where
  "run_local m b s = (case m b of
       Inl p \<Rightarrow> Inl p
     | Inr (Inl e, _) \<Rightarrow> Inr (Inl e, s)
     | Inr (Inr x, b') \<Rightarrow> Inr (Inr (x, b'), s))"

definition ustr_of :: "string \<Rightarrow> ustr" where
  "ustr_of s = map (\<lambda>c. word_of_nat (of_char c)) s"

section \<open>The fake model\<close>

fun fake_loop ::
  "('t, 'w) candle \<Rightarrow> ('t, 'l) layers_ops \<Rightarrow> session \<Rightarrow> nat list \<Rightarrow> ('l, unit) chat_op" where
  "fake_loop T ops session [] = ret ()"
| "fake_loop T ops session (i # is) =
     need_op (case c_new_u32s T [word_of_nat i] of Inl _ \<Rightarrow> Inl UnwrapOnErr | Inr x \<Rightarrow> Inr x) (\<lambda>tensor.
     bind_op (on_layers (lw_forward ops session (word_of_nat i) (tensor, word_of_nat i) (word_of_nat i))) (\<lambda>_.
     send_op (ustr_of (digits i @ '' '')) (\<lambda>ok.
     if ok then fake_loop T ops session is else need_op (Inl UnwrapOnErr) ret)))"

definition fake_chat :: "('t, 'w) candle \<Rightarrow> ('t, 'l) layers_ops \<Rightarrow> session \<Rightarrow> chat_cfg \<Rightarrow> ('l, unit) chat_op" where
  "fake_chat T ops session cfg =
     bind_op (on_layers (lw_start ops session cfg)) (\<lambda>_.
     bind_op (fake_loop T ops session [0 ..< unat (max_len cfg)]) (\<lambda>_.
     layers_finish ops session))"

section \<open>The reference machine\<close>

definition ideal_start :: "(nat \<Rightarrow> 'k) \<Rightarrow> session \<Rightarrow> chat_cfg \<Rightarrow> (nat \<Rightarrow> 'k, unit) op" where
  "ideal_start init s cfg C = Inr (Inr (), init)"

definition ideal_forward ::
  "(nat \<Rightarrow> ('k, 't) block) \<Rightarrow> nat list \<Rightarrow> session \<Rightarrow> u32 \<Rightarrow> 't \<times> u32 \<Rightarrow> u32 \<Rightarrow> (nat \<Rightarrow> 'k, 't \<times> u32) op" where
  "ideal_forward blk L s step = (\<lambda>(x, n) pos C.
     let (r, D) = run_layers blk L pos n x C in Inr (map_sum id (\<lambda>y. (y, n)) r, D))"

definition ideal_ops :: "(nat \<Rightarrow> ('k, 't) block) \<Rightarrow> nat list \<Rightarrow> (nat \<Rightarrow> 'k) \<Rightarrow> ('t, nat \<Rightarrow> 'k) layers_ops" where
  "ideal_ops blk L init = \<lparr>lw_start = ideal_start init, lw_forward = ideal_forward blk L, lw_finish = \<lambda>s C. Inr C\<rparr>"

section \<open>Simulation\<close>

text \<open>What the second computation achieves on related states, the first achieves too; both send the same text.\<close>

definition chat_sim :: "('l \<Rightarrow> 'm \<Rightarrow> bool) \<Rightarrow> ('l \<Rightarrow> 'm \<Rightarrow> bool) \<Rightarrow> ('l, 'a) chat_op \<Rightarrow> ('m, 'a) chat_op \<Rightarrow> bool" where
  "chat_sim I J m n \<longleftrightarrow> (\<forall>l C c x C' c'. I l C \<longrightarrow> n (C, c) = Inr (Inr x, (C', c')) \<longrightarrow>
     (\<exists>l'. m (l, c) = Inr (Inr x, (l', c')) \<and> J l' C'))"

named_theorems sim_intros

lemma sim_ret [sim_intros]: "chat_sim I I (ret x) (ret x)"
  by (auto simp: chat_sim_def ret_def)

lemma sim_try [sim_intros]:
  "(\<And>x. m = Inr x \<Longrightarrow> chat_sim I J (k x) (k' x)) \<Longrightarrow> chat_sim I J (try_op m k) (try_op m k')"
  by (cases m) (auto simp: chat_sim_def)

lemma sim_need [sim_intros]:
  "(\<And>x. m = Inr x \<Longrightarrow> chat_sim I J (k x) (k' x)) \<Longrightarrow> chat_sim I J (need_op m k) (need_op m k')"
  by (cases m) (auto simp: chat_sim_def need_op_def)

lemma sim_bind:
  assumes "chat_sim I J m m'" "\<And>x. chat_sim J K (k x) (k' x)"
  shows "chat_sim I K (bind_op m k) (bind_op m' k')"
  unfolding chat_sim_def
proof (intro allI impI)
  fix l C c x C' c'
  assume I: "I l C" and b: "bind_op m' k' (C, c) = Inr (Inr x, (C', c'))"
  then obtain y C1 c1 where y: "m' (C, c) = Inr (Inr y, (C1, c1))" "k' y (C1, c1) = Inr (Inr x, (C', c'))"
    by (auto simp: bind_op_def split: sum.splits prod.splits)
  obtain l1 where l1: "m (l, c) = Inr (Inr y, (l1, c1))" "J l1 C1"
    using assms(1) I y(1) unfolding chat_sim_def by blast
  then obtain l' where "k y (l1, c1) = Inr (Inr x, (l', c'))" "K l' C'"
    using assms(2) y(2) unfolding chat_sim_def by blast
  then show "\<exists>l'. bind_op m k (l, c) = Inr (Inr x, (l', c')) \<and> K l' C'"
    using l1(1) by (simp add: bind_op_def)
qed

lemmas sim_bind_same [sim_intros] = sim_bind[where J = I and K = I for I]

lemma sim_local [sim_intros]: "chat_sim I I (run_local m b) (run_local m b)"
  by (auto simp: chat_sim_def run_local_def split: sum.splits prod.splits)

lemma sim_send [sim_intros]:
  "(\<And>ok. chat_sim I J (k ok) (k' ok)) \<Longrightarrow> chat_sim I J (send_op t k) (send_op t k')"
  unfolding chat_sim_def send_op_def by (auto split: prod.splits)

lemma sim_if [sim_intros]:
  "(b \<Longrightarrow> chat_sim I J m m') \<Longrightarrow> (\<not> b \<Longrightarrow> chat_sim I J n n') \<Longrightarrow> chat_sim I J (if b then m else n) (if b then m' else n')"
  by simp

lemma sim_prod [sim_intros]:
  "(\<And>a b. chat_sim I J (f a b) (g a b)) \<Longrightarrow> chat_sim I J (case p of (a, b) \<Rightarrow> f a b) (case p of (a, b) \<Rightarrow> g a b)"
  by (cases p) simp

lemma sim_option [sim_intros]:
  "(p = None \<Longrightarrow> chat_sim I J m m') \<Longrightarrow> (\<And>x. p = Some x \<Longrightarrow> chat_sim I J (f x) (g x)) \<Longrightarrow>
    chat_sim I J (case p of None \<Rightarrow> m | Some x \<Rightarrow> f x) (case p of None \<Rightarrow> m' | Some x \<Rightarrow> g x)"
  by (cases p) simp_all

text \<open>
  One pair of layers does what another does, call by call: \<open>P\<close> relates the states before a
  session, \<open>I\<close> during it.
\<close>

definition layers_refine ::
  "('l \<Rightarrow> 'm \<Rightarrow> bool) \<Rightarrow> ('l \<Rightarrow> 'm \<Rightarrow> bool) \<Rightarrow> ('t, 'l) layers_ops \<Rightarrow> session \<Rightarrow> ('t, 'm) layers_ops \<Rightarrow> session \<Rightarrow> bool" where
  "layers_refine P I ops1 s1 ops2 s2 \<longleftrightarrow>
     (\<forall>cfg. chat_sim P I (on_layers (lw_start ops1 s1 cfg)) (on_layers (lw_start ops2 s2 cfg))) \<and>
     (\<forall>step xn pos. chat_sim I I (on_layers (lw_forward ops1 s1 step xn pos)) (on_layers (lw_forward ops2 s2 step xn pos))) \<and>
     chat_sim I (\<lambda>_ _. True) (layers_finish ops1 s1) (layers_finish ops2 s2)"

lemma refine_forward:
  "layers_refine P I ops1 s1 ops2 s2 \<Longrightarrow>
    chat_sim I I (on_layers (lw_forward ops1 s1 step xn pos)) (on_layers (lw_forward ops2 s2 step xn pos))"
  unfolding layers_refine_def by blast

text \<open>A chat that starts, talks and finishes.\<close>

lemma refine_chat:
  assumes r: "layers_refine P I ops1 s1 ops2 s2" and "chat_sim I I body1 body2"
  shows "chat_sim P (\<lambda>_ _. True)
     (bind_op (on_layers (lw_start ops1 s1 cfg)) (\<lambda>_. bind_op body1 (\<lambda>_. layers_finish ops1 s1)))
     (bind_op (on_layers (lw_start ops2 s2 cfg)) (\<lambda>_. bind_op body2 (\<lambda>_. layers_finish ops2 s2)))"
proof -
  have "chat_sim P I (on_layers (lw_start ops1 s1 cfg)) (on_layers (lw_start ops2 s2 cfg))"
    "chat_sim I (\<lambda>_ _. True) (layers_finish ops1 s1) (layers_finish ops2 s2)"
    using r by (simp_all add: layers_refine_def)
  then show ?thesis by (intro sim_bind[OF _ sim_bind[OF assms(2)]])
qed

lemma sim_Ok:
  assumes "chat_sim P Q m n" "P l C" "n (C, c) = Inr (Inr x, (C', c'))"
  obtains l' where "m (l, c) = Inr (Inr x, (l', c'))"
  using assms unfolding chat_sim_def by blast

context session_layers
begin

lemma refines_ideal: "layers_refine (\<lambda>l C. pre l) inv ops s (ideal_ops blk L init) s'"
  unfolding layers_refine_def chat_sim_def
proof (intro conjI allI impI)
  fix cfg l C c x C' c'
  assume "pre l" and i: "on_layers (lw_start (ideal_ops blk L init) s' cfg) (C, c) = Inr (Inr x, (C', c'))"
  then obtain l' where "lw_start ops s cfg l = Inr (Inr (), l')" "inv l' init" using start_ok by blast
  then show "\<exists>l'. on_layers (lw_start ops s cfg) (l, c) = Inr (Inr x, (l', c')) \<and> inv l' C'"
    using i by (simp add: on_layers_def ideal_ops_def ideal_start_def)
next
  fix step xn pos l C c y C' c'
  assume i: "inv l C" and r: "on_layers (lw_forward (ideal_ops blk L init) s' step xn pos) (C, c) = Inr (Inr y, (C', c'))"
  obtain x n where xn: "xn = (x, n)" by (cases xn)
  obtain z where z: "run_layers blk L pos n x C = (Inr z, C')" "y = (z, n)" "c' = c"
    using r by (cases "run_layers blk L pos n x C"; cases "fst (run_layers blk L pos n x C)")
      (auto simp: xn on_layers_def ideal_ops_def ideal_forward_def)
  obtain l' where "lw_forward ops s step (x, n) pos l = Inr (Inr (z, n), l')" "inv l' C'"
    using forward_ok[OF i z(1)] by blast
  then show "\<exists>l'. on_layers (lw_forward ops s step xn pos) (l, c) = Inr (Inr y, (l', c')) \<and> inv l' C'"
    using z by (simp add: xn on_layers_def)
next
  fix l C c x C' c'
  assume "inv l C" and i: "layers_finish (ideal_ops blk L init) s' (C, c) = Inr (Inr x, (C', c'))"
  then obtain l' where "lw_finish ops s l = Inr l'" using finish_ok by blast
  then show "\<exists>l'. layers_finish ops s (l, c) = Inr (Inr x, (l', c')) \<and> True"
    using i by (simp add: layers_finish_def on_layers_def ideal_ops_def)
qed

end

text \<open>The other direction, for a worker: the reference machine does what the worker does.\<close>

context layers_worker
begin

lemma ideal_refines:
  "layers_refine (\<lambda>C l. ok l) (\<lambda>C l. ok l \<and> (\<exists>C'. view l s = Some C' \<and> (\<forall>i \<in> set L. C' i = C i))) (ideal_ops blk L init) s' ops s"
  unfolding layers_refine_def chat_sim_def
proof (intro conjI allI impI)
  fix cfg C l c x l' c'
  assume "ok l" and r: "on_layers (lw_start ops s cfg) (l, c) = Inr (Inr x, (l', c'))"
  then show "\<exists>C'. on_layers (lw_start (ideal_ops blk L init) s' cfg) (C, c) = Inr (Inr x, (C', c')) \<and>
      ok l' \<and> (\<exists>C''. view l' s = Some C'' \<and> (\<forall>i \<in> set L. C'' i = C' i))"
    using start_view[of l s cfg] by (fastforce simp: on_layers_def ideal_ops_def ideal_start_def)
next
  fix step xn pos C l c y l' c'
  assume i: "ok l \<and> (\<exists>C'. view l s = Some C' \<and> (\<forall>i \<in> set L. C' i = C i))"
    and r: "on_layers (lw_forward ops s step xn pos) (l, c) = Inr (Inr y, (l', c'))"
  obtain x n where xn: "xn = (x, n)" by (cases xn)
  obtain C1 where C1: "view l s = Some C1" "\<forall>i \<in> set L. C1 i = C i" using i by blast
  obtain q D where q: "run_layers blk L pos n x C = (q, D)" by force
  obtain F where F: "run_layers blk L pos n x C1 = (q, F)" "\<forall>i \<in> set L. F i = D i"
    by (rule run_layers_agree[OF C1(2) q])
  obtain l2 C2 where f: "lw_forward ops s step (x, n) pos l = Inr (map_sum id (\<lambda>y. (y, n)) q, l2)" "ok l2" "view l2 s = Some C2"
    "\<forall>i \<in> set L. C2 i = F i"
    using forward_view[OF _ C1(1) F(1)] i by metis
  then show "\<exists>C'. on_layers (lw_forward (ideal_ops blk L init) s' step xn pos) (C, c) = Inr (Inr y, (C', c')) \<and>
      ok l' \<and> (\<exists>C''. view l' s = Some C'' \<and> (\<forall>i \<in> set L. C'' i = C' i))"
    using r F(2) by (auto simp: xn q on_layers_def ideal_ops_def ideal_forward_def)
next
  fix C l c x l' c'
  assume "layers_finish ops s (l, c) = Inr (Inr x, (l', c'))"
  then show "\<exists>C'. layers_finish (ideal_ops blk L init) s' (C, c) = Inr (Inr x, (C', c')) \<and> True"
    by (auto simp: layers_finish_def on_layers_def ideal_ops_def elim!: res_bind_InrE split: sum.splits prod.splits)
qed

end

section \<open>The fake chat\<close>

lemma fake_loop_sim:
  assumes "layers_refine P I ops1 s1 ops2 s2"
  shows "chat_sim I I (fake_loop T ops1 s1 is) (fake_loop T ops2 s2 is)"
  by (induction "is") (auto intro!: sim_intros refine_forward[OF assms])

lemma fake_chat_sim:
  assumes "layers_refine P I ops1 s1 ops2 s2"
  shows "chat_sim P (\<lambda>_ _. True) (fake_chat T ops1 s1 cfg) (fake_chat T ops2 s2 cfg)"
  unfolding fake_chat_def by (rule refine_chat[OF assms fake_loop_sim[OF assms]])

end
