(* ===== verification/Openai_Http.thy ===== *)
theory Openai_Http
  imports Token_Stream
begin

text \<open>
  The HTTP front: the request types of \<^verbatim>\<open>crates/protocol/src/openai.rs\<close>, the model store of
  \<^verbatim>\<open>crates/openai-http/src/lib.rs\<close> and the handlers and the reader of
  \<^verbatim>\<open>crates/openai-http/src/api_chat.rs\<close>. The JSON codec and the web server are not in the
  sources. A channel is the list of the messages waiting in it, and whether its other end
  is gone.
\<close>

section \<open>Requests\<close>

record message_content =
  mc_type :: ustr
  mc_text :: ustr

datatype string_or_vec_content = StringContent ustr | VecContent "message_content list"

fun contents :: "string_or_vec_content \<Rightarrow> ustr list" where
  "contents (StringContent c) = [c]"
| "contents (VecContent v) = map mc_text v"

record message =
  msg_role :: string
  msg_content :: string_or_vec_content

record chat_completion_request =
  cr_model :: string
  cr_messages :: "message list"
  cr_temperature :: "f32 option"
  cr_max_tokens :: "u32 option"
  cr_stream :: "bool option"
  cr_plain_text :: "bool option"

record model =
  model_id :: string
  model_object :: string
  model_created :: u64
  model_owned_by :: string

record chat_start_request =
  cs_session :: session
  cs_cfg :: chat_cfg
  cs_req :: chat_completion_request

section \<open>The model store\<close>

text \<open>
  A sender and what its channel holds: the number of the channel, the requests that wait in it, and whether the
  receiver still exists. A sender whose channel is full waits; here the requests queue up.
\<close>

record model_store_element =
  mse_model :: model
  mse_tx :: nat
  mse_queue :: "chat_start_request list"
  mse_open :: bool

type_synonym model_store = "(string, model_store_element) hmap"

text \<open>\<open>tx\<close> is the number of the new channel.\<close>

definition add_model :: "nat \<Rightarrow> model \<Rightarrow> model_store \<Rightarrow> model_store" where
  "add_model tx m s = hm_insert (model_id m) \<lparr>mse_model = m, mse_tx = tx, mse_queue = [], mse_open = True\<rparr> s"

definition remove_model :: "string \<Rightarrow> model_store \<Rightarrow> model_store" where
  "remove_model i s = hm_remove i s"

definition store_models :: "model_store \<Rightarrow> model list" where
  "store_models s = map (\<lambda>(_, e). mse_model e) s"

definition store_model :: "model_store \<Rightarrow> string \<Rightarrow> model option" where
  "store_model s i = map_option mse_model (hm_get s i)"

text \<open>\<open>None\<close>: no such model, or its worker is gone. The store keeps the sender it cloned.\<close>

definition send_model :: "chat_start_request \<Rightarrow> model_store \<Rightarrow> unit option \<times> model_store" where
  "send_model req s = (case hm_get s (cr_model (cs_req req)) of
       None \<Rightarrow> (None, s)
     | Some e \<Rightarrow> if mse_open e
         then (Some (), hm_insert (cr_model (cs_req req)) (e\<lparr>mse_queue := mse_queue e @ [req]\<rparr>) s)
         else (None, s))"

definition get_model :: "model_store \<Rightarrow> string \<Rightarrow> (string, model) sum" where
  "get_model s i = (case store_model s i of Some m \<Rightarrow> Inr m | None \<Rightarrow> Inl ''Model not found'')"

section \<open>A chat request\<close>

datatype chat_response = StreamStarted session chat_cfg | ServiceUnavailable | BadRequest

text \<open>
  \<open>conv\<close> is the conversion of a single to a double; an \<open>i32\<close> is its bits, so the cast to
  \<open>u32\<close> is the identity. \<open>ses\<close> is the random session, \<open>alive\<close> whether the receiver of the
  requests is there.
\<close>

definition request_cfg :: "(f32 \<Rightarrow> f64) \<Rightarrow> chat_completion_request \<Rightarrow> chat_cfg" where
  "request_cfg conv req =
     (let cfg = chat_cfg_default;
          cfg = (case cr_temperature req of Some t \<Rightarrow> cfg\<lparr>temperature := conv t\<rparr> | None \<Rightarrow> cfg)
      in (case cr_max_tokens req of Some m \<Rightarrow> cfg\<lparr>max_len := m\<rparr> | None \<Rightarrow> cfg))"

definition chat_completions ::
  "(f32 \<Rightarrow> f64) \<Rightarrow> session \<Rightarrow> bool \<Rightarrow> chat_completion_request \<Rightarrow> chat_start_request list \<Rightarrow> chat_response \<times> chat_start_request list" where
  "chat_completions conv ses alive req queue =
     (let cfg = request_cfg conv req
      in if cr_stream req = Some True
         then if alive then (StreamStarted ses cfg, queue @ [\<lparr>cs_session = ses, cs_cfg = cfg, cs_req = req\<rparr>])
              else (ServiceUnavailable, queue)
         else (BadRequest, queue))"

text \<open>
  The task that forwards the text of the chat, plain or wrapped in a JSON delta, and stops at
  the first message the reader no longer takes: \<open>gone = Some n\<close> says that it takes \<open>n\<close> more.
\<close>

definition delta_text :: "(ustr \<Rightarrow> ustr) \<Rightarrow> bool option \<Rightarrow> ustr \<Rightarrow> ustr" where
  "delta_text delta plain_text out = (case plain_text of Some True \<Rightarrow> out | _ \<Rightarrow> delta out)"

fun forward_task :: "(ustr \<Rightarrow> ustr) \<Rightarrow> bool option \<Rightarrow> nat option \<Rightarrow> ustr list \<Rightarrow> ustr list" where
  "forward_task delta plain_text gone [] = []"
| "forward_task delta plain_text gone (out # outs) =
     (if gone = Some 0 then [] else delta_text delta plain_text out # forward_task delta plain_text (map_option (\<lambda>n. n - 1) gone) outs)"

lemma forward_task_all: "forward_task delta plain_text None outs = map (delta_text delta plain_text) outs"
  by (induction outs) simp_all

lemma forward_task_prefix: "forward_task delta plain_text (Some n) outs = map (delta_text delta plain_text) (take n outs)"
proof (induction outs arbitrary: n)
  case (Cons out outs)
  then show ?case by (cases n) simp_all
qed simp

section \<open>The reader\<close>

record async_read_rx =
  ar_rx :: "bytes list"
  ar_closed :: bool
  ar_buffer :: "bytes option"
  ar_offset :: nat

datatype poll = Ready bytes | Pending

definition ar_new :: async_read_rx where
  "ar_new = \<lparr>ar_rx = [], ar_closed = False, ar_buffer = None, ar_offset = 0\<rparr>"

text \<open>
  The loop of \<open>poll_read\<close>, by recursion on the messages that wait. \<open>remaining\<close> is the room
  in the caller's buffer. \<open>Ready []\<close> is the end of the stream.
\<close>

definition use_buffer :: "nat \<Rightarrow> async_read_rx \<Rightarrow> (bytes \<times> async_read_rx) res" where
  "use_buffer remaining s = (case ar_buffer s of
       None \<Rightarrow> Inr ([], s)
     | Some buffer \<Rightarrow>
         let available = length buffer - ar_offset s; to_read = min available remaining
         in res_bind (slice_of buffer (ar_offset s) (ar_offset s + to_read)) (\<lambda>chunk.
            let s = s\<lparr>ar_offset := ar_offset s + to_read\<rparr>
            in Inr (chunk, if ar_offset s \<ge> length buffer then s\<lparr>ar_buffer := None, ar_offset := 0\<rparr> else s)))"

function poll_read :: "nat \<Rightarrow> async_read_rx \<Rightarrow> (poll \<times> async_read_rx) res" where
  "poll_read remaining s =
     (case use_buffer remaining s of
        Inl p \<Rightarrow> Inl p
      | Inr (chunk, s') \<Rightarrow>
          if chunk \<noteq> [] then Inr (Ready chunk, s')
          else (case ar_rx s' of
              m # ms \<Rightarrow> poll_read remaining (s'\<lparr>ar_rx := ms, ar_buffer := Some m, ar_offset := 0\<rparr>)
            | [] \<Rightarrow> Inr (if ar_closed s' then Ready [] else Pending, s')))"
  by pat_completeness auto

lemma use_buffer_rx: "use_buffer n s = Inr (c, s') \<Longrightarrow> ar_rx s' = ar_rx s"
  by (auto simp: use_buffer_def Let_def elim!: res_bind_InrE split: option.splits if_splits)

termination poll_read
  by (relation "measure (\<lambda>(_, s). length (ar_rx s))") (auto dest!: use_buffer_rx)

declare poll_read.simps [simp del]

section \<open>What the reader delivers\<close>

text \<open>The bytes that are still to be read.\<close>

definition to_come :: "async_read_rx \<Rightarrow> bytes" where
  "to_come s = (case ar_buffer s of None \<Rightarrow> [] | Some b \<Rightarrow> drop (ar_offset s) b) @ concat (ar_rx s)"

definition ar_ok :: "async_read_rx \<Rightarrow> bool" where
  "ar_ok s \<longleftrightarrow> (case ar_buffer s of None \<Rightarrow> True | Some b \<Rightarrow> ar_offset s \<le> length b)"

lemma use_buffer_ok:
  assumes "ar_ok s" "0 < n"
  shows "\<exists>c s'. use_buffer n s = Inr (c, s') \<and> to_come s = c @ to_come s' \<and> length c \<le> n \<and> ar_ok s' \<and>
    ar_closed s' = ar_closed s \<and> (c = [] \<longrightarrow> ar_buffer s' = None)"
proof (cases "ar_buffer s")
  case (Some b)
  let ?o = "ar_offset s" and ?k = "min (length b - ar_offset s) n"
  have o: "?o \<le> length b" using assms(1) Some by (simp add: ar_ok_def)
  have sl: "slice_of b ?o (?o + ?k) = Inr (take ?k (drop ?o b))" using o by (auto simp: slice_of_def min_def)
  have split: "drop ?o b = take ?k (drop ?o b) @ drop (?o + ?k) b"
    by (metis add.commute append_take_drop_id drop_drop)
  have "take ?k (drop ?o b) = [] \<Longrightarrow> length b \<le> ?o + ?k" using assms(2) o by auto
  then show ?thesis
    using o split Some sl
    by (auto simp: use_buffer_def Let_def to_come_def ar_ok_def simp del: take_eq_Nil)
qed (simp add: use_buffer_def to_come_def ar_ok_def)

lemma poll_read_ok:
  assumes "ar_ok s" "0 < n"
  shows "\<exists>r s'. poll_read n s = Inr (r, s') \<and> ar_ok s' \<and> ar_closed s' = ar_closed s \<and>
    (case r of
       Ready c \<Rightarrow> to_come s = c @ to_come s' \<and> length c \<le> n \<and> (c = [] \<longrightarrow> to_come s = [] \<and> ar_closed s)
     | Pending \<Rightarrow> to_come s = [] \<and> to_come s' = [] \<and> \<not> ar_closed s)"
  using assms(1)
proof (induction "length (ar_rx s)" arbitrary: s rule: less_induct)
  case less
  obtain c t where u: "use_buffer n s = Inr (c, t)" "to_come s = c @ to_come t" "length c \<le> n" "ar_ok t"
    "ar_closed t = ar_closed s" "c = [] \<longrightarrow> ar_buffer t = None"
    using use_buffer_ok[OF less.prems assms(2)] by blast
  show ?case
  proof (cases "c = []")
    case False
    then show ?thesis using u by (subst poll_read.simps) simp
  next
    case True
    show ?thesis
    proof (cases "ar_rx t")
      case Nil
      then show ?thesis using u True by (subst poll_read.simps) (simp add: to_come_def)
    next
      case (Cons m ms)
      let ?t = "t\<lparr>ar_rx := ms, ar_buffer := Some m, ar_offset := 0\<rparr>"
      have "length (ar_rx ?t) < length (ar_rx s)" by (simp add: use_buffer_rx[OF u(1), symmetric] Cons)
      moreover have "ar_ok ?t" by (simp add: ar_ok_def)
      ultimately obtain r s' where r: "poll_read n ?t = Inr (r, s')" "ar_ok s'" "ar_closed s' = ar_closed ?t"
        "case r of Ready c \<Rightarrow> to_come ?t = c @ to_come s' \<and> length c \<le> n \<and> (c = [] \<longrightarrow> to_come ?t = [] \<and> ar_closed ?t)
         | Pending \<Rightarrow> to_come ?t = [] \<and> to_come s' = [] \<and> \<not> ar_closed ?t"
        using less.hyps by blast
      have "to_come ?t = to_come s" using u(2,6) True Cons by (simp add: to_come_def)
      moreover have "poll_read n s = poll_read n ?t" by (subst poll_read.simps) (simp add: u(1) True Cons)
      ultimately show ?thesis using r u(5) by (cases r) auto
    qed
  qed
qed

text \<open>
  C39. The reader of a reply delivers its bytes in order, without loss or repetition, however small
  the reads are: a read that is not empty takes bytes from the front of what is to come, at most as many as there is
  room for; it reports the end only when all was read and the chat is over, and waits only
  when all was read and it is not. It always returns, and never panics.
\<close>

theorem reader_delivers_in_order:
  assumes "ar_ok s" "0 < n"
  shows "\<exists>r s'. poll_read n s = Inr (r, s') \<and> ar_ok s' \<and>
    (case r of
       Ready c \<Rightarrow> to_come s = c @ to_come s' \<and> length c \<le> n \<and> (c = [] \<longrightarrow> to_come s = [] \<and> ar_closed s)
     | Pending \<Rightarrow> to_come s = [] \<and> to_come s' = [] \<and> \<not> ar_closed s)"
  using poll_read_ok[OF assms] by blast

definition demo_rx :: async_read_rx where
  "demo_rx = ar_new\<lparr>ar_rx := [[], [104, 105], [33]]\<rparr>"

theorem reader_delivers_in_order_witness:
  "\<exists>r s'. poll_read 1 demo_rx = Inr (r, s') \<and> ar_ok s' \<and> r \<noteq> Pending"
proof -
  have "ar_ok demo_rx" "to_come demo_rx \<noteq> []" by (simp_all add: demo_rx_def ar_new_def ar_ok_def to_come_def)
  then show ?thesis using reader_delivers_in_order[of demo_rx 1] by (fastforce split: poll.splits)
qed

text \<open>A read with no room throws away what is left of the current message when another one waits.\<close>

lemma empty_read_loses_data:
  "poll_read 0 (ar_new\<lparr>ar_rx := [[33]], ar_buffer := Some [104, 105]\<rparr>) =
     Inr (Pending, ar_new\<lparr>ar_buffer := Some [33]\<rparr>)"
  by (subst poll_read.simps)
    (simp add: poll_read.simps use_buffer_def ar_new_def slice_of_def)

section \<open>The store\<close>

text \<open>
  A model that was added is found under its name until it is removed or replaced, requests reach
  the model they name and no other, and a request for an unknown model is refused without a trace.
\<close>

lemma store_routes_requests:
  shows "store_model (add_model tx m s) i = (if i = model_id m then Some m else store_model s i)"
    and "store_model (remove_model i s) j = (if j = i then None else store_model s j)"
    and "fst (send_model req s) = None \<Longrightarrow> snd (send_model req s) = s"
    and "store_model s (cr_model (cs_req req)) = None \<Longrightarrow> fst (send_model req s) = None"
    and "fst (send_model req s) = Some () \<Longrightarrow> hm_get s (cr_model (cs_req req)) = Some e \<Longrightarrow>
      hm_get (snd (send_model req s)) i = (if i = cr_model (cs_req req) then Some (e\<lparr>mse_queue := mse_queue e @ [req]\<rparr>) else hm_get s i)"
  by (auto simp: store_model_def add_model_def remove_model_def send_model_def hm_get_insert hm_get_remove split: option.splits if_splits)

end
