(* ===== verification/Llama_Chat.thy ===== *)
theory Llama_Chat
  imports Llama_Layers Logits_Processor Chat Openai_Http
begin

text \<open>
  The chat of a Llama model: \<^verbatim>\<open>crates/models/src/llama/mod.rs\<close>, with the first and the last
  part of the model (\<open>LlamaPre\<close>, \<open>LlamaPost\<close> of
  \<^verbatim>\<open>crates/models/src/llama/internal/mod.rs\<close>). The loop over \<open>0..max_len\<close> is recursion on
  the list of its indices; downloading the model files is not modelled.
\<close>

section \<open>The ends of the model\<close>

definition pre_forward :: "('t, 'w) candle \<Rightarrow> 'w \<Rightarrow> 't \<Rightarrow> ('t \<times> usize) cres" where
  "pre_forward T wte x =
     cres_bind (dims2 T x) (\<lambda>(_, seq_len). cres_bind (c_embedding T wte x) (\<lambda>t. Inr (t, seq_len)))"

definition pre_load :: "'w var_builder \<Rightarrow> config \<Rightarrow> 'w cres" where
  "pre_load V cfg = vb_embedding V (vocab_size cfg) (hidden_size cfg) [''model.embed_tokens'']"

record 'w llama_post =
  ln_f :: 'w
  lm_head :: 'w

definition post_forward :: "('t, 'w) candle \<Rightarrow> 'w llama_post \<Rightarrow> 't \<Rightarrow> usize \<Rightarrow> 't cres" where
  "post_forward T P x seq_len =
     cres_bind (c_rms_norm T (ln_f P) x) (\<lambda>x.
     cres_bind (c_index_mid T x (seq_len - 1)) (\<lambda>x.
     cres_bind (c_contiguous T x) (\<lambda>x.
     cres_bind (c_linear T (lm_head P) x) (\<lambda>logits.
     c_to_dtype T logits DT_F32))))"

definition post_load :: "'w var_builder \<Rightarrow> config \<Rightarrow> 'w llama_post cres" where
  "post_load V cfg =
     cres_bind (if tie_word_embeddings cfg
        then cres_bind (vb_embedding V (vocab_size cfg) (hidden_size cfg) [''model.embed_tokens'']) (\<lambda>wte. Inr (vb_linear_of_embedding V wte))
        else vb_linear V (hidden_size cfg) (vocab_size cfg) [''lm_head'']) (\<lambda>head.
     cres_bind (vb_rms_norm V (hidden_size cfg) (rms_norm_eps cfg) [''model.norm'']) (\<lambda>ln.
     Inr \<lparr>ln_f = ln, lm_head = head\<rparr>))"

section \<open>The prompt\<close>

definition llama_header :: "string \<Rightarrow> ustr" where
  "llama_header role = ustr_of (''<|start_header_id|>'' @ role @ ''<|end_header_id|>'')"

definition llama_turn :: "string \<Rightarrow> ustr \<Rightarrow> ustr" where
  "llama_turn role c = llama_header role @ ustr_of [CHR 0x0A] @ c @ ustr_of ''<|eot_id|>''"

definition llama_message :: "message \<Rightarrow> ustr" where
  "llama_message m = concat (map (\<lambda>c.
     if msg_role m \<in> {''system'', ''user'', ''assistant''} then llama_turn (msg_role m) c else []) (contents (msg_content m)))"

definition llama_build_prompt :: "chat_completion_request \<Rightarrow> ustr" where
  "llama_build_prompt req = ustr_of ''<|begin_of_text|>'' @ concat (map llama_message (cr_messages req)) @ llama_header ''assistant''"

section \<open>The chat\<close>

record ('t, 'w, 'g) llama_model =
  lm_candle :: "('t, 'w) candle"
  lm_sampler :: "'g sampler"
  lm_tokenizer :: tokenizer
  lm_pre :: 'w
  lm_post :: "'w llama_post"
  lm_config :: config

definition EOS_TOKEN :: string where
  "EOS_TOKEN = ''</s>''"

definition eos_of :: "('t, 'w, 'g) llama_model \<Rightarrow> llama_eos_toks option" where
  "eos_of M = (case eos_token_id (lm_config M) of
       Some e \<Rightarrow> Some e | None \<Rightarrow> map_option Single (tk_token_to_id (lm_tokenizer M) EOS_TOKEN))"

fun is_eos :: "llama_eos_toks option \<Rightarrow> u32 \<Rightarrow> bool" where
  "is_eos None t \<longleftrightarrow> False"
| "is_eos (Some (Single e)) t \<longleftrightarrow> t = e"
| "is_eos (Some (Multiple es)) t \<longleftrightarrow> t \<in> set es"

definition penalized :: "('t, 'w) candle \<Rightarrow> chat_cfg \<Rightarrow> u32 list \<Rightarrow> 't \<Rightarrow> 't cres" where
  "penalized T cfg tokens logits =
     (if f32_eq (c_fp T) (repeat_penalty cfg) f32_one then Inr logits
      else apply_repeat_penalty T logits (repeat_penalty cfg) (drop (length tokens - unat (repeat_last_n cfg)) tokens))"

fun llama_loop ::
  "('t, 'w, 'g) llama_model \<Rightarrow> ('t, 'l) layers_ops \<Rightarrow> session \<Rightarrow> chat_cfg \<Rightarrow> nat list \<Rightarrow>
    u32 list \<Rightarrow> token_output_stream \<Rightarrow> 'g logits_processor \<Rightarrow> u32 \<Rightarrow> ('l, token_output_stream) chat_op" where
  "llama_loop M ops session cfg [] tokens tos lp index_pos = ret tos"
| "llama_loop M ops session cfg (index # is) tokens tos lp index_pos =
     (let (context_size, context_index) = (if USE_KV_CACHE \<and> index > 0 then (1, index_pos) else (length tokens, 0));
          ctxt = drop (length tokens - context_size) tokens
      in try_op (cres_bind (c_new_u32s (lm_candle M) ctxt) (\<lambda>x. c_unsqueeze (lm_candle M) x 0)) (\<lambda>input.
      try_op (pre_forward (lm_candle M) (lm_pre M) input) (\<lambda>(input, seq_len).
      bind_op (on_layers (lw_forward ops session 0 (input, ucast seq_len) context_index)) (\<lambda>(logits, _).
      try_op (cres_bind (post_forward (lm_candle M) (lm_post M) logits seq_len) (\<lambda>l. c_squeeze (lm_candle M) l 0)) (\<lambda>logits.
      try_op (penalized (lm_candle M) cfg tokens logits) (\<lambda>logits.
      bind_op (run_local (lp_sample (lm_candle M) (lm_sampler M) logits) lp) (\<lambda>(next, lp).
      if is_eos (eos_of M) next then ret tos
      else bind_op (run_local (next_token (lm_tokenizer M) next) tos) (\<lambda>(t, tos).
        case t of
          None \<Rightarrow> llama_loop M ops session cfg is (tokens @ [next]) tos lp (index_pos + word_of_nat (length ctxt))
        | Some t \<Rightarrow> send_op t (\<lambda>ok.
            if ok then llama_loop M ops session cfg is (tokens @ [next]) tos lp (index_pos + word_of_nat (length ctxt))
            else ret tos)))))))))"

text \<open>The flush at the end unwraps; a receiver that is gone is only logged.\<close>

definition flush_rest :: "tokenizer \<Rightarrow> token_output_stream \<Rightarrow> ('l, unit) chat_op" where
  "flush_rest K tos =
     need_op (case decode_rest K tos of
         Inl p \<Rightarrow> Inl p | Inr (Inl _, _) \<Rightarrow> Inl UnwrapOnErr | Inr (Inr rest, _) \<Rightarrow> Inr rest) (\<lambda>rest.
     case rest of None \<Rightarrow> ret () | Some r \<Rightarrow> send_op r (\<lambda>_. ret ()))"

definition llama_talk ::
  "('t, 'w, 'g) llama_model \<Rightarrow> ('t, 'l) layers_ops \<Rightarrow> session \<Rightarrow> chat_cfg \<Rightarrow> u32 list \<Rightarrow> ('l, unit) chat_op" where
  "llama_talk M ops session cfg tokens =
     bind_op (llama_loop M ops session cfg [0 ..< unat (max_len cfg)] tokens tos_new
        (from_sampling (lm_sampler M) (seed cfg) (sampling_of (c_fp (lm_candle M)) cfg)) 0) (\<lambda>tos.
     flush_rest (lm_tokenizer M) tos)"

definition llama_chat ::
  "('t, 'w, 'g) llama_model \<Rightarrow> ('t, 'l) layers_ops \<Rightarrow> session \<Rightarrow> chat_cfg \<Rightarrow> ustr \<Rightarrow> ('l, unit) chat_op" where
  "llama_chat M ops session cfg prompt =
     need_op (case tk_encode (lm_tokenizer M) prompt of Inl _ \<Rightarrow> Inl UnwrapOnErr | Inr ts \<Rightarrow> Inr ts) (\<lambda>tokens.
     bind_op (on_layers (lw_start ops session cfg)) (\<lambda>_.
     bind_op (llama_talk M ops session cfg tokens) (\<lambda>_.
     layers_finish ops session)))"

section \<open>A chat on any worker is the chat on the model\<close>

lemma flush_sim: "chat_sim I I (flush_rest K tos) (flush_rest K tos)"
  unfolding flush_rest_def by (intro sim_intros)

lemma llama_loop_sim:
  assumes "layers_refine P I ops1 s1 ops2 s2"
  shows "chat_sim I I (llama_loop M ops1 s1 cfg is tokens tos lp pos) (llama_loop M ops2 s2 cfg is tokens tos lp pos)"
proof (induction "is" arbitrary: tokens tos lp pos)
  case (Cons i "is")
  show ?case unfolding llama_loop.simps Let_def by (intro sim_intros Cons.IH refine_forward[OF assms])
qed (auto intro: sim_intros)

lemma llama_chat_sim:
  assumes "layers_refine P I ops1 s1 ops2 s2"
  shows "chat_sim P (\<lambda>_ _. True) (llama_chat M ops1 s1 cfg prompt) (llama_chat M ops2 s2 cfg prompt)"
  unfolding llama_chat_def llama_talk_def
  by (intro sim_need refine_chat[OF assms] sim_bind_same llama_loop_sim[OF assms] flush_sim)

end
