(* ===== verification/Phi3_Chat.thy ===== *)
theory Phi3_Chat
  imports Phi3_Layers Llama_Chat
begin

text \<open>
  The chat of the Phi-3 model: \<^verbatim>\<open>crates/models/src/phi3/mod.rs\<close>, with the first and the last
  part of the model (\<^verbatim>\<open>phi3/preprocessing.rs\<close>, \<^verbatim>\<open>phi3/postprocessing.rs\<close>). The prompt is
  fed token by token, so every step has one token.
\<close>

section \<open>The ends of the model\<close>

definition phi3_pre_new :: "('t, 'w) gguf \<Rightarrow> 'w cres" where
  "phi3_pre_new G =
     cres_bind (g_u32 G ''phi3.embedding_length'') (\<lambda>n. g_embedding G ''token_embd.weight'' (ucast n))"

definition phi3_pre_forward :: "('t, 'w) candle \<Rightarrow> 'w \<Rightarrow> 't \<Rightarrow> ('t \<times> u32) cres" where
  "phi3_pre_forward T w xs =
     cres_bind (dims2 T xs) (\<lambda>(_, seq_len). cres_bind (c_embedding T w xs) (\<lambda>e. Inr (e, ucast seq_len)))"

record 'w phi3_post =
  po_output :: 'w
  output_norm :: 'w

definition phi3_post_new :: "('t, 'w) gguf \<Rightarrow> 'w phi3_post cres" where
  "phi3_post_new G =
     cres_bind (g_f32 G ''phi3.attention.layer_norm_rms_epsilon'') (\<lambda>eps.
     cres_bind (g_rms_norm G ''output_norm.weight'' (g_f64_of_f32 G eps)) (\<lambda>nrm.
     cres_bind (g_qlinear G ''output'') (\<lambda>out. Inr \<lparr>po_output = out, output_norm = nrm\<rparr>)))"

definition phi3_post_forward :: "('t, 'w) candle \<Rightarrow> 'w phi3_post \<Rightarrow> 't \<times> u32 \<Rightarrow> 't cres" where
  "phi3_post_forward T P = (\<lambda>(xs, seq_len).
     cres_bind (c_rms_norm T (output_norm P) xs) (\<lambda>xs.
     cres_bind (c_index_mid T xs (ucast seq_len - 1)) (\<lambda>xs.
     c_linear T (po_output P) xs)))"

section \<open>The prompt\<close>

definition phi3_turn :: "string \<Rightarrow> ustr \<Rightarrow> ustr" where
  "phi3_turn role c = ustr_of (''<|'' @ role @ ''|>'' @ [CHR 0x0A]) @ c @ ustr_of ''<|end|>''"

definition phi3_message :: "message \<Rightarrow> ustr" where
  "phi3_message m = concat (map (\<lambda>c.
     if msg_role m \<in> {''system'', ''user'', ''assistant''} then phi3_turn (msg_role m) c else []) (contents (msg_content m)))"

definition phi3_build_prompt :: "chat_completion_request \<Rightarrow> ustr" where
  "phi3_build_prompt req = concat (map phi3_message (cr_messages req)) @ ustr_of (''<|assistant|>'' @ [CHR 0x0A])"

section \<open>The chat\<close>

record ('t, 'w, 'g) phi3_model =
  pm_candle :: "('t, 'w) candle"
  pm_sampler :: "'g sampler"
  pm_tokenizer :: tokenizer
  pm_pre :: 'w
  pm_post :: "'w phi3_post"

text \<open>One token through the model: its logits.\<close>

definition phi3_logits ::
  "('t, 'w, 'g) phi3_model \<Rightarrow> ('t, 'l) layers_ops \<Rightarrow> session \<Rightarrow> u32 \<Rightarrow> u32 \<Rightarrow> u32 \<Rightarrow> ('l, 't) chat_op" where
  "phi3_logits M ops session token step pos =
     try_op (cres_bind (c_new_u32s (pm_candle M) [token]) (\<lambda>x. c_unsqueeze (pm_candle M) x 0)) (\<lambda>input.
     try_op (phi3_pre_forward (pm_candle M) (pm_pre M) input) (\<lambda>step1.
     bind_op (on_layers (lw_forward ops session step step1 pos)) (\<lambda>step2.
     try_op (phi3_post_forward (pm_candle M) (pm_post M) step2) (\<lambda>logits.
     try_op (c_squeeze (pm_candle M) logits 0) ret))))"

fun phi3_prompt ::
  "('t, 'w, 'g) phi3_model \<Rightarrow> ('t, 'l) layers_ops \<Rightarrow> session \<Rightarrow> u32 list \<Rightarrow> nat \<Rightarrow> u32 \<Rightarrow> 'g logits_processor \<Rightarrow>
    ('l, u32 \<times> 'g logits_processor) chat_op" where
  "phi3_prompt M ops session [] pos next lp = ret (next, lp)"
| "phi3_prompt M ops session (token # ts) pos next lp =
     bind_op (phi3_logits M ops session token 0 (word_of_nat pos)) (\<lambda>logits.
     bind_op (run_local (lp_sample (pm_candle M) (pm_sampler M) logits) lp) (\<lambda>(next, lp).
     phi3_prompt M ops session ts (Suc pos) next lp))"

fun phi3_loop ::
  "('t, 'w, 'g) phi3_model \<Rightarrow> ('t, 'l) layers_ops \<Rightarrow> session \<Rightarrow> chat_cfg \<Rightarrow> u32 \<Rightarrow> u32 \<Rightarrow> nat list \<Rightarrow>
    u32 \<Rightarrow> u32 list \<Rightarrow> token_output_stream \<Rightarrow> 'g logits_processor \<Rightarrow> ('l, token_output_stream) chat_op" where
  "phi3_loop M ops session cfg eos plen [] next all_tokens tos lp = ret tos"
| "phi3_loop M ops session cfg eos plen (index # is) next all_tokens tos lp =
     bind_op (phi3_logits M ops session next (word_of_nat index + 1) (plen + word_of_nat index)) (\<lambda>logits.
     try_op (penalized (pm_candle M) cfg all_tokens logits) (\<lambda>logits.
     bind_op (run_local (lp_sample (pm_candle M) (pm_sampler M) logits) lp) (\<lambda>(next, lp).
     bind_op (run_local (next_token (pm_tokenizer M) next) tos) (\<lambda>(t, tos).
     let go_on = (if next = eos then ret tos else phi3_loop M ops session cfg eos plen is next (all_tokens @ [next]) tos lp)
     in case t of
          None \<Rightarrow> go_on
        | Some t \<Rightarrow> send_op t (\<lambda>ok. if ok then go_on else ret tos)))))"

definition phi3_rest :: "tokenizer \<Rightarrow> token_output_stream \<Rightarrow> ('l, unit) chat_op" where
  "phi3_rest K tos = bind_op (run_local (decode_rest K) tos) (\<lambda>(rest, _).
     case rest of None \<Rightarrow> ret () | Some r \<Rightarrow> send_op r (\<lambda>_. ret ()))"

definition phi3_talk ::
  "('t, 'w, 'g) phi3_model \<Rightarrow> ('t, 'l) layers_ops \<Rightarrow> session \<Rightarrow> chat_cfg \<Rightarrow> u32 list \<Rightarrow> ('l, unit) chat_op" where
  "phi3_talk M ops session cfg tokens =
     bind_op (phi3_prompt M ops session tokens 0 0
        (from_sampling (pm_sampler M) (seed cfg) (sampling_of (c_fp (pm_candle M)) cfg))) (\<lambda>(next, lp).
     bind_op (run_local (next_token (pm_tokenizer M) next) tos_new) (\<lambda>(t, tos).
     let rest = need_op (unwrap_option UnwrapOnNone (tk_token_to_id (pm_tokenizer M) ''<|endoftext|>'')) (\<lambda>eos.
           bind_op (phi3_loop M ops session cfg eos (word_of_nat (length tokens))
               [0 ..< unat (max_len cfg - word_of_nat (length tokens))] next [next] tos lp) (\<lambda>tos.
           phi3_rest (pm_tokenizer M) tos))
     in case t of
          None \<Rightarrow> rest
        | Some t \<Rightarrow> send_op t (\<lambda>ok. if ok then rest else need_op (Inl UnwrapOnErr) ret)))"

definition phi3_chat ::
  "('t, 'w, 'g) phi3_model \<Rightarrow> ('t, 'l) layers_ops \<Rightarrow> session \<Rightarrow> chat_cfg \<Rightarrow> ustr \<Rightarrow> ('l, unit) chat_op" where
  "phi3_chat M ops session cfg prompt =
     need_op (case tk_encode (pm_tokenizer M) prompt of Inl _ \<Rightarrow> Inl UnwrapOnErr | Inr ts \<Rightarrow> Inr ts) (\<lambda>tokens.
     bind_op (on_layers (lw_start ops session cfg)) (\<lambda>_.
     bind_op (phi3_talk M ops session cfg tokens) (\<lambda>_.
     layers_finish ops session)))"

section \<open>A chat on any worker is the chat on the model\<close>

lemma phi3_logits_sim:
  assumes "layers_refine P I ops1 s1 ops2 s2"
  shows "chat_sim I I (phi3_logits M ops1 s1 t st pos) (phi3_logits M ops2 s2 t st pos)"
  unfolding phi3_logits_def by (intro sim_intros refine_forward[OF assms])

lemma phi3_prompt_sim:
  assumes "layers_refine P I ops1 s1 ops2 s2"
  shows "chat_sim I I (phi3_prompt M ops1 s1 ts pos next lp) (phi3_prompt M ops2 s2 ts pos next lp)"
proof (induction ts arbitrary: pos "next" lp)
  case (Cons t ts)
  show ?case unfolding phi3_prompt.simps by (intro sim_intros Cons.IH phi3_logits_sim[OF assms])
qed (auto intro: sim_intros)

lemma phi3_loop_sim:
  assumes "layers_refine P I ops1 s1 ops2 s2"
  shows "chat_sim I I (phi3_loop M ops1 s1 cfg eos plen is next all tos lp) (phi3_loop M ops2 s2 cfg eos plen is next all tos lp)"
proof (induction "is" arbitrary: "next" all tos lp)
  case (Cons i "is")
  show ?case unfolding phi3_loop.simps Let_def by (intro sim_intros Cons.IH phi3_logits_sim[OF assms])
qed (auto intro: sim_intros)

lemma phi3_chat_sim:
  assumes "layers_refine P I ops1 s1 ops2 s2"
  shows "chat_sim P (\<lambda>_ _. True) (phi3_chat M ops1 s1 cfg prompt) (phi3_chat M ops2 s2 cfg prompt)"
  unfolding phi3_chat_def phi3_talk_def phi3_rest_def Let_def
  by (intro sim_need refine_chat[OF assms] sim_intros phi3_prompt_sim[OF assms] phi3_loop_sim[OF assms])

text \<open>When the prompt is longer than the limit, the number of tokens to generate wraps around.\<close>

lemma phi3_limit_wraps:
  assumes "unat (max_len cfg) < n" "n < 2 ^ 32"
  shows "unat (max_len cfg - word_of_nat n) = 2 ^ 32 - (n - unat (max_len cfg))"
  using assms by (simp add: unat_sub_if' unat_u32_of_nat)

end
