(* ===== verification/Distributed_Chat.thy ===== *)
theory Distributed_Chat
  imports Virtual_Layers Phi3_Chat
begin

text \<open>
  The whole of inference: a chat on a chain of nodes, each with its own part of the layers, is
  the chat on one machine with all of them. The theorems combine the chain of handlers
  (\<open>Virtual_Layers\<close>), the workers of the models (\<open>Llama_Layers\<close>, \<open>Phi3_Layers\<close>) and the
  chats (\<open>Llama_Chat\<close>, \<open>Phi3_Chat\<close>) through their contracts.
\<close>

section \<open>One step\<close>



section \<open>Whole chats\<close>



end
