(* ===== verification/Local_Models.thy ===== *)
theory Local_Models
  imports Phi3_Chat
begin

text \<open>
  The programs of \<^verbatim>\<open>crates/models/examples\<close>, \<^verbatim>\<open>llama_local.rs\<close> and \<^verbatim>\<open>phi3_local.rs\<close>: a chat on
  one machine whose layers are reached through the wire format of tensors, as on a network.
  Both have the same \<open>VirtualRemoteLayersWorker\<close> around the worker of their model; it is
  \<open>wired_ops\<close>. It keeps the contract of the worker it wraps, so the chats of the examples
  are chats of the models.
\<close>

section \<open>The wired worker\<close>

text \<open>A tensor to bytes and back: a panic when the bytes do not decode, an error when they are no tensor.\<close>

definition through_wire :: "'t tensor_env \<Rightarrow> 't \<Rightarrow> (string + 't) res" where
  "through_wire te t =
     res_bind (tensor_encode te t) (\<lambda>buf.
     res_bind (unwrap_option UnwrapOnErr (tensor_buf_try_from te buf)) (\<lambda>tb.
     Inr (case to_tensor te tb of None \<Rightarrow> Inl ''Tensor Error'' | Some t \<Rightarrow> Inr t)))"

definition wired_start :: "('t, 'l) layers_ops \<Rightarrow> session \<Rightarrow> chat_cfg \<Rightarrow> ('l, unit) op" where
  "wired_start ops session cfg l = lw_start ops session cfg l"

definition wired_forward :: "'t tensor_env \<Rightarrow> ('t, 'l) layers_ops \<Rightarrow> session \<Rightarrow> u32 \<Rightarrow> 't \<times> u32 \<Rightarrow> u32 \<Rightarrow> ('l, 't \<times> u32) op" where
  "wired_forward te ops session step = (\<lambda>(tensor, seq_len) index_pos l.
     res_bind (through_wire te tensor) (\<lambda>r. case r of
       Inl e \<Rightarrow> Inr (Inl e, l)
     | Inr tensor \<Rightarrow> res_bind (lw_forward ops session step (tensor, seq_len) index_pos l) (\<lambda>(r, l). case r of
           Inl e \<Rightarrow> Inr (Inl e, l)
         | Inr (res_tensor, _) \<Rightarrow> res_bind (through_wire te res_tensor) (\<lambda>r.
             Inr (map_sum id (\<lambda>t. (t, seq_len)) r, l)))))"

definition wired_finish :: "('t, 'l) layers_ops \<Rightarrow> session \<Rightarrow> 'l \<Rightarrow> 'l res" where
  "wired_finish ops session l = lw_finish ops session l"

definition wired_ops :: "'t tensor_env \<Rightarrow> ('t, 'l) layers_ops \<Rightarrow> ('t, 'l) layers_ops" where
  "wired_ops te ops = \<lparr>lw_start = wired_start ops, lw_forward = wired_forward te ops, lw_finish = wired_finish ops\<rparr>"

section \<open>The contract goes through the wire\<close>

lemma through_wire_id: "tensor_ok te \<Longrightarrow> through_wire te t = Inr (Inr t)"
  using tensor_encode_total[of te t]
  by (auto simp: through_wire_def tensor_decode_def unwrap_option_def elim!: res_bind_InrE split: option.splits)

context layers_worker
begin

lemma refines_reference:
  "layers_refine (\<lambda>l C. ok l) (\<lambda>l C. ok l \<and> (\<exists>C'. view l s = Some C' \<and> (\<forall>i \<in> set L. C' i = C i))) ops s (ideal_ops blk L init) s'"
  by (rule session.refines_ideal)

lemma wired: "layers_worker (wired_ops te ops) L blk init view (\<lambda>l. tensor_ok te \<and> ok l)"
proof (unfold_locales, goal_cases)
  case (1 l s cfg)
  then show ?case using start_view[of l s cfg] by (auto simp: wired_ops_def wired_start_def)
next
  case (2 l s C pos n x q D step)
  then obtain l' C' where f: "lw_forward ops s step (x, n) pos l = Inr (map_sum id (\<lambda>y. (y, n)) q, l')" "ok l'"
      "view l' s = Some C'" "\<forall>i \<in> set L. C' i = D i" "\<forall>s'. s' \<noteq> s \<longrightarrow> view l' s' = view l s'"
    using forward_view[of l s C pos n x q D step] by blast
  have "lw_forward (wired_ops te ops) s step (x, n) pos l = Inr (map_sum id (\<lambda>y. (y, n)) q, l')"
    using 2(1) f(1) by (cases q) (simp_all add: wired_ops_def wired_forward_def through_wire_id)
  then show ?case using f(2-5) 2(1) by blast
next
  case (3 l s)
  then show ?case using finish_view[of l s] by (auto simp: wired_ops_def wired_finish_def)
qed

end

interpretation wired_llama: layers_worker "wired_ops te (llama_ops T)" "[a ..< b]" "llama_blk T W cos sin" "\<lambda>_. None" "llama_view a"
  "\<lambda>l. tensor_ok te \<and> llama_ok T W cos sin a b l" for te T W cos sin a b
  by (rule llama.wired)

interpretation wired_phi3: layers_worker "wired_ops te (phi3_ops T KV)" "[a ..< b]" "phi3_blk T KV W" "\<lambda>_. kv_new KV dim mx"
  "phi3_view a b" "\<lambda>l. tensor_ok te \<and> phi3_ok T KV W dim mx a b l" for te T KV W dim mx a b
  by (rule phi3.wired)

section \<open>The examples\<close>

text \<open>What a program prints when its chat completes; it unwraps the result of the chat, and reads until the chat closes the channel.\<close>

definition printed :: "('l, unit) chat_op \<Rightarrow> 'l \<Rightarrow> ustr list res" where
  "printed chat l = (case chat (l, \<lparr>tx_sent = [], tx_limit = None\<rparr>) of
       Inl p \<Rightarrow> Inl p
     | Inr (Inl _, _) \<Rightarrow> Inl UnwrapOnErr
     | Inr (Inr _, (_, c)) \<Rightarrow> Inr (tx_sent c))"

definition llama_local ::
  "('t, 'w, 'd) llama_model \<Rightarrow> 't tensor_env \<Rightarrow> ('t, 'l) layers_ops \<Rightarrow> session \<Rightarrow> 'l \<Rightarrow> ustr list res" where
  "llama_local M te ops session = printed (llama_chat M (wired_ops te ops) session chat_cfg_default (ustr_of ''hello''))"

definition phi3_local ::
  "('t, 'w, 'd) phi3_model \<Rightarrow> 't tensor_env \<Rightarrow> ('t, 'l) layers_ops \<Rightarrow> session \<Rightarrow> 'l \<Rightarrow> ustr list res" where
  "phi3_local M te ops session =
     printed (phi3_chat M (wired_ops te ops) session chat_cfg_default (ustr_of ''Write function max(x1, x2) in Rust''))"

text \<open>The layers of the worker of the second example.\<close>

definition phi3_local_range :: u32_range where
  "phi3_local_range = mk_range 0 31"

text \<open>Chats that simulate each other print the same.\<close>

lemma sim_printed: "chat_sim P (\<lambda>_ _. True) m n \<Longrightarrow> P l C \<Longrightarrow> printed n C = Inr texts \<Longrightarrow> printed m l = Inr texts"
  unfolding chat_sim_def printed_def by (fastforce split: sum.splits prod.splits)

text \<open>So does a chat on two workers that are both simulated by, and simulate, a reference chat.\<close>

lemma printed_via:
  assumes "chat_sim (\<lambda>C l. ok1 l) (\<lambda>_ _. True) chat chat1" "chat_sim (\<lambda>l C. ok2 l) (\<lambda>_ _. True) chat2 chat"
    and "ok1 l1" "ok2 l2" "printed chat1 l1 = Inr texts"
  shows "printed chat2 l2 = Inr texts"
proof -
  have "printed chat C = Inr texts" for C by (rule sim_printed[OF assms(1)]) (use assms in simp_all)
  then show ?thesis using sim_printed[OF assms(2), of l2] assms(4) by blast
qed

lemma llama_printed:
  assumes "layers_worker ops1 L blk init view1 ok1" "layers_worker ops2 L blk init view2 ok2" "ok1 l1" "ok2 l2"
    and "printed (llama_chat M ops1 s1 cfg prompt) l1 = Inr texts"
  shows "printed (llama_chat M ops2 s2 cfg prompt) l2 = Inr texts"
  by (rule printed_via[OF llama_chat_sim[OF layers_worker.ideal_refines[OF assms(1)]]
        llama_chat_sim[OF layers_worker.refines_reference[OF assms(2)]] assms(3-5)])

lemma phi3_printed:
  assumes "layers_worker ops1 L blk init view1 ok1" "layers_worker ops2 L blk init view2 ok2" "ok1 l1" "ok2 l2"
    and "printed (phi3_chat M ops1 s1 cfg prompt) l1 = Inr texts"
  shows "printed (phi3_chat M ops2 s2 cfg prompt) l2 = Inr texts"
  by (rule printed_via[OF phi3_chat_sim[OF layers_worker.ideal_refines[OF assms(1)]]
        phi3_chat_sim[OF layers_worker.refines_reference[OF assms(2)]] assms(3-5)])

text \<open>
  C37. The examples print what their models say: going through the wire format in both directions changes
  neither the text nor whether the chat completes, for every session number and every two workers with the
  layers of the example, of a Llama model and of a Phi-3 model.
\<close>

theorem examples_print_chats:
  assumes te: "tensor_ok te" and n: "n = unat (rend phi3_local_range)"
    and llama: "llama_ok T W cos sin 0 N w" "llama_ok T W cos sin 0 N w'"
    and phi3: "phi3_ok U KV V dim mx 0 n v" "phi3_ok U KV V dim mx 0 n v'"
  shows "(llama_local M te (llama_ops T) s w = Inr texts \<longleftrightarrow>
      printed (llama_chat M (llama_ops T) s' chat_cfg_default (ustr_of ''hello'')) w' = Inr texts) \<and>
    (phi3_local P te (phi3_ops U KV) s v = Inr texts \<longleftrightarrow>
      printed (phi3_chat P (phi3_ops U KV) s' chat_cfg_default (ustr_of ''Write function max(x1, x2) in Rust'')) v' = Inr texts)"
proof (intro conjI iffI)
  assume "llama_local M te (llama_ops T) s w = Inr texts"
  then show "printed (llama_chat M (llama_ops T) s' chat_cfg_default (ustr_of ''hello'')) w' = Inr texts"
    unfolding llama_local_def by (rule llama_printed[OF wired_llama.layers_worker_axioms llama.layers_worker_axioms, rotated -1]) (use te llama in simp_all)
next
  assume "printed (llama_chat M (llama_ops T) s' chat_cfg_default (ustr_of ''hello'')) w' = Inr texts"
  then show "llama_local M te (llama_ops T) s w = Inr texts"
    unfolding llama_local_def by (rule llama_printed[OF llama.layers_worker_axioms wired_llama.layers_worker_axioms, rotated -1]) (use te llama in simp_all)
next
  assume "phi3_local P te (phi3_ops U KV) s v = Inr texts"
  then show "printed (phi3_chat P (phi3_ops U KV) s' chat_cfg_default (ustr_of ''Write function max(x1, x2) in Rust'')) v' = Inr texts"
    unfolding phi3_local_def by (rule phi3_printed[OF wired_phi3.layers_worker_axioms phi3.layers_worker_axioms, rotated -1]) (use te phi3 in simp_all)
next
  assume "printed (phi3_chat P (phi3_ops U KV) s' chat_cfg_default (ustr_of ''Write function max(x1, x2) in Rust'')) v' = Inr texts"
  then show "phi3_local P te (phi3_ops U KV) s v = Inr texts"
    unfolding phi3_local_def by (rule phi3_printed[OF phi3.layers_worker_axioms wired_phi3.layers_worker_axioms, rotated -1]) (use te phi3 in simp_all)
qed

text \<open>The range of the second example is half open: layer 31, the last of the model, is not in it.\<close>

lemma phi3_local_misses_last_layer: "31 \<notin> set (range_list phi3_local_range)"
  by (simp add: phi3_local_range_def range_list_def mk_range_def)

end
