(* ===== verification/Example_Network.thy ===== *)
theory Example_Network
  imports Distributed_Chat Local_Models
begin

text \<open>
  A network of two nodes with one layer each of a model of two layers, on the tensor library
  \<open>flat_candle\<close>: the theorems of \<open>Distributed_Chat\<close> and of \<open>Local_Models\<close> at work, for both models.
\<close>

section \<open>Tensors on the wire\<close>

definition flat_bytes :: "u32 list \<Rightarrow> bytes" where
  "flat_bytes v = un (length v) @ concat (map un (map unat v))"

definition bytes_flat :: "bytes \<Rightarrow> u32 list" where
  "bytes_flat b = (let (n, r) = read_un b; (v, _) = read_uns n r in map word_of_nat v)"

definition flat_env :: "flat tensor_env" where
  "flat_env = \<lparr>t_dims = fst, t_dtype = (\<lambda>_. DT_F32), write_bytes = (\<lambda>t. Some (flat_bytes (snd t))),
     from_raw_buffer = (\<lambda>b _ ds. Some (ds, bytes_flat b)), tb_serialize = vec_ser, tb_deserialize = vec_de\<rparr>"

lemma bytes_flat_inverse: "bytes_flat (flat_bytes v) = v"
proof -
  have "read_uns (length v) (concat (map un (map unat v)) @ []) = (map unat v, [])"
    using read_uns_uns[of "map unat v" "[]"] by (simp only: length_map)
  moreover have "map word_of_nat (map unat v) = v" by (simp add: comp_def)
  ultimately show ?thesis by (simp add: bytes_flat_def flat_bytes_def read_un_un del: map_map)
qed

lemma flat_env_ok: "tensor_ok flat_env"
  by (simp add: tensor_ok_def flat_env_def bytes_flat_inverse vec_roundtrip)

section \<open>A Llama model of two layers\<close>

definition ex_config :: config where
  "ex_config = (config_7b_v1 False)\<lparr>hidden_size := 1, num_hidden_layers := 2, num_attention_heads := 1, num_key_value_heads := 1,
     max_position_embeddings := 10\<rparr>"

definition ex_block :: "nat \<Rightarrow> unit block" where
  "ex_block i = \<lparr>rms_1 = (), attn = \<lparr>q_proj = (), k_proj = (), v_proj = (), o_proj = (), sa_heads = 1, sa_kv_heads = 1,
     sa_head_dim = 1, sa_use_flash_attn = False, sa_max_position_embeddings = 10\<rparr>, rms_2 = (), blk_mlp = \<lparr>c_fc1 = (), c_fc2 = (), c_proj = ()\<rparr>\<rparr>"

definition ex_rot :: flat where
  "ex_rot = ([10, 1], [])"

definition ex_worker :: "nat \<Rightarrow> nat \<Rightarrow> (flat, unit) llama_layers_worker" where
  "ex_worker a b = \<lparr>lw_caches = shm_new, lw_llama = map ex_block [a ..< b], lw_cfg = ex_config, lw_dtype = DT_F32\<rparr>"

lemma ex_config_sel [simp]:
  "num_hidden_layers ex_config = 2" "max_position_embeddings ex_config = 10"
  by (simp_all add: ex_config_def)

lemma ex_cache_new:
  "cache_new flat_candle USE_KV_CACHE DT_F32 ex_config () =
     Inr (Inr \<lparr>lc_masks = [], use_kv_cache = True, kvs = [None, None], cache_cos = ex_rot, cache_sin = ex_rot\<rparr>, ())"
proof -
  obtain fs where fs: "rope_freqs (c_fp flat_candle) ex_config = Inr fs"
    by (simp add: rope_freqs_def calculate_default_inv_freq_def usize_div_def ex_config_def config_7b_v1_def)
  have "replicate 2 None = [None, None]" by (simp add: numeral_2_eq_2)
  then show ?thesis
    unfolding cache_new_def fs by (simp add: op_defs flat_candle_def ex_rot_def USE_KV_CACHE_def)
qed

lemma ex_worker_ok: "b - a \<le> 2 \<Longrightarrow> llama_ok flat_candle ex_block ex_rot ex_rot a b (ex_worker a b)"
  by (auto simp: llama_ok_def flat_candle_ok attn_ok_def ex_block_def ex_worker_def shm_new_def get_clone_def ex_cache_new)

section \<open>The network\<close>

definition ex_node_env :: "node_id \<Rightarrow> (flat, (flat, unit) llama_layers_worker, unit) ms_env" where
  "ex_node_env n = \<lparr>e_layers = llama_ops flat_candle, e_usage = passthrough_ops, e_tensor = flat_env,
     e_codec = e_codec fake_env, e_tps = \<lambda>_ _. 0\<rparr>"

definition ex_range :: "node_id \<Rightarrow> nat \<times> nat" where
  "ex_range n = (if n = ''a'' then (0, 1) else (1, 2))"

definition ex_chain :: "(flat, (flat, unit) llama_layers_worker, unit, (flat \<times> flat) option) chain_env" where
  "ex_chain = \<lparr>c_envs = ex_node_env, c_blk = llama_blk flat_candle ex_block ex_rot ex_rot, c_init = \<lambda>_. None,
     c_view = \<lambda>n. llama_view (fst (ex_range n)),
     c_ok = \<lambda>n. llama_ok flat_candle ex_block ex_rot ex_rot (fst (ex_range n)) (snd (ex_range n)), c_tensor = flat_env\<rparr>"

definition ex_hops :: "hop list" where
  "ex_hops = [(''a'', 5, [0]), (''b'', 7, [1])]"

definition ex_net :: "((flat, unit) llama_layers_worker, unit) network" where
  "ex_net = [''a'' \<mapsto> ms_new (ex_worker 0 1) router_a (), ''b'' \<mapsto> ms_new (ex_worker 1 2) router_b ()]"

lemma router_layers [simp]: "model_layers router_a = 2" "model_layers router_b = 2"
  by (simp_all add: router_a_def router_b_def rt_new_def model_layers_def)

lemma ex_ready: "chain_ready ex_chain 2 ex_hops ex_net"
proof -
  have l: "layers_worker (llama_ops flat_candle) [0] (llama_blk flat_candle ex_block ex_rot ex_rot) (\<lambda>_. None) (llama_view 0) (llama_ok flat_candle ex_block ex_rot ex_rot 0 1)"
    "layers_worker (llama_ops flat_candle) [1] (llama_blk flat_candle ex_block ex_rot ex_rot) (\<lambda>_. None) (llama_view 1) (llama_ok flat_candle ex_block ex_rot ex_rot 1 2)"
    using llama.layers_worker_axioms[of flat_candle 0 1 ex_block ex_rot ex_rot] llama.layers_worker_axioms[of flat_candle 1 2 ex_block ex_rot ex_rot]
    by (simp_all add: numeral_2_eq_2)
  have nodes: "nodes_ok ex_chain ex_hops"
    using l by (simp add: nodes_ok_def ex_hops_def ex_chain_def ex_node_env_def ex_range_def flat_env_ok passthrough_accepting)
  have plan: "start_plan ex_net 2 0 ex_hops"
    by (simp add: start_plan.simps ex_net_def ex_hops_def ms_new_def range_list_def upt_rec)
  have ok: "workers_ok ex_chain ex_net ex_hops"
    using ex_worker_ok[of 1 0] ex_worker_ok[of 2 1]
    by (auto simp: workers_ok_def ex_chain_def ex_net_def ex_hops_def ex_range_def ms_new_def numeral_2_eq_2)
  show ?thesis using nodes plan ok by (simp add: chain_ready_def)
qed

section \<open>A chat\<close>

definition ex_model :: "(flat, unit, nat) llama_model" where
  "ex_model = \<lparr>lm_candle = flat_candle, lm_sampler = first_sampler, lm_tokenizer = demo_tokenizer, lm_pre = (),
     lm_post = \<lparr>ln_f = (), lm_head = ()\<rparr>, lm_config = ex_config\<rparr>"

text \<open>Greedy, without penalty, two tokens.\<close>

definition ex_cfg :: chat_cfg where
  "ex_cfg = chat_cfg_default\<lparr>temperature := 0, repeat_penalty := f32_one, max_len := 2\<rparr>"

definition ex_tx :: tx where
  "ex_tx = \<lparr>tx_sent = [], tx_limit = None\<rparr>"

lemma ex_eos: "eos_of ex_model = None"
  by (simp add: eos_of_def ex_model_def ex_config_def config_7b_v1_def demo_tokenizer_def)

lemma ex_rep: "f32_eq (c_fp flat_candle) (repeat_penalty ex_cfg) f32_one" "f64_le (c_fp flat_candle) (temperature ex_cfg) 0"
  "unat (max_len ex_cfg) = 2"
  by (simp_all add: ex_cfg_def flat_candle_def flat_floats_def)

lemma ex_local_chat_run:
  "(case llama_chat ex_model (llama_ops flat_candle) 3 ex_cfg [104] (ex_worker 0 2, ex_tx) of
      Inr (Inr _, (_, c)) \<Rightarrow> tx_sent c | _ \<Rightarrow> []) = [[32, 32]]"
  by code_simp

lemma ex_local_chat:
  "\<exists>w' c'. llama_chat ex_model (llama_ops flat_candle) 3 ex_cfg [104] (ex_worker 0 2, ex_tx) = Inr (Inr (), (w', c')) \<and> tx_sent c' = [[32, 32]]"
  using ex_local_chat_run by (auto split: sum.splits prod.splits)



text \<open>One token through both layers.\<close>

definition ex_input :: flat where
  "ex_input = ([1, 1, 1], [104])"

lemma ex_layers_run:
  "fst (run_layers (llama_blk flat_candle ex_block ex_rot ex_rot) [0 ..< 2] 0 1 ex_input (\<lambda>_. None)) = Inr ([1, 1, 1], [104])"
  by code_simp


section \<open>A Phi-3 model of two layers\<close>

definition list_kv :: "(flat, (flat \<times> flat) list) kv_ops" where
  "list_kv = \<lparr>kv_new = \<lambda>_ _. [], kv_append = \<lambda>k v c. Inr (Inr (k, v), c @ [(k, v)])\<rparr>"

definition ex_weights :: "nat \<Rightarrow> (flat, unit) layer_weights" where
  "ex_weights i = \<lparr>attn_qkv = (), attn_output = (), attn_norm = (), ffn_norm = (), lw_mlp = \<lparr>ffn_up = (), ffn_down = (), i_size = 1\<rparr>,
     n_head = 1, n_kv_head = 1, head_dim = 1, lw_cos = ex_rot, lw_sin = ex_rot, neg_inf = ex_rot, lw_use_flash_attn = False\<rparr>"

definition ph_worker :: "nat \<Rightarrow> nat \<Rightarrow> (flat, unit, (flat \<times> flat) list) phi3_layers_worker" where
  "ph_worker a b = \<lparr>ph_layers = map ex_weights [a ..< b], ph_caches = layers_cache_new (b - a) 2 10\<rparr>"

lemma ph_worker_ok: "a < b \<Longrightarrow> phi3_ok flat_candle list_kv ex_weights 2 10 a b (ph_worker a b)"
  by (simp add: phi3_ok_def weights_ok_def total_op_def ex_weights_def list_kv_def ph_worker_def layers_cache_new_def)

definition ph_chain :: "(flat, (flat, unit, (flat \<times> flat) list) phi3_layers_worker, unit, (flat \<times> flat) list) chain_env" where
  "ph_chain = \<lparr>c_envs = \<lambda>_. \<lparr>e_layers = phi3_ops flat_candle list_kv, e_usage = passthrough_ops, e_tensor = flat_env,
       e_codec = e_codec fake_env, e_tps = \<lambda>_ _. 0\<rparr>,
     c_blk = phi3_blk flat_candle list_kv ex_weights, c_init = \<lambda>_. kv_new list_kv 2 10,
     c_view = \<lambda>n. phi3_view (fst (ex_range n)) (snd (ex_range n)),
     c_ok = \<lambda>n. phi3_ok flat_candle list_kv ex_weights 2 10 (fst (ex_range n)) (snd (ex_range n)), c_tensor = flat_env\<rparr>"

definition ph_net :: "((flat, unit, (flat \<times> flat) list) phi3_layers_worker, unit) network" where
  "ph_net = [''a'' \<mapsto> ms_new (ph_worker 0 1) router_a (), ''b'' \<mapsto> ms_new (ph_worker 1 2) router_b ()]"

lemma ph_ready: "chain_ready ph_chain 2 ex_hops ph_net"
proof -
  have l: "layers_worker (phi3_ops flat_candle list_kv) [0] (phi3_blk flat_candle list_kv ex_weights) (\<lambda>_. kv_new list_kv 2 10) (phi3_view 0 1)
      (phi3_ok flat_candle list_kv ex_weights 2 10 0 1)"
    "layers_worker (phi3_ops flat_candle list_kv) [1] (phi3_blk flat_candle list_kv ex_weights) (\<lambda>_. kv_new list_kv 2 10) (phi3_view 1 2)
      (phi3_ok flat_candle list_kv ex_weights 2 10 1 2)"
    using phi3.layers_worker_axioms[of flat_candle list_kv 0 1 ex_weights 2 10] phi3.layers_worker_axioms[of flat_candle list_kv 1 2 ex_weights 2 10]
    by (simp_all add: numeral_2_eq_2)
  have nodes: "nodes_ok ph_chain ex_hops"
    using l by (simp add: nodes_ok_def ex_hops_def ph_chain_def ex_range_def flat_env_ok passthrough_accepting)
  have plan: "start_plan ph_net 2 0 ex_hops"
    by (simp add: start_plan.simps ph_net_def ex_hops_def ms_new_def range_list_def upt_rec)
  have ok: "workers_ok ph_chain ph_net ex_hops"
    using ph_worker_ok[of 0 1] ph_worker_ok[of 1 2]
    by (auto simp: workers_ok_def ph_chain_def ph_net_def ex_hops_def ex_range_def ms_new_def)
  show ?thesis using nodes plan ok by (simp add: chain_ready_def)
qed

definition ph_model :: "(flat, unit, nat) phi3_model" where
  "ph_model = \<lparr>pm_candle = flat_candle, pm_sampler = first_sampler, pm_tokenizer = demo_tokenizer\<lparr>tk_token_to_id := \<lambda>_. Some 2\<rparr>, pm_pre = (),
     pm_post = \<lparr>po_output = (), output_norm = ()\<rparr>\<rparr>"

lemma ph_local_chat_run:
  "(case phi3_chat ph_model (phi3_ops flat_candle list_kv) 3 ex_cfg [104] (ph_worker 0 2, ex_tx) of
      Inr (Inr _, (_, c)) \<Rightarrow> tx_sent c | _ \<Rightarrow> []) = [[32, 32]]"
  by code_simp

lemma ph_local_chat:
  "\<exists>w' c'. phi3_chat ph_model (phi3_ops flat_candle list_kv) 3 ex_cfg [104] (ph_worker 0 2, ex_tx) = Inr (Inr (), (w', c')) \<and> tx_sent c' = [[32, 32]]"
  using ph_local_chat_run by (auto split: sum.splits prod.splits)


text \<open>The two examples, on the same tensors.\<close>

theorem examples_print_chats_witness:
  "(llama_local ex_model flat_env (llama_ops flat_candle) 3 (ex_worker 0 2) = Inr [[32]] \<longleftrightarrow>
     printed (llama_chat ex_model (llama_ops flat_candle) 5 chat_cfg_default (ustr_of ''hello'')) (ex_worker 0 2) = Inr [[32]]) \<and>
   (phi3_local ph_model flat_env (phi3_ops flat_candle list_kv) 3 (ph_worker 0 31) = Inr [[32]] \<longleftrightarrow>
     printed (phi3_chat ph_model (phi3_ops flat_candle list_kv) 5 chat_cfg_default (ustr_of ''Write function max(x1, x2) in Rust'')) (ph_worker 0 31) = Inr [[32]])"
proof -
  have w: "llama_ok flat_candle ex_block ex_rot ex_rot 0 2 (ex_worker 0 2)" by (rule ex_worker_ok) simp
  have v: "phi3_ok flat_candle list_kv ex_weights 2 10 0 31 (ph_worker 0 31)" by (rule ph_worker_ok) simp
  have n: "31 = unat (rend phi3_local_range)" by (simp add: phi3_local_range_def mk_range_def)
  show ?thesis by (rule examples_print_chats[OF flat_env_ok n w w v v])
qed

end
