(* ===== verification/Remote_Conn.thy ===== *)
theory Remote_Conn
  imports Connection_Buffer Protocol
begin

text \<open>
  One peer connection: \<open>RemoteConn\<close> of \<^verbatim>\<open>crates/p2p-network/src/node/remote_conn.rs\<close>, the
  glue between the buffer of \<open>Connection_Buffer\<close> and the WebRTC engine of the \<open>str0m\<close> crate.

  The engine is not in the sources. It is the parameter record \<open>rtc_ops\<close> over a state \<open>'r\<close>,
  with one field for each call the code makes; \<open>None\<close> is the error of a fallible call. The
  clock that \<open>Instant::now()\<close> reads belongs to it too. \<open>settles\<close> states what its
  documentation asks of \<open>poll_output\<close>: after finitely many outputs it returns a timeout in the
  future, until the next input.

  The loops that poll the engine have fuel; \<open>NoAnswer\<close> says that it was used up. The
  theorem at the end shows that with a settling engine there is always enough.
\<close>

section \<open>The engine\<close>

type_synonym instant = nat
type_synonym channel_id = nat

datatype 'a rtc_input = InTimeout instant | InReceive instant 'a 'a bytes

datatype rtc_event =
    IceDisconnected
  | IceOtherState
  | ChannelOpen channel_id string
  | ChannelData bytes
  | ChannelClose channel_id
  | OtherEvent

datatype 'a rtc_output = OutTimeout instant | OutTransmit 'a 'a bytes | OutEvent rtc_event

record ('a, 'r, 'p) rtc_ops =
  rtc_buf :: buf_cfg
  rtc_now :: "'r \<Rightarrow> instant \<times> 'r"
  rtc_host :: "'a \<Rightarrow> 'r \<Rightarrow> 'r option"
  rtc_reflexive :: "'a \<Rightarrow> 'a \<Rightarrow> 'r \<Rightarrow> 'r option"
  rtc_offer :: "'r \<Rightarrow> (string \<times> 'p) option \<times> 'r"
  rtc_parse_offer :: "string \<Rightarrow> string option"
  rtc_accept_offer :: "string \<Rightarrow> 'r \<Rightarrow> string option \<times> 'r"
  rtc_parse_answer :: "string \<Rightarrow> string option"
  rtc_accept_answer :: "'p \<Rightarrow> string \<Rightarrow> 'r \<Rightarrow> unit option \<times> 'r"
  rtc_receive_ok :: "'a \<Rightarrow> 'a \<Rightarrow> bytes \<Rightarrow> bool"
  rtc_handle_input :: "'a rtc_input \<Rightarrow> 'r \<Rightarrow> unit option \<times> 'r"
  rtc_poll_output :: "'r \<Rightarrow> 'a rtc_output option \<times> 'r"
  rtc_write :: "channel_id \<Rightarrow> bytes \<Rightarrow> 'r \<Rightarrow> nat option option \<times> 'r"
  rtc_close_channel :: "channel_id \<Rightarrow> 'r \<Rightarrow> 'r"

section \<open>State and operations\<close>

datatype 'a remote_conn_out = Transmit 'a 'a bytes | Connected | Message bytes | Disconnected

record ('a, 'r, 'p) remote_conn =
  rem_remote :: node_id
  rem_rtc :: 'r
  rem_pending :: "'p option"
  rem_queue :: "'a remote_conn_out list"
  rem_channel :: "channel_id option"
  rem_timeout :: "instant option"
  rem_buffer :: connection_buffer

text \<open>The candidates of one local address and its mapped address.\<close>

definition add_candidates :: "('a, 'r, 'p) rtc_ops \<Rightarrow> 'a \<times> 'a option \<Rightarrow> 'r \<Rightarrow> 'r res" where
  "add_candidates E = (\<lambda>(addr, mapped_addr) r.
     res_bind (unwrap_option (ExpectFailed ''Should create candidate'') (rtc_host E addr r)) (\<lambda>r.
     case mapped_addr of
       None \<Rightarrow> Inr r
     | Some m \<Rightarrow> unwrap_option (ExpectFailed ''Should create candidate'') (rtc_reflexive E m addr r)))"

text \<open>\<open>r\<close> is the engine built with the new credentials; their user name is returned to the caller.\<close>

definition remote_conn_new ::
  "('a, 'r, 'p) rtc_ops \<Rightarrow> node_id \<Rightarrow> ('a \<times> 'a option) list \<Rightarrow> 'r \<Rightarrow> ('a, 'r, 'p) remote_conn res" where
  "remote_conn_new E remote local_addrs r =
     res_bind (res_foldM (add_candidates E) local_addrs r) (\<lambda>r.
     Inr \<lparr>rem_remote = remote, rem_rtc = r, rem_pending = None, rem_queue = [], rem_channel = None,
          rem_timeout = None, rem_buffer = cb_default\<rparr>)"

definition create_offer :: "('a, 'r, 'p) rtc_ops \<Rightarrow> ('a, 'r, 'p) remote_conn \<Rightarrow> (string \<times> ('a, 'r, 'p) remote_conn) res" where
  "create_offer E c = (case rtc_offer E (rem_rtc c) of
       (None, _) \<Rightarrow> Inl (ExpectFailed ''Should create offer'')
     | (Some (offer, pend), r) \<Rightarrow> Inr (offer, c\<lparr>rem_rtc := r, rem_pending := Some pend\<rparr>))"

definition accept_offer ::
  "('a, 'r, 'p) rtc_ops \<Rightarrow> string \<Rightarrow> ('a, 'r, 'p) remote_conn \<Rightarrow> string option \<times> ('a, 'r, 'p) remote_conn" where
  "accept_offer E offer c = (case rtc_parse_offer E offer of
       None \<Rightarrow> (None, c)
     | Some offer \<Rightarrow> (case rtc_accept_offer E offer (rem_rtc c) of (answer, r) \<Rightarrow> (answer, c\<lparr>rem_rtc := r\<rparr>)))"

definition conn_on_answer ::
  "('a, 'r, 'p) rtc_ops \<Rightarrow> string \<Rightarrow> ('a, 'r, 'p) remote_conn \<Rightarrow> unit option \<times> ('a, 'r, 'p) remote_conn" where
  "conn_on_answer E answer c = (case rtc_parse_answer E answer of
       None \<Rightarrow> (None, c)
     | Some answer \<Rightarrow> (case rem_pending c of
         None \<Rightarrow> (None, c)
       | Some pend \<Rightarrow>
           (case rtc_accept_answer E pend answer (rem_rtc c) of (ok, r) \<Rightarrow> (ok, c\<lparr>rem_pending := None, rem_rtc := r\<rparr>))))"

definition conn_on_tick ::
  "('a, 'r, 'p) rtc_ops \<Rightarrow> instant \<Rightarrow> ('a, 'r, 'p) remote_conn \<Rightarrow> bool \<times> ('a, 'r, 'p) remote_conn" where
  "conn_on_tick E now c = (case rem_timeout c of
       None \<Rightarrow> (False, c)
     | Some timeout \<Rightarrow>
         if timeout \<le> now
         then (case rtc_handle_input E (InTimeout now) (rem_rtc c) of
             (ok, r) \<Rightarrow> (ok \<noteq> None, c\<lparr>rem_timeout := None, rem_rtc := r\<rparr>))
         else (False, c))"

text \<open>
  The writing loop. A chunk is taken from the buffer before the channel is looked up in the
  engine.
\<close>

lemma pop_send_shorter: "pop_send cfg b = (Some chunk, b') \<Longrightarrow> length (send_queue b') < length (send_queue b)"
  by (auto simp: pop_send_def send_queue_def pop_queue_def Let_def split: list.splits if_splits)

function write_chunks ::
  "('a, 'r, 'p) rtc_ops \<Rightarrow> channel_id \<Rightarrow> ('a, 'r, 'p) remote_conn \<Rightarrow> (unit option \<times> ('a, 'r, 'p) remote_conn) res" where
  "write_chunks E channel c = (case pop_send (rtc_buf E) (rem_buffer c) of
       (None, b) \<Rightarrow> Inr (Some (), c\<lparr>rem_buffer := b\<rparr>)
     | (Some chunk, b) \<Rightarrow> (case rtc_write E channel chunk (rem_rtc c) of
           (None, r) \<Rightarrow> Inr (None, c\<lparr>rem_buffer := b, rem_rtc := r\<rparr>)
         | (Some None, _) \<Rightarrow> Inl (ExpectFailed ''should write to channel'')
         | (Some (Some appended), r) \<Rightarrow>
             if appended = length chunk then write_chunks E channel (c\<lparr>rem_buffer := b, rem_rtc := r\<rparr>)
             else Inl AssertFailed))"
  by pat_completeness auto

termination write_chunks
  by (relation "measure (\<lambda>(_, _, c). length (send_queue (rem_buffer c)))") (auto dest: pop_send_shorter[OF sym])

declare write_chunks.simps [simp del]

definition pop_outgoing_buffer ::
  "('a, 'r, 'p) rtc_ops \<Rightarrow> ('a, 'r, 'p) remote_conn \<Rightarrow> (unit option \<times> ('a, 'r, 'p) remote_conn) res" where
  "pop_outgoing_buffer E c = (case rem_channel c of None \<Rightarrow> Inr (None, c) | Some channel \<Rightarrow> write_chunks E channel c)"

definition send_data ::
  "('a, 'r, 'p) rtc_ops \<Rightarrow> bytes \<Rightarrow> ('a, 'r, 'p) remote_conn \<Rightarrow> (nat option \<times> ('a, 'r, 'p) remote_conn) res" where
  "send_data E buf c =
     res_bind (pop_outgoing_buffer E (c\<lparr>rem_buffer := push_frame (rtc_buf E) buf (rem_buffer c)\<rparr>)) (\<lambda>(_, c).
     Inr (Some (length buf), c))"

definition on_data ::
  "('a, 'r, 'p) rtc_ops \<Rightarrow> instant \<Rightarrow> 'a \<Rightarrow> 'a \<Rightarrow> bytes \<Rightarrow> ('a, 'r, 'p) remote_conn \<Rightarrow> unit option \<times> ('a, 'r, 'p) remote_conn" where
  "on_data E now source dest buf c =
     (if rtc_receive_ok E source dest buf
      then (case rtc_handle_input E (InReceive now source dest buf) (rem_rtc c) of (ok, r) \<Rightarrow> (ok, c\<lparr>rem_rtc := r\<rparr>))
      else (None, c))"

definition conn_shutdown :: "('a, 'r, 'p) rtc_ops \<Rightarrow> ('a, 'r, 'p) remote_conn \<Rightarrow> ('a, 'r, 'p) remote_conn" where
  "conn_shutdown E c = (case rem_channel c of
       None \<Rightarrow> c
     | Some channel \<Rightarrow> c\<lparr>rem_channel := None, rem_rtc := rtc_close_channel E channel (rem_rtc c)\<rparr>)"

text \<open>The frames that are complete become messages.\<close>

function take_frames :: "('a, 'r, 'p) remote_conn \<Rightarrow> ('a, 'r, 'p) remote_conn" where
  "take_frames c = (case pop_recv (rem_buffer c) of
       (None, b) \<Rightarrow> c\<lparr>rem_buffer := b\<rparr>
     | (Some frame, b) \<Rightarrow> take_frames (c\<lparr>rem_buffer := b, rem_queue := push_back (rem_queue c) (Message frame)\<rparr>))"
  by pat_completeness auto

lemma pop_recv_cases:
  "outs b = [] \<Longrightarrow> pop_recv b = (None, b)"
  "outs b = f # fs \<Longrightarrow> pop_recv b = (Some f, b\<lparr>outs := fs\<rparr>)"
  by (simp_all add: pop_recv_def)

termination take_frames
proof (relation "measure (\<lambda>c. length (outs (rem_buffer c)))", goal_cases)
  case (2 c b frame)
  then show ?case by (cases "outs (rem_buffer c)") (auto simp: pop_recv_cases)
qed simp

declare take_frames.simps [simp del]

text \<open>What \<open>pop_outgoing\<close> does with an event of the engine.\<close>

definition conn_event ::
  "('a, 'r, 'p) rtc_ops \<Rightarrow> rtc_event \<Rightarrow> ('a, 'r, 'p) remote_conn \<Rightarrow> ('a, 'r, 'p) remote_conn res" where
  "conn_event E ev c = (case ev of
       IceDisconnected \<Rightarrow> Inr (c\<lparr>rem_queue := push_back (rem_queue c) Disconnected\<rparr>)
     | IceOtherState \<Rightarrow> Inr c
     | ChannelOpen channel _ \<Rightarrow> Inr (c\<lparr>rem_queue := push_back (rem_queue c) Connected, rem_channel := Some channel\<rparr>)
     | ChannelData data \<Rightarrow>
         (case on_received (rtc_buf E) data (rem_buffer c) of (_, b) \<Rightarrow>
           res_bind (pop_outgoing_buffer E (take_frames (c\<lparr>rem_buffer := b\<rparr>))) (\<lambda>(_, c). Inr c))
     | ChannelClose _ \<Rightarrow> Inr (case rem_channel c of
           None \<Rightarrow> c
         | Some _ \<Rightarrow> c\<lparr>rem_channel := None, rem_queue := push_back (rem_queue c) Disconnected\<rparr>)
     | OtherEvent \<Rightarrow> Inr c)"

text \<open>A timeout is due when its distance from now, which saturates at zero, is zero.\<close>

fun pop_outgoing ::
  "('a, 'r, 'p) rtc_ops \<Rightarrow> nat \<Rightarrow> ('a, 'r, 'p) remote_conn \<Rightarrow> ('a remote_conn_out option \<times> ('a, 'r, 'p) remote_conn) res" where
  "pop_outgoing E 0 c = Inl NoAnswer"
| "pop_outgoing E (Suc k) c = (case pop_front (rem_queue c) of
       Some (out, q) \<Rightarrow> Inr (Some out, c\<lparr>rem_queue := q\<rparr>)
     | None \<Rightarrow> (case rtc_poll_output E (rem_rtc c) of
           (None, r) \<Rightarrow> Inr (None, c\<lparr>rem_rtc := r\<rparr>)
         | (Some (OutTimeout timeout), r) \<Rightarrow> (case rtc_now E r of (now, r) \<Rightarrow>
             if timeout \<le> now
             then (case rtc_now E r of (now, r) \<Rightarrow> (case rtc_handle_input E (InTimeout now) r of
                 (None, r) \<Rightarrow> Inr (None, c\<lparr>rem_rtc := r\<rparr>)
               | (Some _, r) \<Rightarrow> pop_outgoing E k (c\<lparr>rem_rtc := r\<rparr>)))
             else Inr (None, c\<lparr>rem_rtc := r, rem_timeout := Some timeout\<rparr>))
         | (Some (OutTransmit source dest contents), r) \<Rightarrow>
             pop_outgoing E k (c\<lparr>rem_rtc := r, rem_queue := push_back (rem_queue c) (Transmit source dest contents)\<rparr>)
         | (Some (OutEvent ev), r) \<Rightarrow> res_bind (conn_event E ev (c\<lparr>rem_rtc := r\<rparr>)) (pop_outgoing E k)))"

declare pop_outgoing.simps(2) [simp del]

section \<open>The loops\<close>

lemma take_frames_eq:
  "take_frames c = c\<lparr>rem_buffer := (rem_buffer c)\<lparr>outs := []\<rparr>, rem_queue := rem_queue c @ map Message (outs (rem_buffer c))\<rparr>"
proof (induction "outs (rem_buffer c)" arbitrary: c)
  case Nil
  then have o: "outs (rem_buffer c) = []" by simp
  then show ?case by (subst take_frames.simps) (simp add: pop_recv_cases)
next
  case (Cons f fs)
  let ?c = "c\<lparr>rem_buffer := (rem_buffer c)\<lparr>outs := fs\<rparr>, rem_queue := push_back (rem_queue c) (Message f)\<rparr>"
  have "take_frames c = take_frames ?c"
    by (subst take_frames.simps) (simp add: pop_recv_cases(2)[OF Cons(2)[symmetric]])
  with Cons(1)[of ?c] show ?case by (simp add: push_back_def flip: Cons(2))
qed

text \<open>An engine that takes every write to a channel it knows.\<close>

definition writes_ok :: "('a, 'r, 'p) rtc_ops \<Rightarrow> bool" where
  "writes_ok E \<longleftrightarrow> (\<forall>ch d r. fst (rtc_write E ch d r) \<in> {None, Some (Some (length d))})"

text \<open>
  A bound on the outputs to come. An output uses up more than the one item it can queue, data
  from the peer also what writing a chunk (the acknowledgement) can add, and a due timeout
  uses up something.
\<close>

fun event_cost :: "nat \<Rightarrow> rtc_event \<Rightarrow> nat" where
  "event_cost K (ChannelData _) = K + 1"
| "event_cost K _ = 1"

definition settles :: "('a, 'r, 'p) rtc_ops \<Rightarrow> ('r \<Rightarrow> nat) \<Rightarrow> nat \<Rightarrow> bool" where
  "settles E pot K \<longleftrightarrow>
     (\<forall>ch d r. pot (snd (rtc_write E ch d r)) \<le> pot r + K) \<and>
     (\<forall>r out r'. rtc_poll_output E r = (Some out, r') \<longrightarrow>
        (case out of
           OutTimeout t \<Rightarrow> \<forall>now r1. rtc_now E r' = (now, r1) \<longrightarrow> t \<le> now \<longrightarrow>
             (\<forall>now2 r2. rtc_now E r1 = (now2, r2) \<longrightarrow> pot (snd (rtc_handle_input E (InTimeout now2) r2)) < pot r)
         | OutEvent ev \<Rightarrow> pot r' + event_cost K ev < pot r
         | OutTransmit _ _ _ \<Rightarrow> pot r' + 1 < pot r))"

definition potential :: "('r \<Rightarrow> nat) \<Rightarrow> nat \<Rightarrow> ('a, 'r, 'p) remote_conn \<Rightarrow> nat" where
  "potential pot K c = pot (rem_rtc c) + K * length (send_queue (rem_buffer c)) + length (rem_queue c) + length (outs (rem_buffer c))"

lemma pop_send_outs: "outs (snd (pop_send cfg b)) = outs b" "length (send_queue (snd (pop_send cfg b))) \<le> length (send_queue b)"
  by (auto simp: pop_send_def pop_queue_def Let_def send_queue_def split: list.splits)

text \<open>Writing moves chunks to the engine: it returns, and the bound does not grow.\<close>

lemma write_chunks_total:
  assumes "writes_ok E" "settles E pot K"
  shows "\<exists>u c'. write_chunks E ch c = Inr (u, c') \<and> potential pot K c' \<le> potential pot K c \<and>
    rem_remote c' = rem_remote c \<and> rem_queue c' = rem_queue c \<and> outs (rem_buffer c') = outs (rem_buffer c)"
proof (induction "length (send_queue (rem_buffer c))" arbitrary: c rule: less_induct)
  case less
  obtain w0 b where p: "pop_send (rtc_buf E) (rem_buffer c) = (w0, b)" by (cases "pop_send (rtc_buf E) (rem_buffer c)")
  have ob: "outs b = outs (rem_buffer c)" "length (send_queue b) \<le> length (send_queue (rem_buffer c))"
    using pop_send_outs[of "rtc_buf E" "rem_buffer c"] by (simp_all add: p)
  show ?case
  proof (cases w0)
    case None
    then show ?thesis using p ob by (subst write_chunks.simps) (simp add: potential_def)
  next
    case (Some chunk)
    let ?c = "\<lambda>r. c\<lparr>rem_buffer := b, rem_rtc := r\<rparr>"
    obtain w r where w: "rtc_write E ch chunk (rem_rtc c) = (w, r)" by (cases "rtc_write E ch chunk (rem_rtc c)")
    have "fst (rtc_write E ch chunk (rem_rtc c)) \<in> {None, Some (Some (length chunk))}" using assms(1) by (simp only: writes_ok_def)
    then have wc: "w = None \<or> w = Some (Some (length chunk))" by (simp add: w)
    have "pot (snd (rtc_write E ch chunk (rem_rtc c))) \<le> pot (rem_rtc c) + K" using assms(2) by (simp only: settles_def)
    then have "pot r \<le> pot (rem_rtc c) + K" by (simp add: w)
    moreover have q: "length (send_queue b) < length (send_queue (rem_buffer c))" using p Some pop_send_shorter by blast
    then have "K * length (send_queue b) + K \<le> K * length (send_queue (rem_buffer c))"
      by (metis Suc_leI add.commute mult_Suc_right mult_le_mono2)
    ultimately have le: "potential pot K (?c r) \<le> potential pot K c" using ob(1) by (simp add: potential_def)
    show ?thesis
    proof (cases w)
      case None
      then show ?thesis using p Some w le ob(1) by (subst write_chunks.simps) simp
    next
      case (Some n)
      then have n: "n = Some (length chunk)" using wc by simp
      have "length (send_queue (rem_buffer (?c r))) < length (send_queue (rem_buffer c))" using q by simp
      from less[OF this] obtain u c' where "write_chunks E ch (?c r) = Inr (u, c')"
        "potential pot K c' \<le> potential pot K (?c r)" "rem_remote c' = rem_remote c" "rem_queue c' = rem_queue c" "outs (rem_buffer c') = outs b"
        by auto
      moreover have "write_chunks E ch c = write_chunks E ch (?c r)"
        by (subst write_chunks.simps) (simp add: p \<open>w0 = Some chunk\<close> w Some n)
      ultimately show ?thesis using le ob(1) by auto
    qed
  qed
qed

lemma pop_outgoing_buffer_total:
  assumes "writes_ok E" "settles E pot K"
  shows "\<exists>u c'. pop_outgoing_buffer E c = Inr (u, c') \<and> potential pot K c' \<le> potential pot K c \<and>
    rem_remote c' = rem_remote c \<and> rem_queue c' = rem_queue c \<and> outs (rem_buffer c') = outs (rem_buffer c)"
  using write_chunks_total[OF assms] by (cases "rem_channel c") (auto simp: pop_outgoing_buffer_def)

text \<open>A message that arrives adds at most one frame and one acknowledgement.\<close>

lemma on_received_adds:
  fixes cfg b d
  defines "b' \<equiv> snd (on_received cfg d b)"
  shows "length (outs b') \<le> Suc (length (outs b))" "length (send_queue b') \<le> Suc (length (send_queue b))"
  by (auto simp: b'_def on_received_def receive_chunk_def receive_ack_def Let_def send_queue_def push_back_def
      split: option.splits connection_chunk.splits)

lemma conn_event_total:
  assumes "writes_ok E" "settles E pot K"
  shows "\<exists>c'. conn_event E ev c = Inr c' \<and> potential pot K c' \<le> potential pot K c + event_cost K ev \<and> rem_remote c' = rem_remote c"
proof (cases ev)
  case (ChannelData d)
  obtain u b where b: "on_received (rtc_buf E) d (rem_buffer c) = (u, b)" by (cases "on_received (rtc_buf E) d (rem_buffer c)")
  have len: "length (outs b) \<le> Suc (length (outs (rem_buffer c)))" "length (send_queue b) \<le> Suc (length (send_queue (rem_buffer c)))"
    using on_received_adds[of "rtc_buf E" d "rem_buffer c"] by (simp_all add: b)
  let ?c = "take_frames (c\<lparr>rem_buffer := b\<rparr>)"
  have c: "rem_remote ?c = rem_remote c" "rem_rtc ?c = rem_rtc c" "rem_queue ?c = rem_queue c @ map Message (outs b)"
    "outs (rem_buffer ?c) = []" "send_queue (rem_buffer ?c) = send_queue b"
    by (simp_all add: take_frames_eq send_queue_def)
  have "K * length (send_queue b) \<le> K * length (send_queue (rem_buffer c)) + K" using len(2) by (metis add.commute mult_Suc_right mult_le_mono2)
  then have "potential pot K ?c \<le> potential pot K c + K + 1" using len(1) by (simp add: potential_def c)
  moreover obtain u' c' where "pop_outgoing_buffer E ?c = Inr (u', c')" "potential pot K c' \<le> potential pot K ?c" "rem_remote c' = rem_remote ?c"
    using pop_outgoing_buffer_total[OF assms] by blast
  ultimately show ?thesis using ChannelData b c(1) by (simp add: conn_event_def)
qed (auto simp: conn_event_def potential_def push_back_def split: option.splits)

text \<open>A turn that finds nothing queued ends the call or goes on with less of the bound.\<close>

lemma timeout_turn:
  assumes "rem_queue c = []" "settles E pot K" "rtc_poll_output E (rem_rtc c) = (Some (OutTimeout t), r)"
  shows "(\<exists>c'. rem_remote c' = rem_remote c \<and> (\<forall>k. pop_outgoing E (Suc k) c = Inr (None, c'))) \<or>
    (\<exists>c'. rem_remote c' = rem_remote c \<and> potential pot K c' < potential pot K c \<and> (\<forall>k. pop_outgoing E (Suc k) c = pop_outgoing E k c'))"
proof -
  obtain now r1 where n1: "rtc_now E r = (now, r1)" by (cases "rtc_now E r")
  obtain now2 r2 where n2: "rtc_now E r1 = (now2, r2)" by (cases "rtc_now E r1")
  obtain h r3 where h: "rtc_handle_input E (InTimeout now2) r2 = (h, r3)" by (cases "rtc_handle_input E (InTimeout now2) r2")
  have "t \<le> now \<Longrightarrow> pot (snd (rtc_handle_input E (InTimeout now2) r2)) < pot (rem_rtc c)"
    using assms(2,3) n1 n2 unfolding settles_def by fastforce
  then have "t \<le> now \<Longrightarrow> potential pot K (c\<lparr>rem_rtc := r3\<rparr>) < potential pot K c" by (simp add: h potential_def)
  moreover have step: "pop_outgoing E (Suc k) c = (if t \<le> now
      then if h = None then Inr (None, c\<lparr>rem_rtc := r3\<rparr>) else pop_outgoing E k (c\<lparr>rem_rtc := r3\<rparr>)
      else Inr (None, c\<lparr>rem_rtc := r1, rem_timeout := Some t\<rparr>))" for k
    using assms(1,3) n1 n2 h by (simp add: pop_outgoing.simps(2) split: option.splits)
  moreover consider (later) "\<not> t \<le> now" | (failed) "t \<le> now" "h = None" | (handled) "t \<le> now" "h \<noteq> None" by blast
  then show ?thesis
  proof cases
    case later
    then show ?thesis by (intro disjI1 exI[of _ "c\<lparr>rem_rtc := r1, rem_timeout := Some t\<rparr>"]) (simp add: step)
  next
    case failed
    then show ?thesis by (intro disjI1 exI[of _ "c\<lparr>rem_rtc := r3\<rparr>"]) (simp add: step)
  next
    case handled
    then show ?thesis using calculation(1) by (intro disjI2 exI[of _ "c\<lparr>rem_rtc := r3\<rparr>"]) (simp add: step)
  qed
qed

lemma poll_turn:
  assumes "rem_queue c = []" "writes_ok E" "settles E pot K"
  shows "(\<exists>c'. rem_remote c' = rem_remote c \<and> (\<forall>k. pop_outgoing E (Suc k) c = Inr (None, c'))) \<or>
    (\<exists>c'. rem_remote c' = rem_remote c \<and> potential pot K c' < potential pot K c \<and> (\<forall>k. pop_outgoing E (Suc k) c = pop_outgoing E k c'))"
proof -
  obtain out r where po: "rtc_poll_output E (rem_rtc c) = (out, r)" by (cases "rtc_poll_output E (rem_rtc c)")
  show ?thesis
  proof (cases out)
    case None
    then have "\<forall>k. pop_outgoing E (Suc k) c = Inr (None, c\<lparr>rem_rtc := r\<rparr>)" using assms(1) po by (simp add: pop_outgoing.simps(2))
    then show ?thesis by (intro disjI1 exI[of _ "c\<lparr>rem_rtc := r\<rparr>"]) simp
  next
    case (Some out')
    show ?thesis
    proof (cases out')
      case (OutTimeout t)
      then show ?thesis using timeout_turn[OF assms(1,3)] po Some by simp
    next
      case (OutTransmit source dest contents)
      let ?c = "c\<lparr>rem_rtc := r, rem_queue := [Transmit source dest contents]\<rparr>"
      have "pot r + 1 < pot (rem_rtc c)" using assms(3) po Some OutTransmit unfolding settles_def by fastforce
      then have "potential pot K ?c < potential pot K c" using assms(1) by (simp add: potential_def)
      moreover have "\<forall>k. pop_outgoing E (Suc k) c = pop_outgoing E k ?c"
        using assms(1) po Some OutTransmit by (simp add: pop_outgoing.simps(2) push_back_def)
      ultimately show ?thesis by (intro disjI2 exI[of _ ?c]) simp
    next
      case (OutEvent ev)
      have "pot r + event_cost K ev < pot (rem_rtc c)" using assms(3) po Some OutEvent unfolding settles_def by fastforce
      moreover obtain c' where c': "conn_event E ev (c\<lparr>rem_rtc := r\<rparr>) = Inr c'"
        "potential pot K c' \<le> potential pot K (c\<lparr>rem_rtc := r\<rparr>) + event_cost K ev" "rem_remote c' = rem_remote c"
        using conn_event_total[OF assms(2,3), of ev "c\<lparr>rem_rtc := r\<rparr>"] by auto
      ultimately have "potential pot K c' < potential pot K c" by (simp add: potential_def)
      moreover have "\<forall>k. pop_outgoing E (Suc k) c = pop_outgoing E k c'"
        using assms(1) po Some OutEvent c'(1) by (simp add: pop_outgoing.simps(2))
      ultimately show ?thesis using c'(3) by blast
    qed
  qed
qed

text \<open>
  One call of \<open>pop_outgoing\<close> returns as soon as the fuel exceeds the bound, and uses up some of
  the bound when it returns an item.
\<close>

lemma pop_outgoing_total:
  assumes "writes_ok E" "settles E pot K" "potential pot K c < k"
  shows "\<exists>out c'. pop_outgoing E k c = Inr (out, c') \<and> rem_remote c' = rem_remote c \<and>
    (out \<noteq> None \<longrightarrow> potential pot K c' < potential pot K c)"
  using assms(3)
proof (induction k arbitrary: c)
  case (Suc k)
  show ?case
  proof (cases "rem_queue c")
    case (Cons out q)
    then show ?thesis by (simp add: pop_outgoing.simps(2) potential_def)
  next
    case Nil
    from poll_turn[OF Nil assms(1,2)] consider
        c' where "rem_remote c' = rem_remote c" "pop_outgoing E (Suc k) c = Inr (None, c')"
      | c' where "rem_remote c' = rem_remote c" "potential pot K c' < potential pot K c" "pop_outgoing E (Suc k) c = pop_outgoing E k c'"
      by blast
    then show ?thesis
    proof cases
      case 2
      then have "potential pot K c' < k" using Suc.prems by linarith
      from Suc.IH[OF this] show ?thesis using 2 by (metis order_less_trans)
    qed simp
  qed
qed simp

text \<open>
  What was queued before the channel is open stays in the buffer: opening the channel announces
  the connection and does not write.
\<close>

lemma channel_open_does_not_write:
  "conn_event E (ChannelOpen ch name) c = Inr c' \<Longrightarrow> rem_buffer c' = rem_buffer c \<and> rem_rtc c' = rem_rtc c"
  by (auto simp: conn_event_def)

text \<open>When the engine no longer knows the channel, the chunk just taken is gone, and its bytes stay accounted.\<close>

lemma unknown_channel_loses_chunk:
  assumes "pop_send (rtc_buf E) (rem_buffer c) = (Some chunk, b)" "rtc_write E ch chunk (rem_rtc c) = (None, r)"
  shows "write_chunks E ch c = Inr (None, c\<lparr>rem_buffer := b, rem_rtc := r\<rparr>)"
  using assms by (subst write_chunks.simps) simp

section \<open>The peer of a connection is fixed\<close>

named_theorems remote_kept "operations keep the peer of a connection"

lemma write_chunks_remote [remote_kept]: "write_chunks E ch c = Inr (u, c') \<Longrightarrow> rem_remote c' = rem_remote c"
proof (induction E ch c arbitrary: u c' rule: write_chunks.induct)
  case (1 E ch c)
  from "1.prems" show ?case
    by (subst (asm) write_chunks.simps) (auto split: prod.splits option.splits if_splits dest: "1.IH"[rotated -1])
qed

lemma pop_outgoing_buffer_remote [remote_kept]: "pop_outgoing_buffer E c = Inr (u, c') \<Longrightarrow> rem_remote c' = rem_remote c"
  by (auto simp: pop_outgoing_buffer_def remote_kept split: option.splits)

lemma send_data_remote [remote_kept]: "send_data E d c = Inr (u, c') \<Longrightarrow> rem_remote c' = rem_remote c"
  by (auto simp: send_data_def res_bind_Inr_iff dest!: pop_outgoing_buffer_remote)

lemma conn_event_remote [remote_kept]: "conn_event E ev c = Inr c' \<Longrightarrow> rem_remote c' = rem_remote c"
  by (auto simp: conn_event_def res_bind_Inr_iff take_frames_eq dest!: pop_outgoing_buffer_remote
      split: rtc_event.splits option.splits prod.splits)

lemma pop_outgoing_remote [remote_kept]: "pop_outgoing E k c = Inr (out, c') \<Longrightarrow> rem_remote c' = rem_remote c"
proof (induction k arbitrary: c)
  case (Suc k)
  from Suc.prems show ?case
    by (auto simp: pop_outgoing.simps(2) res_bind_Inr_iff split: option.splits prod.splits rtc_output.splits if_splits
        dest!: Suc.IH conn_event_remote)
qed simp

lemma simple_remote [remote_kept, simp]:
  "rem_remote (snd (conn_on_tick E now c)) = rem_remote c"
  "rem_remote (snd (on_data E now a b d c)) = rem_remote c"
  "rem_remote (snd (conn_on_answer E ans c)) = rem_remote c"
  "rem_remote (snd (accept_offer E off c)) = rem_remote c"
  "rem_remote (conn_shutdown E c) = rem_remote c"
  by (auto simp: conn_on_tick_def on_data_def conn_on_answer_def accept_offer_def conn_shutdown_def split: option.splits prod.splits)

lemma create_offer_remote [remote_kept]: "create_offer E c = Inr (off, c') \<Longrightarrow> rem_remote c' = rem_remote c"
  by (auto simp: create_offer_def split: prod.splits option.splits)

lemma remote_conn_new_remote [remote_kept]: "remote_conn_new E n as r = Inr c \<Longrightarrow> rem_remote c = n"
  by (auto simp: remote_conn_new_def res_bind_Inr_iff)

lemma pop_outgoing_None: "pop_outgoing E k c = Inr (None, c') \<Longrightarrow> rem_queue c' = []"
proof (induction k arbitrary: c)
  case (Suc k)
  show ?case
  proof (cases "rem_queue c")
    case Nil
    with Suc.prems show ?thesis
      by (auto simp: pop_outgoing.simps(2) res_bind_Inr_iff split: option.splits prod.splits rtc_output.splits if_splits dest!: Suc.IH)
  qed (use Suc.prems in \<open>simp add: pop_outgoing.simps(2)\<close>)
qed simp

text \<open>Nor does draining touch the pending offer.\<close>

lemma write_chunks_pending: "write_chunks E ch c = Inr (u, c') \<Longrightarrow> rem_pending c' = rem_pending c"
proof (induction E ch c arbitrary: u c' rule: write_chunks.induct)
  case (1 E ch c)
  from "1.prems" show ?case
    by (subst (asm) write_chunks.simps) (auto split: prod.splits option.splits if_splits dest: "1.IH"[rotated -1])
qed

lemma pop_outgoing_buffer_pending: "pop_outgoing_buffer E c = Inr (u, c') \<Longrightarrow> rem_pending c' = rem_pending c"
  by (auto simp: pop_outgoing_buffer_def write_chunks_pending split: option.splits)

lemma conn_event_pending: "conn_event E ev c = Inr c' \<Longrightarrow> rem_pending c' = rem_pending c"
  by (auto simp: conn_event_def res_bind_Inr_iff take_frames_eq dest!: pop_outgoing_buffer_pending
      split: rtc_event.splits option.splits prod.splits)

lemma pop_outgoing_pending: "pop_outgoing E k c = Inr (out, c') \<Longrightarrow> rem_pending c' = rem_pending c"
proof (induction k arbitrary: c)
  case (Suc k)
  from Suc.prems show ?case
    by (auto simp: pop_outgoing.simps(2) res_bind_Inr_iff split: option.splits prod.splits rtc_output.splits if_splits
        dest!: Suc.IH conn_event_pending)
qed simp

text \<open>More fuel does not change a result.\<close>

lemma pop_outgoing_mono:
  assumes "pop_outgoing E k c \<noteq> Inl NoAnswer"
  shows "pop_outgoing E (k + d) c = pop_outgoing E k c"
  using assms
proof (induction k arbitrary: c)
  case (Suc k)
  show ?case
  proof (cases "rem_queue c")
    case (Cons out q)
    then show ?thesis using Suc.prems by (simp add: pop_outgoing.simps(2))
  next
    case Nil
    then show ?thesis using Suc.prems
      by (auto simp: pop_outgoing.simps(2) res_bind_def split: option.splits prod.splits rtc_output.splits sum.splits if_splits intro!: Suc.IH)
  qed
qed simp

section \<open>A scripted engine\<close>

text \<open>
  An engine whose state is the list of its outputs to come: a packet is handed over as the data
  of the channel, a write is transmitted, offers and answers are accepted as they are.
\<close>

definition script_rtc :: "buf_cfg \<Rightarrow> (nat, nat rtc_output list, unit) rtc_ops" where
  "script_rtc cfg = \<lparr>rtc_buf = cfg, rtc_now = (\<lambda>r. (0, r)), rtc_host = (\<lambda>_. Some), rtc_reflexive = (\<lambda>_ _. Some),
     rtc_offer = (\<lambda>r. (Some (''offer'', ()), r)), rtc_parse_offer = Some, rtc_accept_offer = (\<lambda>_ r. (Some ''answer'', r)),
     rtc_parse_answer = Some, rtc_accept_answer = (\<lambda>_ _ r. (Some (), r)), rtc_receive_ok = (\<lambda>_ _ _. True),
     rtc_handle_input = (\<lambda>i r. (Some (), case i of InReceive _ _ _ d \<Rightarrow> r @ [OutEvent (ChannelData d)] | _ \<Rightarrow> r)),
     rtc_poll_output = (\<lambda>r. case r of [] \<Rightarrow> (Some (OutTimeout 1), []) | out # rest \<Rightarrow> (Some out, rest)),
     rtc_write = (\<lambda>_ d r. (Some (Some (length d)), r @ [OutTransmit 0 0 d])), rtc_close_channel = (\<lambda>ch r. r @ [OutEvent (ChannelClose ch)])\<rparr>"

fun script_weight :: "nat rtc_output \<Rightarrow> nat" where
  "script_weight (OutTimeout t) = (if t = 0 then 1 else 0)"
| "script_weight (OutTransmit _ _ _) = 2"
| "script_weight (OutEvent (ChannelData _)) = 4"
| "script_weight (OutEvent _) = 2"

definition script_pot :: "nat rtc_output list \<Rightarrow> nat" where
  "script_pot r = sum_list (map script_weight r)"

lemma script_writes_ok: "writes_ok (script_rtc cfg)"
  by (simp add: writes_ok_def script_rtc_def)

lemma event_weight: "event_cost 2 ev < script_weight (OutEvent ev)"
  by (cases ev) simp_all

lemma script_settles: "settles (script_rtc cfg) script_pot 2"
proof -
  have poll: "case out of
      OutTimeout t \<Rightarrow> t = 0 \<longrightarrow> script_pot r' < script_pot r
    | OutEvent ev \<Rightarrow> script_pot r' + event_cost 2 ev < script_pot r
    | OutTransmit _ _ _ \<Rightarrow> script_pot r' + 1 < script_pot r"
    if "rtc_poll_output (script_rtc cfg) r = (Some out, r')" for r out r'
    using that event_weight by (cases r) (auto simp: script_rtc_def script_pot_def split: rtc_output.splits)
  have now: "rtc_now (script_rtc cfg) r = (0, r)" "rtc_handle_input (script_rtc cfg) (InTimeout t) r = (Some (), r)" for r t
    by (simp_all add: script_rtc_def)
  show ?thesis
    unfolding settles_def
  proof (intro conjI allI impI)
    show "script_pot (snd (rtc_write (script_rtc cfg) ch d r)) \<le> script_pot r + 2" for ch d r
      by (simp add: script_rtc_def script_pot_def)
  qed (use poll in \<open>fastforce simp: now split: rtc_output.splits\<close>)
qed

end
