(* ===== verification/Network_Node.thy ===== *)
theory Network_Node
  imports Remote_Conn Shared_Port
begin

text \<open>
  The peer-to-peer node: \<open>NetworkNode\<close> of \<^verbatim>\<open>crates/p2p-network/src/node.rs\<close> with
  \<^verbatim>\<open>stun.rs\<close>. It owns the connections, the table of peers, the demultiplexer of its one
  socket and the queue of events for its owner.

  The socket is the log \<open>nn_udp\<close> of the datagrams handed to it (a datagram it refuses is only
  logged by the code). The engine, the message codec and the STUN codec are parameters of
  \<open>node_env\<close>; random connection ids and credentials are arguments. \<open>tokio::select!\<close> picks one
  ready source at a time: the sources are the list of inputs of \<open>node_recv\<close>.
\<close>

section \<open>State\<close>

datatype incoming_error = RemoteNotFound | SdpError | MaxConnection | AlreadyHas

datatype send_error = NoNode | NoConnection | ConnectionNotReady | SendTimeout

datatype 'm node_event =
    NodeConnected conn_id node_id
  | NodeStats conn_id node_id u16
  | NodeMsg conn_id node_id 'm
  | NodeDisconnected conn_id node_id

record ('a, 'r, 'p, 'm) node_env =
  nd_rtc :: "('a, 'r, 'p) rtc_ops"
  nd_encode :: "'m \<Rightarrow> bytes"
  nd_decode :: "bytes \<Rightarrow> 'm option"
  nd_parse :: "bytes \<Rightarrow> string option"
  nd_split_username :: "string \<Rightarrow> (string \<times> string) option"
  nd_is_ipv4 :: "'a \<Rightarrow> bool"
  nd_stun_request :: bytes
  nd_stun_decode :: "bytes \<Rightarrow> 'a option list option"
  nd_send_ok :: "'a \<Rightarrow> bool"

record ('a, 'r, 'p, 'm) network_node =
  nn_node :: node_id
  nn_local :: 'a
  nn_udp :: "('a \<times> bytes) list"
  nn_conns :: "(conn_id, ('a, 'r, 'p) remote_conn) hmap"
  nn_nodes :: "(node_id, conn_id) hmap"
  nn_events :: "'m node_event list"
  nn_shared :: "('a, conn_id) shared_udp_port"
  nn_stun_servers :: "'a list"
  nn_public_addr :: "'a option"
  nn_last_sent_stun :: instant

definition nn_new :: "node_id \<Rightarrow> 'a \<Rightarrow> 'a list \<Rightarrow> 'a option \<Rightarrow> instant \<Rightarrow> ('a, 'r, 'p, 'm) network_node" where
  "nn_new node loc stun_servers public_addr now =
     \<lparr>nn_node = node, nn_local = loc, nn_udp = [], nn_conns = [], nn_nodes = [], nn_events = [], nn_shared = sp_default,
      nn_stun_servers = stun_servers, nn_public_addr = public_addr, nn_last_sent_stun = now\<rparr>"

section \<open>STUN\<close>

text \<open>
  The request goes to the servers of the socket's address family, until one send fails. An
  attribute of a decoded response is \<open>Some\<close> address when it is the mapped address.
\<close>

fun send_stun_request :: "('a, 'r, 'p, 'm) node_env \<Rightarrow> 'a \<Rightarrow> 'a list \<Rightarrow> bool \<times> ('a \<times> bytes) list" where
  "send_stun_request E loc [] = (True, [])"
| "send_stun_request E loc (stun_server # servers) =
     (if nd_is_ipv4 E stun_server = nd_is_ipv4 E loc
      then if nd_send_ok E stun_server
           then (case send_stun_request E loc servers of (ok, sent) \<Rightarrow> (ok, (stun_server, nd_stun_request E) # sent))
           else (False, [])
      else send_stun_request E loc servers)"

fun mapped_address :: "'a option list \<Rightarrow> string + 'a" where
  "mapped_address [] = Inl ''No XorMappedAddress found in STUN response''"
| "mapped_address (Some addr # _) = Inr addr"
| "mapped_address (None # attrs) = mapped_address attrs"

definition process_stun_response :: "('a, 'r, 'p, 'm) node_env \<Rightarrow> bytes \<Rightarrow> string + 'a" where
  "process_stun_response E buf = (case nd_stun_decode E buf of None \<Rightarrow> Inl ''decode'' | Some attrs \<Rightarrow> mapped_address attrs)"

text \<open>\<open>answer\<close> is the first packet the fresh socket receives, \<open>None\<close> an error of the socket.\<close>

definition get_public_ip :: "('a, 'r, 'p, 'm) node_env \<Rightarrow> 'a \<Rightarrow> 'a list \<Rightarrow> bytes option \<Rightarrow> string + 'a" where
  "get_public_ip E loc servers answer =
     (if fst (send_stun_request E loc servers)
      then (case answer of None \<Rightarrow> Inl ''recv'' | Some buf \<Rightarrow> process_stun_response E buf)
      else Inl ''send'')"

section \<open>Draining a connection\<close>

definition conn_out ::
  "('a, 'r, 'p, 'm) node_env \<Rightarrow> conn_id \<Rightarrow> node_id \<Rightarrow> 'a remote_conn_out \<Rightarrow> ('a, 'r, 'p, 'm) network_node \<Rightarrow> ('a, 'r, 'p, 'm) network_node" where
  "conn_out E conn_id remote out s = (case out of
       Transmit _ to buf \<Rightarrow> s\<lparr>nn_udp := push_back (nn_udp s) (to, buf)\<rparr>
     | Connected \<Rightarrow> s\<lparr>nn_events := push_back (nn_events s) (NodeConnected conn_id remote)\<rparr>
     | Message data \<Rightarrow> (case nd_decode E data of
           Some msg \<Rightarrow> s\<lparr>nn_events := push_back (nn_events s) (NodeMsg conn_id remote msg)\<rparr>
         | None \<Rightarrow> s)
     | Disconnected \<Rightarrow> s\<lparr>nn_shared := snd (remove_task conn_id (nn_shared s)),
                          nn_events := push_back (nn_events s) (NodeDisconnected conn_id remote)\<rparr>)"

fun pop_conn ::
  "('a, 'r, 'p, 'm) node_env \<Rightarrow> nat \<Rightarrow> conn_id \<Rightarrow> ('a, 'r, 'p) remote_conn \<Rightarrow> ('a, 'r, 'p, 'm) network_node \<Rightarrow>
    (('a, 'r, 'p) remote_conn \<times> ('a, 'r, 'p, 'm) network_node) res" where
  "pop_conn E 0 conn_id conn s = Inl NoAnswer"
| "pop_conn E (Suc k) conn_id conn s = res_bind (pop_outgoing (nd_rtc E) (Suc k) conn) (\<lambda>(out, conn).
     case out of
       None \<Rightarrow> Inr (conn, s)
     | Some out \<Rightarrow> pop_conn E k conn_id conn (conn_out E conn_id (rem_remote conn) out s))"

text \<open>A loop over the connections, each changed in place.\<close>

fun each_conn ::
  "(conn_id \<Rightarrow> ('a, 'r, 'p) remote_conn \<Rightarrow> ('a, 'r, 'p, 'm) network_node \<Rightarrow> (('a, 'r, 'p) remote_conn \<times> ('a, 'r, 'p, 'm) network_node) res) \<Rightarrow>
    (conn_id, ('a, 'r, 'p) remote_conn) hmap \<Rightarrow> ('a, 'r, 'p, 'm) network_node \<Rightarrow>
    ((conn_id, ('a, 'r, 'p) remote_conn) hmap \<times> ('a, 'r, 'p, 'm) network_node) res" where
  "each_conn f [] s = Inr ([], s)"
| "each_conn f ((conn_id, conn) # cs) s = res_bind (f conn_id conn s) (\<lambda>(conn, s).
     res_bind (each_conn f cs s) (\<lambda>(cs, s). Inr ((conn_id, conn) # cs, s)))"

definition all_conns ::
  "(conn_id \<Rightarrow> ('a, 'r, 'p) remote_conn \<Rightarrow> ('a, 'r, 'p, 'm) network_node \<Rightarrow> (('a, 'r, 'p) remote_conn \<times> ('a, 'r, 'p, 'm) network_node) res) \<Rightarrow>
    ('a, 'r, 'p, 'm) network_node \<Rightarrow> ('a, 'r, 'p, 'm) network_node res" where
  "all_conns f s = res_bind (each_conn f (nn_conns s) s) (\<lambda>(cs, s). Inr (s\<lparr>nn_conns := cs\<rparr>))"

section \<open>Operations\<close>

definition node_tick :: "('a, 'r, 'p, 'm) node_env \<Rightarrow> nat \<Rightarrow> instant \<Rightarrow> ('a, 'r, 'p, 'm) network_node \<Rightarrow> ('a, 'r, 'p, 'm) network_node res" where
  "node_tick E k now = all_conns (\<lambda>conn_id conn s. case conn_on_tick (nd_rtc E) now conn of
       (True, conn) \<Rightarrow> pop_conn E k conn_id conn s
     | (False, conn) \<Rightarrow> Inr (conn, s))"

definition node_peers :: "('a, 'r, 'p, 'm) network_node \<Rightarrow> node_id list" where
  "node_peers s = hm_keys (nn_nodes s)"

definition node_send ::
  "('a, 'r, 'p, 'm) node_env \<Rightarrow> nat \<Rightarrow> node_id \<Rightarrow> 'm \<Rightarrow> ('a, 'r, 'p, 'm) network_node \<Rightarrow>
    ((send_error + nat) \<times> ('a, 'r, 'p, 'm) network_node) res" where
  "node_send E k node data s = (case hm_get (nn_nodes s) node of
       None \<Rightarrow> Inr (Inl NoNode, s)
     | Some conn_id \<Rightarrow> (case hm_get (nn_conns s) conn_id of
           None \<Rightarrow> Inr (Inl NoConnection, s)
         | Some conn \<Rightarrow>
             let buf = nd_encode E data in
             res_bind (send_data (nd_rtc E) buf conn) (\<lambda>(appended, conn).
             case appended of
               None \<Rightarrow> Inr (Inl ConnectionNotReady, s\<lparr>nn_conns := hm_insert conn_id conn (nn_conns s)\<rparr>)
             | Some n \<Rightarrow>
                 if n = length buf
                 then res_bind (pop_conn E k conn_id conn s) (\<lambda>(conn, s).
                   Inr (Inr n, s\<lparr>nn_conns := hm_insert conn_id conn (nn_conns s)\<rparr>))
                 else Inl AssertFailed)))"

definition broadcast ::
  "('a, 'r, 'p, 'm) node_env \<Rightarrow> nat \<Rightarrow> 'm \<Rightarrow> ('a, 'r, 'p, 'm) network_node \<Rightarrow> ('a, 'r, 'p, 'm) network_node res" where
  "broadcast E k data = all_conns (\<lambda>conn_id conn s.
     res_bind (send_data (nd_rtc E) (nd_encode E data) conn) (\<lambda>(_, conn). pop_conn E k conn_id conn s))"

definition connect ::
  "('a, 'r, 'p, 'm) node_env \<Rightarrow> nat \<Rightarrow> conn_id \<Rightarrow> 'r \<Rightarrow> string \<Rightarrow> node_id \<Rightarrow> ('a, 'r, 'p, 'm) network_node \<Rightarrow>
    ((conn_id \<times> string) option \<times> ('a, 'r, 'p, 'm) network_node) res" where
  "connect E k conn_id rtc ice_ufrag dest s =
     (if hm_contains (nn_nodes s) dest then Inr (None, s)
      else let s = s\<lparr>nn_nodes := hm_insert dest conn_id (nn_nodes s)\<rparr> in
        res_bind (remote_conn_new (nd_rtc E) dest [(nn_local s, nn_public_addr s)] rtc) (\<lambda>conn.
        let s = s\<lparr>nn_shared := add_ufrag ice_ufrag conn_id (nn_shared s)\<rparr> in
        res_bind (create_offer (nd_rtc E) conn) (\<lambda>(offer, conn).
        res_bind (pop_conn E k conn_id conn s) (\<lambda>(conn, s).
        Inr (Some (conn_id, offer), s\<lparr>nn_conns := hm_insert conn_id conn (nn_conns s)\<rparr>)))))"

definition on_offer ::
  "('a, 'r, 'p, 'm) node_env \<Rightarrow> nat \<Rightarrow> 'r \<Rightarrow> string \<Rightarrow> conn_id \<Rightarrow> node_id \<Rightarrow> string \<Rightarrow> ('a, 'r, 'p, 'm) network_node \<Rightarrow>
    ((incoming_error + string) \<times> ('a, 'r, 'p, 'm) network_node) res" where
  "on_offer E k rtc ice_ufrag conn_id source offer s =
     (if hm_contains (nn_conns s) conn_id then Inr (Inl AlreadyHas, s)
      else res_bind (remote_conn_new (nd_rtc E) source [(nn_local s, nn_public_addr s)] rtc) (\<lambda>conn.
        let s = s\<lparr>nn_shared := add_ufrag ice_ufrag conn_id (nn_shared s)\<rparr> in
        (case accept_offer (nd_rtc E) offer conn of
           (None, _) \<Rightarrow> Inr (Inl SdpError, s)
         | (Some answer, conn) \<Rightarrow> res_bind (pop_conn E k conn_id conn s) (\<lambda>(conn, s).
             Inr (Inr answer, s\<lparr>nn_conns := hm_insert conn_id conn (nn_conns s),
                                nn_nodes := hm_insert source conn_id (nn_nodes s)\<rparr>)))))"

definition on_answer ::
  "('a, 'r, 'p, 'm) node_env \<Rightarrow> nat \<Rightarrow> conn_id \<Rightarrow> node_id \<Rightarrow> string \<Rightarrow> ('a, 'r, 'p, 'm) network_node \<Rightarrow>
    ((incoming_error + unit) \<times> ('a, 'r, 'p, 'm) network_node) res" where
  "on_answer E k conn source answer s = (case hm_get (nn_conns s) conn of
       None \<Rightarrow> Inr (Inl RemoteNotFound, s)
     | Some remote \<Rightarrow>
         if rem_remote remote = source
         then (case conn_on_answer (nd_rtc E) answer remote of
             (None, remote) \<Rightarrow> Inr (Inl SdpError, s\<lparr>nn_conns := hm_insert conn remote (nn_conns s)\<rparr>)
           | (Some _, remote) \<Rightarrow> res_bind (pop_conn E k conn remote s) (\<lambda>(remote, s).
               Inr (Inr (), s\<lparr>nn_conns := hm_insert conn remote (nn_conns s)\<rparr>)))
         else Inr (Inl RemoteNotFound, s))"

text \<open>The first half of \<open>shutdown\<close>; the second receives events for half a second and drops them.\<close>

definition node_shutdown :: "('a, 'r, 'p, 'm) node_env \<Rightarrow> nat \<Rightarrow> ('a, 'r, 'p, 'm) network_node \<Rightarrow> ('a, 'r, 'p, 'm) network_node res" where
  "node_shutdown E k = all_conns (\<lambda>conn_id conn s. pop_conn E k conn_id (conn_shutdown (nd_rtc E) conn) s)"

section \<open>Receiving\<close>

datatype 'a node_input = Ticked instant | Packet instant 'a bytes | SocketError

definition take_event :: "'m node_event \<Rightarrow> ('a, 'r, 'p, 'm) network_node \<Rightarrow> ('a, 'r, 'p, 'm) network_node" where
  "take_event out s = (case out of
       NodeDisconnected conn_id node \<Rightarrow> s\<lparr>nn_conns := hm_remove conn_id (nn_conns s), nn_nodes := hm_remove node (nn_nodes s)\<rparr>
     | _ \<Rightarrow> s)"

definition on_ticked :: "('a, 'r, 'p, 'm) node_env \<Rightarrow> nat \<Rightarrow> instant \<Rightarrow> ('a, 'r, 'p, 'm) network_node \<Rightarrow> ('a, 'r, 'p, 'm) network_node res" where
  "on_ticked E k now s = res_bind (node_tick E k now s) (\<lambda>s.
     if now - nn_last_sent_stun s > 10000
     then (case send_stun_request E (nn_local s) (nn_stun_servers s) of
         (True, sent) \<Rightarrow> Inr (s\<lparr>nn_last_sent_stun := now, nn_udp := nn_udp s @ sent\<rparr>)
       | (False, _) \<Rightarrow> Inl (ExpectFailed ''Should send stun request''))
     else Inr s)"

definition on_packet ::
  "('a, 'r, 'p, 'm) node_env \<Rightarrow> nat \<Rightarrow> instant \<Rightarrow> 'a \<Rightarrow> bytes \<Rightarrow> ('a, 'r, 'p, 'm) network_node \<Rightarrow> ('a, 'r, 'p, 'm) network_node res" where
  "on_packet E k now remote buf s =
     (if remote \<in> set (nn_stun_servers s)
      then Inr (case process_stun_response E buf of Inr public_ip \<Rightarrow> s\<lparr>nn_public_addr := Some public_ip\<rparr> | Inl _ \<Rightarrow> s)
      else (case map_remote (nd_parse E) (nd_split_username E) remote buf (nn_shared s) of
          (task, shared) \<Rightarrow>
            let s = s\<lparr>nn_shared := shared\<rparr> in
            (case task of
               None \<Rightarrow> Inr s
             | Some conn_id \<Rightarrow> (case hm_get (nn_conns s) conn_id of
                 None \<Rightarrow> Inr s
               | Some conn \<Rightarrow>
                   res_bind (pop_conn E k conn_id (snd (on_data (nd_rtc E) now remote (nn_local s) buf conn)) s) (\<lambda>(conn, s).
                   Inr (s\<lparr>nn_conns := hm_insert conn_id conn (nn_conns s)\<rparr>))))))"

fun node_recv ::
  "('a, 'r, 'p, 'm) node_env \<Rightarrow> nat \<Rightarrow> 'a node_input list \<Rightarrow> ('a, 'r, 'p, 'm) network_node \<Rightarrow>
    ('m node_event option \<times> 'a node_input list \<times> ('a, 'r, 'p, 'm) network_node) res" where
  "node_recv E k inputs s = (case pop_front (nn_events s) of
       Some (out, q) \<Rightarrow> Inr (Some out, inputs, take_event out (s\<lparr>nn_events := q\<rparr>))
     | None \<Rightarrow> (case inputs of
           [] \<Rightarrow> Inl NoAnswer
         | Ticked now # rest \<Rightarrow> res_bind (on_ticked E k now s) (node_recv E k rest)
         | Packet now remote buf # rest \<Rightarrow> res_bind (on_packet E k now remote buf s) (node_recv E k rest)
         | SocketError # rest \<Rightarrow> Inr (None, rest, s)))"

declare node_recv.simps [simp del]

text \<open>
  The second half of \<open>shutdown\<close>: events are dropped until half a second passes without one, which
  is after \<open>n\<close> of them, or the socket fails.
\<close>

fun drop_events ::
  "('a, 'r, 'p, 'm) node_env \<Rightarrow> nat \<Rightarrow> nat \<Rightarrow> 'a node_input list \<Rightarrow> ('a, 'r, 'p, 'm) network_node \<Rightarrow> ('a, 'r, 'p, 'm) network_node res" where
  "drop_events E k 0 inputs s = Inr s"
| "drop_events E k (Suc n) inputs s = res_bind (node_recv E k inputs s) (\<lambda>(ev, rest, s).
     case ev of None \<Rightarrow> Inr s | Some _ \<Rightarrow> drop_events E k n rest s)"

section \<open>Peers and connections agree\<close>

fun ev_conn :: "'m node_event \<Rightarrow> conn_id" where
  "ev_conn (NodeConnected c _) = c"
| "ev_conn (NodeStats c _ _) = c"
| "ev_conn (NodeMsg c _ _) = c"
| "ev_conn (NodeDisconnected c _) = c"

fun ev_node :: "'m node_event \<Rightarrow> node_id" where
  "ev_node (NodeConnected _ n) = n"
| "ev_node (NodeStats _ n _) = n"
| "ev_node (NodeMsg _ n _) = n"
| "ev_node (NodeDisconnected _ n) = n"

definition conn_peer :: "('a, 'r, 'p, 'm) network_node \<Rightarrow> conn_id \<Rightarrow> node_id option" where
  "conn_peer s c = map_option rem_remote (hm_get (nn_conns s) c)"

definition node_inv :: "('a, 'r, 'p, 'm) network_node \<Rightarrow> bool" where
  "node_inv s \<longleftrightarrow> hm_wf (nn_conns s) \<and>
     (\<forall>n c. hm_get (nn_nodes s) n = Some c \<longrightarrow> conn_peer s c = Some n) \<and>
     (\<forall>ev \<in> set (nn_events s). conn_peer s (ev_conn ev) \<in> {None, Some (ev_node ev)})"

lemma node_inv_new: "node_inv (nn_new node loc stun pub now)"
  by (simp add: node_inv_def nn_new_def)

text \<open>What draining connections changes: events are appended, each about the connection it came from.\<close>

definition drained :: "(conn_id \<times> node_id) set \<Rightarrow> ('a, 'r, 'p, 'm) network_node \<Rightarrow> ('a, 'r, 'p, 'm) network_node \<Rightarrow> bool" where
  "drained C s s' \<longleftrightarrow> nn_conns s' = nn_conns s \<and> nn_nodes s' = nn_nodes s \<and> nn_node s' = nn_node s \<and> nn_local s' = nn_local s \<and>
     (\<exists>evs. nn_events s' = nn_events s @ evs \<and> (\<forall>ev \<in> set evs. (ev_conn ev, ev_node ev) \<in> C))"

lemma drained_refl [simp]: "drained C s s"
  by (simp add: drained_def)

lemma drained_trans: "drained C s s' \<Longrightarrow> drained D s' s'' \<Longrightarrow> drained (C \<union> D) s s''"
  by (fastforce simp: drained_def)

lemma drained_mono: "drained C s s' \<Longrightarrow> C \<subseteq> D \<Longrightarrow> drained D s s'"
  by (fastforce simp: drained_def)

lemma conn_out_drained: "drained {(c, n)} s (conn_out E c n out s)"
  by (auto simp: drained_def conn_out_def push_back_def split: remote_conn_out.splits option.splits)

lemma pop_conn_drained:
  assumes "pop_conn E k c conn s = Inr (conn', s')"
  shows "drained {(c, rem_remote conn)} s s' \<and> rem_remote conn' = rem_remote conn"
  using assms
proof (induction k arbitrary: conn s)
  case (Suc k)
  obtain out conn1 where po: "pop_outgoing (nd_rtc E) (Suc k) conn = Inr (out, conn1)"
    using Suc.prems by (auto simp: res_bind_Inr_iff)
  have r: "rem_remote conn1 = rem_remote conn" using po by (rule pop_outgoing_remote)
  show ?case
  proof (cases out)
    case None
    then show ?thesis using Suc.prems po r by simp
  next
    case (Some out')
    let ?s = "conn_out E c (rem_remote conn) out' s"
    have "pop_conn E k c conn1 ?s = Inr (conn', s')" using Suc.prems po r Some by simp
    from Suc.IH[OF this] r have "drained {(c, rem_remote conn)} ?s s'" "rem_remote conn' = rem_remote conn" by auto
    then show ?thesis using drained_trans[OF conn_out_drained] by (metis Un_absorb)
  qed
qed simp

lemma conn_peer_update:
  "conn_peer (s\<lparr>nn_conns := hm_insert c conn (nn_conns s)\<rparr>) c' = (if c' = c then Some (rem_remote conn) else conn_peer s c')"
  by (simp add: conn_peer_def hm_get_insert)

lemma drained_peer: "drained C s s' \<Longrightarrow> conn_peer s' c = conn_peer s c"
  by (simp add: drained_def conn_peer_def)

text \<open>Draining a connection the node has, and putting it back, keeps the agreement.\<close>

lemma node_inv_drain:
  assumes "node_inv s" "conn_peer s c = Some n" "drained {(c, n)} s s'" "rem_remote conn = n"
  shows "node_inv (s'\<lparr>nn_conns := hm_insert c conn (nn_conns s')\<rparr>)"
proof -
  have p: "conn_peer (s'\<lparr>nn_conns := hm_insert c conn (nn_conns s')\<rparr>) c' = conn_peer s c'" for c'
    using assms(2,4) by (auto simp: conn_peer_update drained_peer[OF assms(3)])
  obtain evs where evs: "nn_events s' = nn_events s @ evs" "\<forall>ev \<in> set evs. (ev_conn ev, ev_node ev) = (c, n)"
    and eq: "nn_conns s' = nn_conns s" "nn_nodes s' = nn_nodes s"
    using assms(3) by (auto simp: drained_def)
  show ?thesis using assms(1,2) evs(2) unfolding node_inv_def p by (auto simp: evs(1) eq)
qed

text \<open>So does draining all of them.\<close>

lemma each_conn_drained:
  assumes step: "\<And>c conn s conn' s'. f c conn s = Inr (conn', s') \<Longrightarrow> drained {(c, rem_remote conn)} s s' \<and> rem_remote conn' = rem_remote conn"
    and run: "each_conn f cs s = Inr (cs', s')"
  shows "drained (set (map (\<lambda>(c, conn). (c, rem_remote conn)) cs)) s s' \<and>
    map (\<lambda>(c, conn). (c, rem_remote conn)) cs' = map (\<lambda>(c, conn). (c, rem_remote conn)) cs"
  using run
proof (induction cs arbitrary: s cs')
  case (Cons e cs)
  obtain c conn where e: "e = (c, conn)" by (cases e)
  obtain conn1 s1 cs1 where 1: "f c conn s = Inr (conn1, s1)" and 2: "each_conn f cs s1 = Inr (cs1, s')" and cs': "cs' = (c, conn1) # cs1"
    using Cons.prems by (auto simp: e res_bind_Inr_iff)
  have "drained ({(c, rem_remote conn)} \<union> set (map (\<lambda>(c, conn). (c, rem_remote conn)) cs)) s s'"
    using drained_trans step[OF 1] Cons.IH[OF 2] by blast
  then show ?case using step[OF 1] Cons.IH[OF 2] by (simp add: e cs')
qed simp

lemma peers_map: "conn_peer s c = map_of (map (\<lambda>(c, conn). (c, rem_remote conn)) (nn_conns s)) c"
  by (simp add: conn_peer_def map_of_map comp_def)

lemma all_conns_inv:
  assumes step: "\<And>c conn s conn' s'. f c conn s = Inr (conn', s') \<Longrightarrow> drained {(c, rem_remote conn)} s s' \<and> rem_remote conn' = rem_remote conn"
    and inv: "node_inv s" and run: "all_conns f s = Inr s'"
  shows "node_inv s' \<and> nn_nodes s' = nn_nodes s \<and> (\<forall>c. conn_peer s' c = conn_peer s c)"
proof -
  obtain cs s1 where 1: "each_conn f (nn_conns s) s = Inr (cs, s1)" "s' = s1\<lparr>nn_conns := cs\<rparr>"
    using run by (auto simp: all_conns_def res_bind_Inr_iff)
  note d = each_conn_drained[OF step 1(1)]
  have p: "conn_peer s' c = conn_peer s c" for c using d by (simp add: peers_map 1(2))
  have "map fst cs = map fst (map (\<lambda>(c, conn). (c, rem_remote conn)) cs)" by (simp add: comp_def split_beta)
  also have "\<dots> = map fst (map (\<lambda>(c, conn). (c, rem_remote conn)) (nn_conns s))" using d by (simp only:)
  also have "\<dots> = hm_keys (nn_conns s)" by (simp add: comp_def split_beta)
  finally have wf: "hm_wf cs" using inv by (simp add: hm_wf_def node_inv_def)
  obtain evs where evs: "nn_events s1 = nn_events s @ evs"
    "\<forall>ev \<in> set evs. (ev_conn ev, ev_node ev) \<in> set (map (\<lambda>(c, conn). (c, rem_remote conn)) (nn_conns s))"
    using d by (auto simp: drained_def)
  have nodes: "nn_nodes s' = nn_nodes s" using d by (simp add: drained_def 1(2))
  have "conn_peer s c = Some n" if "(c, n) \<in> set (map (\<lambda>(c, conn). (c, rem_remote conn)) (nn_conns s))" for c n
    using that inv by (auto simp: node_inv_def conn_peer_def simp flip: hm_get_mem)
  then have "\<forall>ev \<in> set evs. conn_peer s (ev_conn ev) = Some (ev_node ev)" using evs(2) by blast
  then show ?thesis using inv wf nodes p unfolding node_inv_def by (auto simp: evs(1) 1(2))
qed

text \<open>Each operation keeps the agreement; a new connection needs an id no connection and no queued event has.\<close>

definition id_unused :: "conn_id \<Rightarrow> ('a, 'r, 'p, 'm) network_node \<Rightarrow> bool" where
  "id_unused c s \<longleftrightarrow> c \<notin> hm_dom (nn_conns s) \<and> c \<notin> ev_conn ` set (nn_events s)"

lemma tick_step_drained:
  assumes "(case conn_on_tick X now conn of (True, conn) \<Rightarrow> pop_conn E k c conn s | (False, conn) \<Rightarrow> Inr (conn, s)) = Inr (conn', s')"
  shows "drained {(c, rem_remote conn)} s s' \<and> rem_remote conn' = rem_remote conn"
proof -
  obtain b conn1 where t: "conn_on_tick X now conn = (b, conn1)" by (cases "conn_on_tick X now conn")
  have r: "rem_remote conn1 = rem_remote conn" using simple_remote(1)[of X now conn] by (simp add: t)
  show ?thesis using assms pop_conn_drained[of E k c conn1 s conn' s'] r by (cases b) (auto simp: t)
qed

lemma node_tick_inv: "node_inv s \<Longrightarrow> node_tick E k now s = Inr s' \<Longrightarrow> node_inv s'"
  unfolding node_tick_def by (rule all_conns_inv[THEN conjunct1, rotated 2], assumption, erule tick_step_drained, assumption)

lemma send_step_drained:
  assumes "send_data X d conn = Inr (u, conn1)" "pop_conn E k c conn1 s = Inr (conn', s')"
  shows "drained {(c, rem_remote conn)} s s' \<and> rem_remote conn' = rem_remote conn"
  using pop_conn_drained[OF assms(2)] send_data_remote[OF assms(1)] by simp

lemma broadcast_inv: "node_inv s \<Longrightarrow> broadcast E k m s = Inr s' \<Longrightarrow> node_inv s'"
  unfolding broadcast_def
  by (elim all_conns_inv[rotated, THEN conjunct1]) (auto simp: res_bind_Inr_iff dest: send_step_drained)

lemma node_shutdown_inv: "node_inv s \<Longrightarrow> node_shutdown E k s = Inr s' \<Longrightarrow> node_inv s'"
  unfolding node_shutdown_def
  by (elim all_conns_inv[rotated, THEN conjunct1]) (auto dest: pop_conn_drained)

lemma conn_peer_get: "hm_get (nn_conns s) c = Some conn \<Longrightarrow> conn_peer s c = Some (rem_remote conn)"
  by (simp add: conn_peer_def)

lemma node_send_inv:
  assumes "node_inv s" "node_send E k n m s = Inr (r, s')"
  shows "node_inv s'"
proof (cases "hm_get (nn_nodes s) n")
  case (Some c)
  show ?thesis
  proof (cases "hm_get (nn_conns s) c")
    case (Some conn)
    obtain a conn1 where sd: "send_data (nd_rtc E) (nd_encode E m) conn = Inr (a, conn1)"
      using assms(2) \<open>hm_get (nn_nodes s) n = Some c\<close> Some by (auto simp: node_send_def Let_def res_bind_Inr_iff)
    have a: "a = Some (length (nd_encode E m))" using sd by (auto simp: send_data_def res_bind_Inr_iff)
    obtain conn' s1 where pc: "pop_conn E k c conn1 s = Inr (conn', s1)" and s': "s' = s1\<lparr>nn_conns := hm_insert c conn' (nn_conns s1)\<rparr>"
      using assms(2) \<open>hm_get (nn_nodes s) n = Some c\<close> Some sd a by (auto simp: node_send_def Let_def res_bind_Inr_iff)
    show ?thesis using node_inv_drain[OF assms(1) conn_peer_get[OF Some]] send_step_drained[OF sd pc] by (simp add: s')
  qed (use assms Some in \<open>simp add: node_send_def\<close>)
qed (use assms in \<open>simp add: node_send_def\<close>)

text \<open>A new connection with the peer's entry in the table.\<close>

lemma node_inv_new_conn:
  assumes "node_inv s" "id_unused c s" "drained {(c, n)} s s'" "rem_remote conn = n"
  shows "node_inv (s'\<lparr>nn_conns := hm_insert c conn (nn_conns s'), nn_nodes := hm_insert n c (nn_nodes s')\<rparr>)"
proof -
  let ?s = "s'\<lparr>nn_conns := hm_insert c conn (nn_conns s'), nn_nodes := hm_insert n c (nn_nodes s')\<rparr>"
  have p: "conn_peer ?s c' = (if c' = c then Some n else conn_peer s c')" for c'
    using assms(3,4) by (simp add: conn_peer_def hm_get_insert drained_def)
  obtain evs where evs: "nn_events s' = nn_events s @ evs" "\<forall>ev \<in> set evs. (ev_conn ev, ev_node ev) = (c, n)"
    and eq: "nn_conns s' = nn_conns s" "nn_nodes s' = nn_nodes s"
    using assms(3) by (auto simp: drained_def)
  have none: "conn_peer s c = None" using assms(2) by (simp add: id_unused_def conn_peer_def hm_dom_get)
  have nodes: "conn_peer ?s d = Some m" if "hm_get (nn_nodes ?s) m = Some d" for m d
    using that assms(1) none unfolding p by (cases "m = n") (auto simp: hm_get_insert eq node_inv_def)
  have events: "conn_peer ?s (ev_conn ev) \<in> {None, Some (ev_node ev)}" if "ev \<in> set (nn_events ?s)" for ev
  proof (cases "ev \<in> set evs")
    case False
    then have "ev \<in> set (nn_events s)" using that evs(1) by simp
    moreover from this have "ev_conn ev \<noteq> c" using assms(2) by (auto simp: id_unused_def)
    ultimately show ?thesis using assms(1) p by (simp add: node_inv_def)
  qed (use evs(2) p in auto)
  have "hm_wf (nn_conns ?s)" using assms(1) by (simp add: eq node_inv_def)
  with nodes events show ?thesis unfolding node_inv_def by blast
qed

lemma node_inv_parts [simp]:
  "node_inv (s\<lparr>nn_shared := sh\<rparr>) = node_inv s" "node_inv (s\<lparr>nn_public_addr := pa\<rparr>) = node_inv s"
  "node_inv (s\<lparr>nn_last_sent_stun := t, nn_udp := u\<rparr>) = node_inv s"
  by (simp_all add: node_inv_def conn_peer_def)

lemma id_unused_parts [simp]:
  "id_unused c (s\<lparr>nn_shared := sh\<rparr>) = id_unused c s" "id_unused c (s\<lparr>nn_nodes := ns\<rparr>) = id_unused c s"
  by (simp_all add: id_unused_def)

lemma on_offer_inv:
  assumes "node_inv s" "c \<notin> hm_dom (nn_conns s) \<Longrightarrow> id_unused c s" "on_offer E k rtc uf c n off s = Inr (r, s')"
  shows "node_inv s'"
proof (cases "hm_contains (nn_conns s) c")
  case False
  then have u: "id_unused c s" using assms(2) by (simp add: hm_dom_contains)
  let ?s = "s\<lparr>nn_shared := add_ufrag uf c (nn_shared s)\<rparr>"
  obtain conn where new: "remote_conn_new (nd_rtc E) n [(nn_local s, nn_public_addr s)] rtc = Inr conn"
    using assms(3) False by (auto simp: on_offer_def res_bind_Inr_iff)
  obtain ans conn1 where acc: "accept_offer (nd_rtc E) off conn = (ans, conn1)" by (cases "accept_offer (nd_rtc E) off conn")
  have r1: "rem_remote conn1 = n" using simple_remote(4)[of "nd_rtc E" off conn] remote_conn_new_remote[OF new] by (simp add: acc)
  show ?thesis
  proof (cases ans)
    case None
    then show ?thesis using assms(1,3) False new acc by (auto simp: on_offer_def)
  next
    case (Some a)
    then obtain conn2 s2 where pc: "pop_conn E k c conn1 ?s = Inr (conn2, s2)"
      and s': "s' = s2\<lparr>nn_conns := hm_insert c conn2 (nn_conns s2), nn_nodes := hm_insert n c (nn_nodes s2)\<rparr>"
      using assms(3) False new acc by (auto simp: on_offer_def res_bind_Inr_iff)
    show ?thesis unfolding s'
      by (rule node_inv_new_conn[of ?s]) (use assms(1) u pop_conn_drained[OF pc] r1 in simp_all)
  qed
qed (use assms(1,3) in \<open>simp add: on_offer_def\<close>)

lemma connect_inv:
  assumes "node_inv s" "id_unused c s" "connect E k c rtc uf n s = Inr (r, s')"
  shows "node_inv s'"
proof (cases "hm_contains (nn_nodes s) n")
  case False
  let ?s1 = "s\<lparr>nn_shared := add_ufrag uf c (nn_shared s)\<rparr>"
  let ?s = "s\<lparr>nn_nodes := hm_insert n c (nn_nodes s), nn_shared := add_ufrag uf c (nn_shared s)\<rparr>"
  obtain conn off conn1 conn2 s2 where new: "remote_conn_new (nd_rtc E) n [(nn_local s, nn_public_addr s)] rtc = Inr conn"
    and co: "create_offer (nd_rtc E) conn = Inr (off, conn1)" and pc: "pop_conn E k c conn1 ?s = Inr (conn2, s2)"
    and s': "s' = s2\<lparr>nn_conns := hm_insert c conn2 (nn_conns s2)\<rparr>"
    using assms(3) False by (auto simp: connect_def Let_def res_bind_Inr_iff)
  have r: "rem_remote conn1 = n" using create_offer_remote[OF co] remote_conn_new_remote[OF new] by simp
  have d: "drained {(c, n)} ?s s2" "rem_remote conn2 = n" using pop_conn_drained[OF pc] r by auto
  let ?t = "s2\<lparr>nn_nodes := nn_nodes s\<rparr>"
  have "drained {(c, n)} ?s1 ?t" using d(1) by (auto simp: drained_def)
  from node_inv_new_conn[OF _ _ this d(2)] assms(1,2)
  have "node_inv (?t\<lparr>nn_conns := hm_insert c conn2 (nn_conns ?t), nn_nodes := hm_insert n c (nn_nodes ?t)\<rparr>)" by simp
  moreover have "?t\<lparr>nn_conns := hm_insert c conn2 (nn_conns ?t), nn_nodes := hm_insert n c (nn_nodes ?t)\<rparr> = s'"
    using d(1) by (simp add: s' drained_def)
  ultimately show ?thesis by simp
qed (use assms(1,3) in \<open>simp add: connect_def\<close>)

lemma on_answer_inv:
  assumes "node_inv s" "on_answer E k c n ans s = Inr (r, s')"
  shows "node_inv s'"
proof (cases "hm_get (nn_conns s) c")
  case (Some conn)
  obtain u conn1 where a: "conn_on_answer (nd_rtc E) ans conn = (u, conn1)" by (cases "conn_on_answer (nd_rtc E) ans conn")
  have r: "rem_remote conn1 = rem_remote conn" using simple_remote(3)[of "nd_rtc E" ans conn] by (simp add: a)
  note inv = node_inv_drain[OF assms(1) conn_peer_get[OF Some]]
  show ?thesis
  proof (cases "rem_remote conn = n \<and> u \<noteq> None")
    case True
    then obtain conn2 s2 where pc: "pop_conn E k c conn1 s = Inr (conn2, s2)" and s': "s' = s2\<lparr>nn_conns := hm_insert c conn2 (nn_conns s2)\<rparr>"
      using assms(2) Some a by (auto simp: on_answer_def res_bind_Inr_iff)
    show ?thesis using inv pop_conn_drained[OF pc] r by (simp add: s')
  next
    case False
    then show ?thesis using assms(1,2) Some a r inv[OF drained_refl, of conn1]
      by (cases u) (auto simp: on_answer_def split: if_splits)
  qed
qed (use assms in \<open>simp add: on_answer_def\<close>)

lemma on_packet_inv:
  assumes "node_inv s" "on_packet E k now a buf s = Inr s'"
  shows "node_inv s'"
proof (cases "a \<in> set (nn_stun_servers s)")
  case False
  obtain t sh where m: "map_remote (nd_parse E) (nd_split_username E) a buf (nn_shared s) = (t, sh)"
    by (cases "map_remote (nd_parse E) (nd_split_username E) a buf (nn_shared s)")
  let ?s = "s\<lparr>nn_shared := sh\<rparr>"
  show ?thesis
  proof (cases "t = None \<or> hm_get (nn_conns s) (the t) = None")
    case True
    then show ?thesis using assms False m by (cases t) (auto simp: on_packet_def Let_def)
  next
    case known: False
    then obtain c conn where c: "t = Some c" "hm_get (nn_conns s) c = Some conn" by auto
    let ?conn = "snd (on_data (nd_rtc E) now a (nn_local s) buf conn)"
    obtain conn2 s2 where pc: "pop_conn E k c ?conn ?s = Inr (conn2, s2)" and s': "s' = s2\<lparr>nn_conns := hm_insert c conn2 (nn_conns s2)\<rparr>"
      using assms(2) False m c by (auto simp: on_packet_def res_bind_Inr_iff)
    have "conn_peer ?s c = Some (rem_remote conn)" using c(2) by (simp add: conn_peer_def)
    then show ?thesis using node_inv_drain[of ?s c] assms(1) pop_conn_drained[OF pc] by (simp add: s')
  qed
qed (use assms in \<open>auto simp: on_packet_def split: sum.splits\<close>)

lemma on_ticked_inv:
  assumes "node_inv s" "on_ticked E k now s = Inr s'"
  shows "node_inv s'"
proof -
  obtain s1 where t: "node_tick E k now s = Inr s1" using assms(2) by (auto simp: on_ticked_def res_bind_Inr_iff)
  obtain ok sent where r: "send_stun_request E (nn_local s1) (nn_stun_servers s1) = (ok, sent)"
    by (cases "send_stun_request E (nn_local s1) (nn_stun_servers s1)")
  have "node_inv s1" using node_tick_inv[OF assms(1) t] .
  then show ?thesis using assms(2) t r by (cases ok) (auto simp: on_ticked_def split: if_splits)
qed

lemma take_event_inv:
  assumes "node_inv s" "nn_events s = ev # q"
  shows "node_inv (take_event ev (s\<lparr>nn_events := q\<rparr>))"
proof (cases ev)
  case (NodeDisconnected c n)
  let ?s = "take_event ev (s\<lparr>nn_events := q\<rparr>)"
  have p: "conn_peer ?s d = (if d = c then None else conn_peer s d)" for d
    by (simp add: NodeDisconnected take_event_def conn_peer_def hm_get_remove)
  have c: "conn_peer s c \<in> {None, Some n}" using assms by (simp add: node_inv_def NodeDisconnected)
  have "conn_peer ?s d = Some m" if "hm_get (nn_nodes ?s) m = Some d" for m d
    using that assms(1) c unfolding p by (auto simp: NodeDisconnected take_event_def hm_get_remove node_inv_def split: if_splits)
  moreover have "conn_peer ?s (ev_conn e) \<in> {None, Some (ev_node e)}" if "e \<in> set (nn_events ?s)" for e
    using that assms unfolding p by (auto simp: NodeDisconnected take_event_def node_inv_def)
  moreover have "hm_wf (nn_conns ?s)" using assms(1) by (simp add: NodeDisconnected take_event_def node_inv_def)
  ultimately show ?thesis unfolding node_inv_def by blast
qed (use assms in \<open>simp_all add: take_event_def node_inv_def conn_peer_def\<close>)

lemma node_recv_inv:
  assumes "node_inv s" "node_recv E k is s = Inr (ev, rest, s')"
  shows "node_inv s'"
  using assms
proof (induction "is" arbitrary: s)
  case Nil
  then show ?case
    by (cases "nn_events s") (auto simp: node_recv.simps dest: take_event_inv)
next
  case (Cons i "is")
  show ?case
  proof (cases "nn_events s")
    case Nil
    then show ?thesis
      using Cons.prems by (cases i) (auto simp: node_recv.simps[of _ _ "_ # _"] res_bind_Inr_iff, (metis Cons.IH on_ticked_inv on_packet_inv)+)
  next
    case ev: (Cons e q)
    then show ?thesis using Cons.prems take_event_inv[OF Cons.prems(1) ev] by (simp add: node_recv.simps)
  qed
qed

section \<open>Runs of a node\<close>

datatype ('a, 'r, 'm) node_call =
    CallSend node_id 'm
  | CallBroadcast 'm
  | CallConnect conn_id 'r string node_id
  | CallOffer 'r string conn_id node_id string
  | CallAnswer conn_id node_id string
  | CallRecv "'a node_input list"
  | CallShutdown

fun node_exec ::
  "('a, 'r, 'p, 'm) node_env \<Rightarrow> nat \<Rightarrow> ('a, 'r, 'm) node_call \<Rightarrow> ('a, 'r, 'p, 'm) network_node \<Rightarrow> ('a, 'r, 'p, 'm) network_node res" where
  "node_exec E k (CallSend n m) s = res_bind (node_send E k n m s) (\<lambda>(_, s). Inr s)"
| "node_exec E k (CallBroadcast m) s = broadcast E k m s"
| "node_exec E k (CallConnect c rtc uf n) s = res_bind (connect E k c rtc uf n s) (\<lambda>(_, s). Inr s)"
| "node_exec E k (CallOffer rtc uf c n off) s = res_bind (on_offer E k rtc uf c n off s) (\<lambda>(_, s). Inr s)"
| "node_exec E k (CallAnswer c n ans) s = res_bind (on_answer E k c n ans s) (\<lambda>(_, s). Inr s)"
| "node_exec E k (CallRecv is) s = res_bind (node_recv E k is s) (\<lambda>(_, _, s). Inr s)"
| "node_exec E k CallShutdown s = node_shutdown E k s"

fun fresh_call :: "('a, 'r, 'm) node_call \<Rightarrow> ('a, 'r, 'p, 'm) network_node \<Rightarrow> bool" where
  "fresh_call (CallConnect c _ _ _) s \<longleftrightarrow> id_unused c s"
| "fresh_call (CallOffer _ _ c _ _) s \<longleftrightarrow> c \<in> hm_dom (nn_conns s) \<or> id_unused c s"
| "fresh_call _ s \<longleftrightarrow> True"

inductive node_reach ::
  "('a, 'r, 'p, 'm) node_env \<Rightarrow> ('a, 'r, 'p, 'm) network_node \<Rightarrow> ('a, 'r, 'p, 'm) network_node \<Rightarrow> bool" for E s0 where
  start: "node_reach E s0 s0"
| call: "node_reach E s0 s \<Longrightarrow> fresh_call c s \<Longrightarrow> node_exec E k c s = Inr s' \<Longrightarrow> node_reach E s0 s'"

lemma node_exec_inv: "node_inv s \<Longrightarrow> fresh_call c s \<Longrightarrow> node_exec E k c s = Inr s' \<Longrightarrow> node_inv s'"
  by (cases c) (auto simp: res_bind_Inr_iff intro: node_send_inv broadcast_inv connect_inv on_offer_inv on_answer_inv node_recv_inv node_shutdown_inv)

lemma node_reach_inv: "node_reach E s0 s \<Longrightarrow> node_inv s0 \<Longrightarrow> node_inv s"
  by (induction rule: node_reach.induct) (auto intro: node_exec_inv)

text \<open>
  C10. In every reachable state of a node the table of peers and the connections agree: an entry
  leads to a connection with that peer, every queued event about an existing connection names
  the peer of that connection, and so \<open>send\<close> never fails for want of a connection. Connection
  ids are taken not to be used again while a connection or a queued event has them.
\<close>

theorem peers_have_connections:
  assumes "node_reach E (nn_new node loc stun pub now) s"
  shows "(\<forall>n c. hm_get (nn_nodes s) n = Some c \<longrightarrow> (\<exists>conn. hm_get (nn_conns s) c = Some conn \<and> rem_remote conn = n)) \<and>
    (\<forall>ev \<in> set (nn_events s). \<forall>conn. hm_get (nn_conns s) (ev_conn ev) = Some conn \<longrightarrow> rem_remote conn = ev_node ev) \<and>
    (\<forall>k n m s'. node_send E k n m s \<noteq> Inr (Inl NoConnection, s'))"
proof -
  have inv: "node_inv s" using node_reach_inv[OF assms node_inv_new] .
  have 1: "\<exists>conn. hm_get (nn_conns s) c = Some conn \<and> rem_remote conn = n" if "hm_get (nn_nodes s) n = Some c" for n c
    using inv that by (auto simp: node_inv_def conn_peer_def)
  have "rem_remote conn = ev_node ev" if "ev \<in> set (nn_events s)" "hm_get (nn_conns s) (ev_conn ev) = Some conn" for ev conn
    using inv that by (auto simp: node_inv_def conn_peer_def)
  moreover have "node_send E k n m s \<noteq> Inr (Inl NoConnection, s')" for k n m s'
    using 1[of n] by (cases "hm_get (nn_nodes s) n") (auto simp: node_send_def Let_def res_bind_Inr_iff split: option.splits)
  ultimately show ?thesis using 1 by blast
qed

section \<open>Draining ends\<close>

lemma pop_conn_total:
  assumes "writes_ok (nd_rtc E)" "settles (nd_rtc E) pot K" "potential pot K conn < k"
  shows "\<exists>conn' s'. pop_conn E k c conn s = Inr (conn', s') \<and> rem_queue conn' = []"
  using assms(3)
proof (induction k arbitrary: conn s)
  case (Suc k)
  obtain out conn1 where po: "pop_outgoing (nd_rtc E) (Suc k) conn = Inr (out, conn1)" "out \<noteq> None \<longrightarrow> potential pot K conn1 < potential pot K conn"
    using pop_outgoing_total[OF assms(1,2) Suc.prems] by blast
  show ?case
  proof (cases out)
    case None
    then show ?thesis using po pop_outgoing_None by simp
  next
    case (Some out')
    then have "potential pot K conn1 < k" using po(2) Suc.prems by simp
    from Suc.IH[OF this] show ?thesis using po(1) Some by simp
  qed
qed simp

lemma pop_conn_mono:
  assumes "pop_conn E k c conn s = Inr r"
  shows "pop_conn E (k + d) c conn s = Inr r"
  using assms
proof (induction k arbitrary: conn s)
  case (Suc k)
  obtain out conn1 where po: "pop_outgoing (nd_rtc E) (Suc k) conn = Inr (out, conn1)"
    using Suc.prems by (auto simp: res_bind_Inr_iff)
  have "pop_outgoing (nd_rtc E) (Suc k + d) conn = Inr (out, conn1)" using pop_outgoing_mono[of "nd_rtc E" "Suc k" conn d] po by simp
  then show ?case using Suc.prems Suc.IH po by (cases out) simp_all
qed simp

lemma pop_conn_pending: "pop_conn E k c conn s = Inr (conn', s') \<Longrightarrow> rem_pending conn' = rem_pending conn"
proof (induction k arbitrary: conn s)
  case (Suc k)
  from Suc.prems show ?case
    by (auto split: prod.split_asm option.split_asm dest!: Suc.IH pop_outgoing_pending elim!: res_bind_InrE)
qed simp

text \<open>So a settling engine has one result for all the fuel above its bound.\<close>

lemma pop_conn_settled:
  assumes "writes_ok (nd_rtc E)" "settles (nd_rtc E) pot K"
  obtains conn' s' where "\<forall>k > potential pot K conn. pop_conn E k c conn s = Inr (conn', s')"
    "drained {(c, rem_remote conn)} s s'" "rem_remote conn' = rem_remote conn" "rem_pending conn' = rem_pending conn"
proof -
  let ?k = "Suc (potential pot K conn)"
  obtain conn' s' where r: "pop_conn E ?k c conn s = Inr (conn', s')"
    using pop_conn_total[OF assms, of conn ?k] by blast
  have "pop_conn E k c conn s = Inr (conn', s')" if "potential pot K conn < k" for k
    using pop_conn_mono[OF r, of "k - ?k"] that by simp
  then show thesis using that pop_conn_drained[OF r] pop_conn_pending[OF r] by (metis (no_types, lifting))
qed


text \<open>A node on the scripted engine.\<close>

definition demo_buf :: buf_cfg where
  "demo_buf = \<lparr>CHUNK_SIZE = 4096, AIR_LIMIT = 150000, bincode_serialize = \<lambda>_. [], bincode_deserialize = \<lambda>_. None, bincode_serialized_size = \<lambda>_. 0\<rparr>"

definition demo_node_env :: "(nat, nat rtc_output list, unit, bytes) node_env" where
  "demo_node_env = \<lparr>nd_rtc = script_rtc demo_buf, nd_encode = id, nd_decode = Some, nd_parse = \<lambda>_. None, nd_split_username = \<lambda>_. None,
     nd_is_ipv4 = \<lambda>_. True, nd_stun_request = [], nd_stun_decode = \<lambda>_. None, nd_send_ok = \<lambda>_. True\<rparr>"

definition demo_node :: "(nat, nat rtc_output list, unit, bytes) network_node" where
  "demo_node = nn_new ''a'' 1 [] None 0"

text \<open>A connection whose channel opens and is then closed by the peer.\<close>

definition demo_script :: "nat rtc_output list" where
  "demo_script = [OutTransmit 1 2 [7], OutEvent (ChannelOpen 0 ''data''), OutEvent (ChannelClose 0)]"

definition demo_conn :: "(nat, nat rtc_output list, unit) remote_conn" where
  "demo_conn = \<lparr>rem_remote = ''b'', rem_rtc = demo_script, rem_pending = None, rem_queue = [], rem_channel = None, rem_timeout = None, rem_buffer = cb_default\<rparr>"


lemma demo_connect_run:
  "case connect demo_node_env 9 5 demo_script ''u'' ''b'' demo_node of
     Inr (Some (c, offer), s) \<Rightarrow> c = 5 \<and> offer = ''offer'' \<and> hm_get (nn_nodes s) ''b'' = Some 5 \<and>
       nn_events s = [NodeConnected 5 ''b'', NodeDisconnected 5 ''b''] \<and> nn_udp s = [(2, [7])]
   | _ \<Rightarrow> False"
  by code_simp

lemma demo_connect:
  "\<exists>s. connect demo_node_env 9 5 demo_script ''u'' ''b'' demo_node = Inr (Some (5, ''offer''), s) \<and>
    hm_get (nn_nodes s) ''b'' = Some 5 \<and> nn_events s = [NodeConnected 5 ''b'', NodeDisconnected 5 ''b'']"
  using demo_connect_run by (auto split: sum.splits prod.splits option.splits)

theorem peers_have_connections_witness:
  "\<exists>s. hm_get (nn_nodes s) ''b'' = Some 5 \<and> node_reach demo_node_env (nn_new ''a'' 1 [] None 0) s \<and>
    (\<exists>conn. hm_get (nn_conns s) 5 = Some conn \<and> rem_remote conn = ''b'')"
proof -
  obtain s where s: "connect demo_node_env 9 5 demo_script ''u'' ''b'' demo_node = Inr (Some (5, ''offer''), s)" "hm_get (nn_nodes s) ''b'' = Some 5"
    using demo_connect by blast
  have "node_exec demo_node_env 9 (CallConnect 5 demo_script ''u'' ''b'') demo_node = Inr s" using s(1) by simp
  moreover have "fresh_call (CallConnect 5 demo_script ''u'' ''b'') demo_node" by (simp add: demo_node_def nn_new_def id_unused_def)
  ultimately have r: "node_reach demo_node_env (nn_new ''a'' 1 [] None 0) s" using node_reach.intros unfolding demo_node_def by metis
  show ?thesis using peers_have_connections[OF r] s(2) r by blast
qed

section \<open>What the table forgets\<close>

text \<open>
  A peer that connects again has two connections until the old one is closed; the event that
  closes the old one removes the peer from the table although the new one is there: the
  node can no longer send to it.
\<close>

lemma stale_disconnect_forgets_peer:
  assumes "nn_events s = NodeDisconnected old n # q" "hm_get (nn_nodes s) n = Some new" "new \<noteq> old" "hm_get (nn_conns s) new = Some conn"
  shows "\<exists>s'. node_recv E k is s = Inr (Some (NodeDisconnected old n), is, s') \<and> hm_get (nn_conns s') new = Some conn \<and>
    node_send E k' n m s' = Inr (Inl NoNode, s')"
  using assms by (simp add: node_recv.simps take_event_def node_send_def hm_get_remove)

text \<open>A rejected offer leaves its credentials in the demultiplexer.\<close>

lemma rejected_offer_leaves_ufrag:
  assumes "\<not> hm_contains (nn_conns s) c" "remote_conn_new (nd_rtc E) n [(nn_local s, nn_public_addr s)] rtc = Inr conn"
    "accept_offer (nd_rtc E) off conn = (None, conn')"
  shows "\<exists>s'. on_offer E k rtc uf c n off s = Inr (Inl SdpError, s') \<and> hm_get (task_ufrags (nn_shared s')) uf = Some c \<and>
    \<not> hm_contains (nn_conns s') c"
  using assms by (simp add: on_offer_def add_ufrag_def hm_get_insert)

end
