(* ===== verification/Communication.thy ===== *)
theory Communication
  imports Network_Node Registry_Client Rpc Model_Service
begin

text \<open>
  The main loop of a worker: \<open>WorkerCommunication\<close> of \<^verbatim>\<open>crates/worker/src/communication.rs\<close>
  and the \<open>WorkerRunner\<close> of \<^verbatim>\<open>lib.rs\<close> around it. It ties the registry client, the peer
  network, the routing table, the RPC queue and the model service together.

  \<open>tokio::select!\<close> runs the branch of one source that is ready. \<open>comm_input\<close> is such a choice
  with what the source delivers, \<open>comm_step\<close> the branch; its first result is \<open>False\<close> when
  the branch leaves \<open>recv\<close> with \<open>None\<close>. Requests of peers run in tasks of their own:
  \<open>wc_tasks\<close> are the ones that are running, and \<open>TaskDone\<close> is the end of one. A task that
  panics ends without a response and without any effect on the loop.

  The routing table is shared with the model service: it is \<open>ms_router\<close> of \<open>wc_service\<close>.
\<close>

section \<open>State\<close>

text \<open>The message of the peer network: an event with an optional body.\<close>

type_synonym peer_msg = "worker_event option"

record ('a, 'r, 'p, 'l, 'u) worker_communication =
  wc_registry :: registry_client
  wc_written :: "to_registry_event list"
  wc_network :: "('a, 'r, 'p, peer_msg) network_node"
  wc_service :: "('l, 'u) model_service"
  wc_rpc :: rpc_client_rx
  wc_res :: "(node_id \<times> rpc_res) list"
  wc_tasks :: "(node_id \<times> rpc_req) list"

record ('a, 'r, 'p, 't, 'l, 'u) comm_env =
  ce_node :: "('a, 'r, 'p, peer_msg) node_env"
  ce_fuel :: nat
  ce_service :: "('t, 'l, 'u) ms_env"
  ce_write_ok :: "to_registry_event \<Rightarrow> bool"
  ce_alive :: "oneshot \<Rightarrow> bool"

text \<open>What a new connection draws at random: its id, the engine with its credentials and their user name.\<close>

type_synonym 'r fresh_conn = "conn_id \<times> 'r \<times> string"

definition comm_new ::
  "('l, 'u) model_service \<Rightarrow> ('a, 'r, 'p, peer_msg) network_node \<Rightarrow> rpc_client_rx \<Rightarrow> u32_range \<Rightarrow> ('a, 'r, 'p, 'l, 'u) worker_communication" where
  "comm_new service network rpc rng =
     \<lparr>wc_registry = rc_update_layer rng rc_new, wc_written = [], wc_network = network, wc_service = service,
      wc_rpc = rpc, wc_res = [], wc_tasks = []\<rparr>"

text \<open>\<open>WorkerRunner::new\<close>: the routing table of the range, the RPC queue and the service around them.\<close>

definition runner_new ::
  "nat \<Rightarrow> u32_range \<Rightarrow> 'l \<Rightarrow> 'u \<Rightarrow> ('a, 'r, 'p, peer_msg) network_node \<Rightarrow> ('a, 'r, 'p, 'l, 'u) worker_communication" where
  "runner_new MODEL_LAYERS rng layers usage network =
     comm_new (ms_new layers (rt_new MODEL_LAYERS rng) usage) network create_rpc rng"

abbreviation wc_router :: "('a, 'r, 'p, 'l, 'u) worker_communication \<Rightarrow> node_id route_table" where
  "wc_router w \<equiv> ms_router (wc_service w)"

definition set_router :: "node_id route_table \<Rightarrow> ('a, 'r, 'p, 'l, 'u) worker_communication \<Rightarrow> ('a, 'r, 'p, 'l, 'u) worker_communication" where
  "set_router r w = w\<lparr>wc_service := (wc_service w)\<lparr>ms_router := r\<rparr>\<rparr>"

definition comm_ready :: "('a, 'r, 'p, 'l, 'u) worker_communication \<Rightarrow> bool res" where
  "comm_ready w = ready (wc_router w)"

definition comm_peers :: "('a, 'r, 'p, 'l, 'u) worker_communication \<Rightarrow> node_id list" where
  "comm_peers w = node_peers (wc_network w)"

definition comm_sessions :: "('a, 'r, 'p, 'l, 'u) worker_communication \<Rightarrow> u64 list" where
  "comm_sessions w = ms_session_ids (wc_service w)"

definition route_for :: "('a, 'r, 'p, 'l, 'u) worker_communication \<Rightarrow> u32 \<Rightarrow> node_id route_path option res" where
  "route_for w next_layer = select_next (wc_router w) next_layer"

section \<open>The branches\<close>

definition send_to ::
  "('a, 'r, 'p, 't, 'l, 'u) comm_env \<Rightarrow> node_id \<Rightarrow> peer_msg \<Rightarrow> ('a, 'r, 'p, 'l, 'u) worker_communication \<Rightarrow>
    ((send_error + unit) \<times> ('a, 'r, 'p, 'l, 'u) worker_communication) res" where
  "send_to C dest msg w = res_bind (node_send (ce_node C) (ce_fuel C) dest msg (wc_network w)) (\<lambda>(r, net).
     Inr (map_sum id (\<lambda>_. ()) r, w\<lparr>wc_network := net\<rparr>))"

text \<open>The tick of the interval: statistics, route sync to every peer, expiry.\<close>

definition on_comm_tick ::
  "('a, 'r, 'p, 't, 'l, 'u) comm_env \<Rightarrow> u64 \<Rightarrow> u64 \<Rightarrow> ('a, 'r, 'p, 'l, 'u) worker_communication \<Rightarrow> ('a, 'r, 'p, 'l, 'u) worker_communication res" where
  "on_comm_tick C now_ms milis w =
     (let w = w\<lparr>wc_service := ms_tick (ce_service C) milis (wc_service w)\<rparr>;
          w = w\<lparr>wc_registry := rc_update_stats (ms_stats (wc_service w)) (wc_registry w)\<rparr>
      in res_bind (create_sync now_ms (wc_router w)) (\<lambda>sync_msg.
         res_bind (broadcast (ce_node C) (ce_fuel C) (Some (EvSyncReq (sync_req_from sync_msg))) (wc_network w)) (\<lambda>net.
         Inr (set_router (on_tick now_ms (wc_router w)) (w\<lparr>wc_network := net\<rparr>)))))"

text \<open>The text of an error that goes into the answer.\<close>

definition show_error :: "incoming_error \<Rightarrow> string" where
  "show_error e = (case e of RemoteNotFound \<Rightarrow> ''RemoteNotFound'' | SdpError \<Rightarrow> ''SdpError''
     | MaxConnection \<Rightarrow> ''MaxConnection'' | AlreadyHas \<Rightarrow> ''AlreadyHas'')"

text \<open>New neighbours are connected to one after the other; each has its own random supply.\<close>

fun on_neighbours ::
  "('a, 'r, 'p, 't, 'l, 'u) comm_env \<Rightarrow> (node_id \<times> 'r fresh_conn) list \<Rightarrow> ('a, 'r, 'p, 'l, 'u) worker_communication \<Rightarrow>
    ('a, 'r, 'p, 'l, 'u) worker_communication res" where
  "on_neighbours C [] w = Inr w"
| "on_neighbours C ((node, conn_id, rtc, ufrag) # nodes) w =
     res_bind (connect (ce_node C) (ce_fuel C) conn_id rtc ufrag node (wc_network w)) (\<lambda>(r, net).
     let w = w\<lparr>wc_network := net\<rparr> in
     on_neighbours C nodes (case r of None \<Rightarrow> w
       | Some (conn, sdp) \<Rightarrow> w\<lparr>wc_registry := rc_offer node conn sdp (wc_registry w)\<rparr>))"

definition on_registry_event ::
  "('a, 'r, 'p, 't, 'l, 'u) comm_env \<Rightarrow> (nat \<Rightarrow> 'r fresh_conn) \<Rightarrow> rc_event \<Rightarrow> ('a, 'r, 'p, 'l, 'u) worker_communication \<Rightarrow>
    ('a, 'r, 'p, 'l, 'u) worker_communication res" where
  "on_registry_event C fresh ev w = (case ev of
       RcAnswer source conn answer \<Rightarrow>
         res_bind (on_answer (ce_node C) (ce_fuel C) conn source answer (wc_network w)) (\<lambda>(_, net). Inr (w\<lparr>wc_network := net\<rparr>))
     | RcOffer source conn offer \<Rightarrow> (case fresh 0 of (_, rtc, ufrag) \<Rightarrow>
         res_bind (on_offer (ce_node C) (ce_fuel C) rtc ufrag conn source offer (wc_network w)) (\<lambda>(answer, net).
         res_bind (rc_answer source conn (map_sum (\<lambda>e. AnswerRemote (show_error e)) id answer) (wc_registry w)) (\<lambda>registry.
         Inr (w\<lparr>wc_network := net, wc_registry := registry\<rparr>))))
     | RcNeighbours nodes \<Rightarrow> on_neighbours C (zip nodes (map fresh [0 ..< length nodes])) w)"

text \<open>\<open>registry_client.recv()\<close> writes what is queued and reads until an event; the event is unwrapped twice.\<close>

definition on_registry ::
  "('a, 'r, 'p, 't, 'l, 'u) comm_env \<Rightarrow> (nat \<Rightarrow> 'r fresh_conn) \<Rightarrow> read_result list \<Rightarrow> ('a, 'r, 'p, 'l, 'u) worker_communication \<Rightarrow>
    ('a, 'r, 'p, 'l, 'u) worker_communication res" where
  "on_registry C fresh reads w =
     res_bind (rc_recv (ce_write_ok C) reads (wc_registry w)) (\<lambda>(r, registry).
     let w = w\<lparr>wc_registry := registry, wc_written := wc_written w @ rcr_written r\<rparr> in
     case rcr_event r of
       None \<Rightarrow> Inl UnwrapOnNone
     | Some (Inl _) \<Rightarrow> Inl UnwrapOnErr
     | Some (Inr ev) \<Rightarrow> on_registry_event C fresh ev w)"

definition FAKE_RTT :: u32 where
  "FAKE_RTT = 50"

definition on_peer_msg ::
  "('a, 'r, 'p, 't, 'l, 'u) comm_env \<Rightarrow> node_id \<Rightarrow> peer_msg \<Rightarrow> ('a, 'r, 'p, 'l, 'u) worker_communication \<Rightarrow>
    (bool \<times> ('a, 'r, 'p, 'l, 'u) worker_communication) res" where
  "on_peer_msg C remote msg w = (case msg of
       None \<Rightarrow> Inr (False, w)
     | Some (EvSyncReq req) \<Rightarrow> Inr (True, set_router (apply_sync remote FAKE_RTT (route_sync_from req) (wc_router w)) w)
     | Some EvSyncRes \<Rightarrow> Inr (True, w)
     | Some (EvRpcReq req) \<Rightarrow> Inr (True, w\<lparr>wc_tasks := wc_tasks w @ [(remote, req)]\<rparr>)
     | Some (EvRpcRes res) \<Rightarrow> res_bind (rpc_on_res (ce_alive C) res (wc_rpc w)) (\<lambda>(rpc, _). Inr (True, w\<lparr>wc_rpc := rpc\<rparr>)))"

definition on_network_event ::
  "('a, 'r, 'p, 't, 'l, 'u) comm_env \<Rightarrow> peer_msg node_event option \<Rightarrow> ('a, 'r, 'p, 'l, 'u) worker_communication \<Rightarrow>
    (bool \<times> ('a, 'r, 'p, 'l, 'u) worker_communication) res" where
  "on_network_event C ev w = (case ev of
       None \<Rightarrow> Inr (False, w)
     | Some (NodeConnected _ _) \<Rightarrow> Inr (True, w)
     | Some (NodeStats _ _ _) \<Rightarrow> Inr (True, w)
     | Some (NodeMsg _ remote msg) \<Rightarrow> on_peer_msg C remote msg w
     | Some (NodeDisconnected _ node) \<Rightarrow> Inr (True, set_router (on_disconnected node (wc_router w)) w))"

text \<open>A request that cannot be sent is logged; its caller is not told.\<close>

definition on_rpc_out :: "('a, 'r, 'p, 't, 'l, 'u) comm_env \<Rightarrow> ('a, 'r, 'p, 'l, 'u) worker_communication \<Rightarrow> ('a, 'r, 'p, 'l, 'u) worker_communication res" where
  "on_rpc_out C w = (case rpc_recv (wc_rpc w) of
       None \<Rightarrow> Inr w
     | Some (rpc, dest, req) \<Rightarrow> res_bind (send_to C dest (Some (EvRpcReq req)) (w\<lparr>wc_rpc := rpc\<rparr>)) (\<lambda>(_, w). Inr w))"

definition on_res_out :: "('a, 'r, 'p, 't, 'l, 'u) comm_env \<Rightarrow> ('a, 'r, 'p, 'l, 'u) worker_communication \<Rightarrow> ('a, 'r, 'p, 'l, 'u) worker_communication res" where
  "on_res_out C w = (case pop_front (wc_res w) of
       None \<Rightarrow> Inr w
     | Some ((dest, res), rest) \<Rightarrow> res_bind (send_to C dest (Some (EvRpcRes res)) (w\<lparr>wc_res := rest\<rparr>)) (\<lambda>(_, w). Inr w))"

text \<open>
  The handler of a request, with the answers of the next hop: the \<open>ServiceHandler\<close> of the
  worker is its \<open>ModelService\<close>.
\<close>

record hop_answers =
  ha_session :: session
  ha_start :: "node_id \<Rightarrow> start_req \<Rightarrow> string + start_res"
  ha_forward :: "node_id \<Rightarrow> forward_req \<Rightarrow> string + forward_res"
  ha_end :: "node_id \<Rightarrow> end_req \<Rightarrow> string + end_res"

definition ms_handler ::
  "('t, 'l, 'u) ms_env \<Rightarrow> hop_answers \<Rightarrow> rpc_req \<Rightarrow> ('l, 'u) model_service \<Rightarrow> (rpc_res \<times> ('l, 'u) model_service) res" where
  "ms_handler env h = ms_on_req (e_codec env) (ms_start env (ha_session h) (ha_start h)) (ms_forward env (ha_forward h))
     (ms_end env (ha_end h)) more_net_in more_net_out"

definition on_task_done ::
  "('a, 'r, 'p, 't, 'l, 'u) comm_env \<Rightarrow> nat \<Rightarrow> hop_answers \<Rightarrow> ('a, 'r, 'p, 'l, 'u) worker_communication \<Rightarrow> ('a, 'r, 'p, 'l, 'u) worker_communication" where
  "on_task_done C i h w = (case vec_get (wc_tasks w) i of
       None \<Rightarrow> w
     | Some (remote, req) \<Rightarrow>
         let w = w\<lparr>wc_tasks := take i (wc_tasks w) @ drop (Suc i) (wc_tasks w)\<rparr> in
         (case ms_handler (ce_service C) h req (wc_service w) of
            Inl _ \<Rightarrow> w
          | Inr (res, service) \<Rightarrow> w\<lparr>wc_service := service, wc_res := push_back (wc_res w) (remote, res)\<rparr>))"

datatype ('a, 'r) comm_input =
    TickerTick u64 u64
  | RegistryRecv "nat \<Rightarrow> 'r fresh_conn" "read_result list"
  | NetworkRecv "'a node_input list"
  | RpcRecv
  | ResRecv

definition comm_step ::
  "('a, 'r, 'p, 't, 'l, 'u) comm_env \<Rightarrow> ('a, 'r) comm_input \<Rightarrow> ('a, 'r, 'p, 'l, 'u) worker_communication \<Rightarrow>
    (bool \<times> ('a, 'r, 'p, 'l, 'u) worker_communication) res" where
  "comm_step C i w = (case i of
       TickerTick now_ms milis \<Rightarrow> res_bind (on_comm_tick C now_ms milis w) (\<lambda>w. Inr (True, w))
     | RegistryRecv fresh reads \<Rightarrow> res_bind (on_registry C fresh reads w) (\<lambda>w. Inr (True, w))
     | NetworkRecv inputs \<Rightarrow> res_bind (node_recv (ce_node C) (ce_fuel C) inputs (wc_network w)) (\<lambda>(ev, _, net).
         on_network_event C ev (w\<lparr>wc_network := net\<rparr>))
     | RpcRecv \<Rightarrow> res_bind (on_rpc_out C w) (\<lambda>w. Inr (True, w))
     | ResRecv \<Rightarrow> res_bind (on_res_out C w) (\<lambda>w. Inr (True, w)))"

text \<open>\<open>recv\<close>: branches until one leaves it.\<close>

fun comm_recv ::
  "('a, 'r, 'p, 't, 'l, 'u) comm_env \<Rightarrow> ('a, 'r) comm_input list \<Rightarrow> ('a, 'r, 'p, 'l, 'u) worker_communication \<Rightarrow>
    (bool \<times> ('a, 'r, 'p, 'l, 'u) worker_communication) res" where
  "comm_recv C [] w = Inr (True, w)"
| "comm_recv C (i # is) w = res_bind (comm_step C i w) (\<lambda>(go_on, w). if go_on then comm_recv C is w else Inr (False, w))"

text \<open>\<open>shutdown\<close>; closing the stream of the registry is left to the stream.\<close>

definition comm_shutdown ::
  "('a, 'r, 'p, 't, 'l, 'u) comm_env \<Rightarrow> nat \<Rightarrow> 'a node_input list \<Rightarrow> ('a, 'r, 'p, 'l, 'u) worker_communication \<Rightarrow>
    ('a, 'r, 'p, 'l, 'u) worker_communication res" where
  "comm_shutdown C n inputs w =
     res_bind (node_shutdown (ce_node C) (ce_fuel C) (wc_network w)) (\<lambda>net.
     res_bind (drop_events (ce_node C) (ce_fuel C) n inputs net) (\<lambda>net. Inr (w\<lparr>wc_network := net\<rparr>)))"

section \<open>The routing table describes one model throughout\<close>

named_theorems router_kept "the service does not touch the routing table"

lemma run_hook_router [router_kept]: "run_hook h s = Inr (a, s') \<Longrightarrow> ms_router s' = ms_router s"
  by (auto simp: run_hook_def split: prod.split_asm elim!: res_bind_InrE)

lemma start_local_router [router_kept]: "start_local env i l s = Inr (a, s') \<Longrightarrow> ms_router s' = ms_router s"
  by (auto simp: start_local_def split: prod.split_asm option.split_asm sum.split_asm elim!: res_bind_InrE)

lemma start_finish_router [router_kept]: "start_finish env req ans s = Inr (a, s') \<Longrightarrow> ms_router s' = ms_router s"
  by (auto simp: start_finish_def Let_def dest: run_hook_router split: prod.split_asm elim!: res_bind_InrE)

lemma start_begin_router [router_kept]: "start_begin env rs req s = Inr (a, s') \<Longrightarrow> ms_router s' = ms_router s"
  by (auto simp: start_begin_def Let_def dest!: run_hook_router start_local_router start_finish_router
      split: option.split_asm sum.split_asm prod.split_asm if_split_asm elim!: res_bind_InrE)

lemma forward_local_router [router_kept]: "forward_local env req s = Inr (a, s') \<Longrightarrow> ms_router s' = ms_router s"
  by (auto simp: forward_local_def Let_def more_token_out_def split: prod.split_asm sum.split_asm elim!: res_bind_InrE)

lemma forward_answered_router [router_kept]: "forward_answered env c req ans s = Inr (a, s') \<Longrightarrow> ms_router s' = ms_router s"
  by (auto simp: forward_answered_def forward_finish_def Let_def more_net_in_def dest!: run_hook_router split: prod.split_asm elim!: res_bind_InrE)

lemma forward_begin_router [router_kept]:
  assumes "forward_begin env req s = Inr (a, s')"
  shows "ms_router s' = ms_router s"
proof (cases "get_clone (ms_sessions s) (freq_session req)")
  case (Some c)
  obtain hooked s1 where h: "run_hook (u_pre_forward (e_usage env) (sc_chat_id c) req) s = Inr (hooked, s1)"
    using assms Some by (auto simp: forward_begin_def split: prod.split_asm elim!: res_bind_InrE)
  then show ?thesis
    using assms Some run_hook_router[OF h]
    by (cases hooked) (auto simp: forward_begin_def forward_finish_def more_net_out_def
        dest!: run_hook_router forward_local_router split: option.split_asm prod.split_asm elim!: res_bind_InrE)
qed (use assms in \<open>simp add: forward_begin_def\<close>)

lemma end_begin_router [router_kept]: "end_begin env req s = Inr (a, s') \<Longrightarrow> ms_router s' = ms_router s"
  by (auto simp: end_begin_def end_local_def end_finish_def Let_def dest!: run_hook_router
      split: option.split_asm sum.split_asm prod.split_asm if_split_asm elim!: res_bind_InrE)

lemma ms_handler_router [router_kept]:
  assumes "ms_handler env h req s = Inr (res, s')"
  shows "ms_router s' = ms_router s"
proof -
  have start: "ms_router t' = ms_router t" if "ms_start env i a r t = Inr (x, t')" for i a r t x t'
    using that by (auto simp: ms_start_def dest!: start_begin_router start_finish_router split: prod.split_asm sum.split_asm elim!: res_bind_InrE)
  have forward: "ms_router t' = ms_router t" if "ms_forward env a r t = Inr (x, t')" for a r t x t'
    using that by (auto simp: ms_forward_def dest!: forward_begin_router forward_answered_router split: prod.split_asm sum.split_asm elim!: res_bind_InrE)
  have finish: "ms_router t' = ms_router t" if "ms_end env a r t = Inr (x, t')" for a r t x t'
    using that by (auto simp: ms_end_def end_finish_def Let_def dest!: end_begin_router run_hook_router split: prod.split_asm sum.split_asm elim!: res_bind_InrE)
  show ?thesis
    using assms by (auto simp: ms_handler_def ms_on_req_def Let_def more_net_in_def more_net_out_def
        dest!: start forward finish split: prod.split_asm if_split_asm elim!: res_bind_InrE)
qed

text \<open>Any sequence of branches and of ends of tasks.\<close>

datatype ('a, 'r) worker_ev = Branch "('a, 'r) comm_input" | TaskDone nat hop_answers

fun worker_step ::
  "('a, 'r, 'p, 't, 'l, 'u) comm_env \<Rightarrow> ('a, 'r) worker_ev \<Rightarrow> ('a, 'r, 'p, 'l, 'u) worker_communication \<Rightarrow>
    ('a, 'r, 'p, 'l, 'u) worker_communication res" where
  "worker_step C (Branch i) w = res_bind (comm_step C i w) (\<lambda>(_, w). Inr w)"
| "worker_step C (TaskDone i h) w = Inr (on_task_done C i h w)"

lemma on_neighbours_service: "on_neighbours C ns w = Inr w' \<Longrightarrow> wc_service w' = wc_service w"
proof (induction ns arbitrary: w)
  case (Cons n ns)
  obtain node conn_id rtc ufrag where n: "n = (node, conn_id, rtc, ufrag)" by (cases n)
  from Cons.prems show ?case
    by (auto simp: n Let_def split: prod.split_asm option.split_asm dest!: Cons.IH elim!: res_bind_InrE)
qed simp

lemma on_registry_service: "on_registry C fresh reads w = Inr w' \<Longrightarrow> wc_service w' = wc_service w"
  by (auto simp: on_registry_def on_registry_event_def Let_def dest!: on_neighbours_service
      split: prod.split_asm option.split_asm sum.split_asm rc_event.split_asm elim!: res_bind_InrE)

lemma send_to_service: "send_to C d m w = Inr (r, w') \<Longrightarrow> wc_service w' = wc_service w"
  by (auto simp: send_to_def split: prod.split_asm elim!: res_bind_InrE)

lemma out_service:
  "on_rpc_out C w = Inr w' \<Longrightarrow> wc_service w' = wc_service w"
  "on_res_out C w = Inr w' \<Longrightarrow> wc_service w' = wc_service w"
  by (auto simp: on_rpc_out_def on_res_out_def dest!: send_to_service split: option.split_asm prod.split_asm elim!: res_bind_InrE)

text \<open>A step changes the table by the operations of the table only.\<close>

lemma table_ops:
  "\<exists>ops. r = fold rt_step ops r"
  "\<exists>ops. on_tick t r = fold rt_step ops r"
  "\<exists>ops. on_disconnected n r = fold rt_step ops r"
  "\<exists>ops. apply_sync n rtt sync r = fold rt_step ops r"
  by (rule exI[of _ "[]"], simp, rule exI[of _ "[Tick t]"], simp, rule exI[of _ "[rt_op.Disconnected n]"], simp,
      rule exI[of _ "[Sync n rtt sync]"], simp)

lemma on_comm_tick_router: "on_comm_tick C now ms w = Inr w' \<Longrightarrow> \<exists>ops. wc_router w' = fold rt_step ops (wc_router w)"
  by (auto simp: on_comm_tick_def Let_def set_router_def ms_tick_def intro!: table_ops elim!: res_bind_InrE)

lemma on_network_event_router:
  "on_network_event C ev w = Inr (b, w') \<Longrightarrow> \<exists>ops. wc_router w' = fold rt_step ops (wc_router w)"
  by (auto simp: on_network_event_def on_peer_msg_def set_router_def intro!: table_ops
      split: option.split_asm node_event.split_asm worker_event.split_asm prod.split_asm elim!: res_bind_InrE)

lemma worker_step_router:
  assumes "worker_step C ev w = Inr w'"
  shows "\<exists>ops. wc_router w' = fold rt_step ops (wc_router w)"
proof (cases ev)
  case (Branch i)
  then show ?thesis using assms
    by (cases i)
      (auto simp: comm_step_def table_ops(1) dest!: on_comm_tick_router on_registry_service on_network_event_router out_service
        split: prod.split_asm elim!: res_bind_InrE)
next
  case (TaskDone i h)
  then have "wc_router w' = wc_router w" using assms
    by (auto simp: on_task_done_def Let_def dest!: ms_handler_router split: option.splits sum.splits prod.splits)
  then show ?thesis by (simp add: table_ops(1))
qed

lemma worker_step_ops:
  assumes "worker_step C ev w = Inr w'" "wc_router w = fold rt_step ops r"
  shows "\<exists>ops. wc_router w' = fold rt_step ops r"
proof -
  obtain ops' where "wc_router w' = fold rt_step ops' (wc_router w)" using worker_step_router[OF assms(1)] by blast
  then show ?thesis using assms(2) by (intro exI[of _ "ops @ ops'"]) simp
qed

interpretation worker: preserved "\<lambda>w w'. \<exists>ev. worker_step C ev w = Inr w'" "\<lambda>w. \<exists>ops. wc_router w = fold rt_step ops r" for C r
  by unfold_locales (auto intro: worker_step_ops)

lemma worker_run_router:
  assumes "res_foldM (worker_step C) evs w = Inr w'"
  shows "\<exists>ops. wc_router w' = fold rt_step ops (wc_router w)"
  by (rule worker.run_res[OF _ assms]) (auto intro: exI[of _ "[]"])

text \<open>
  C12. Whatever the registry, the peers and the requests do, the routing table of a worker stays
  well formed and keeps the model and the layers it was started with: every best entry is the
  cheapest of its layer, and announcing the routes at a tick never panics.
\<close>

theorem worker_routes_well_formed:
  assumes "res_foldM (worker_step C) evs (runner_new N rng layers usage net) = Inr w" "unat (rend rng) \<le> N" "N < 2 ^ 32"
  shows "rt_wf (wc_router w) \<and> model_layers (wc_router w) = N \<and> local_layers (wc_router w) = rng \<and>
    (\<forall>now. \<exists>sync. create_sync now (wc_router w) = Inr sync \<and> length (sync_layers sync) = N)"
proof -
  obtain ops where "wc_router w = fold rt_step ops (rt_new N rng)"
    using worker_run_router[OF assms(1)] by (auto simp: runner_new_def comm_new_def ms_new_def)
  then have wf: "rt_wf (wc_router w)" "model_layers (wc_router w) = N" "local_layers (wc_router w) = rng"
    using rt_run_frame[OF rt_wf_new, of ops N rng] by simp_all
  have "\<exists>sync. create_sync now (wc_router w) = Inr sync \<and> length (sync_layers sync) = N" for now
    using create_sync_total[of "wc_router w" now] create_sync_nth(1)[of now "wc_router w"] wf assms(2,3) by fastforce
  with wf show ?thesis by blast
qed

section \<open>Offers, requests and the end of the loop\<close>

text \<open>What the registry branch does with one message when everything queued can be written.\<close>

lemma registry_branch:
  assumes "\<forall>x \<in> set (rc_queue (wc_registry w)). ce_write_ok C x" "read_loop (m # reads) = Inr (Some (Inr ev), reads')"
  shows "comm_step C (RegistryRecv fresh (m # reads)) w =
    res_bind (on_registry_event C fresh ev (w\<lparr>wc_registry := (wc_registry w)\<lparr>rc_queue := []\<rparr>,
        wc_written := wc_written w @ rc_queue (wc_registry w)\<rparr>)) (\<lambda>w. Inr (True, w))"
  using assms by (simp add: comm_step_def on_registry_def rc_recv_def flush_queue_all)

text \<open>
  An offer that reaches a worker is answered through the registry under its connection id when
  the node accepts it; when the node rejects it, because the id is in use or the description
  is not understood, the worker panics instead of answering with the error.
\<close>

theorem offer_answered_or_fatal:
  assumes "\<forall>x \<in> set (rc_queue (wc_registry w)). ce_write_ok C x" "fresh 0 = (i, rtc, ufrag)"
    and "on_offer (ce_node C) (ce_fuel C) rtc ufrag conn source sdp (wc_network w) = Inr (answer, net)"
  shows "comm_step C (RegistryRecv fresh (Inr (Some (WkRelay source (Some (Some (RelayOffer conn sdp))))) # reads)) w =
    (case answer of
       Inl _ \<Rightarrow> Inl UnwrapOnErr
     | Inr ans \<Rightarrow> Inr (True, w\<lparr>wc_registry := \<lparr>rc_queue = [RegRelay source (Some (Some (RelayAnswer conn ans)))]\<rparr>,
         wc_written := wc_written w @ rc_queue (wc_registry w), wc_network := net\<rparr>))"
  using assms by (simp add: registry_branch[where ev = "RcOffer source conn sdp" and reads' = reads] on_registry_event_def rc_answer_def
      rc_push_def push_back_def split: sum.splits)

text \<open>So anyone who knows a connection id can stop the worker by offering it again.\<close>

lemma second_offer_stops_worker:
  assumes "\<forall>x \<in> set (rc_queue (wc_registry w)). ce_write_ok C x" "hm_contains (nn_conns (wc_network w)) conn"
  shows "comm_step C (RegistryRecv fresh (Inr (Some (WkRelay n (Some (Some (RelayOffer conn sdp))))) # reads)) w = Inl UnwrapOnErr"
proof (cases "fresh 0")
  case (fields i rtc ufrag)
  have "on_offer (ce_node C) (ce_fuel C) rtc ufrag conn n sdp (wc_network w) = Inr (Inl AlreadyHas, wc_network w)"
    using assms(2) by (simp add: on_offer_def)
  then show ?thesis using assms(1) fields
    by (simp add: registry_branch[where ev = "RcOffer n conn sdp" and reads' = reads] on_registry_event_def rc_answer_def)
qed

text \<open>The end of the registry connection, and any error on it, panics the worker.\<close>

lemma registry_loss_stops_worker:
  assumes "\<forall>x \<in> set (rc_queue (wc_registry w)). ce_write_ok C x"
  shows "comm_step C (RegistryRecv fresh []) w = Inl UnwrapOnNone" "comm_step C (RegistryRecv fresh (Inl e # reads)) w = Inl UnwrapOnErr"
  using assms by (simp_all add: comm_step_def on_registry_def rc_recv_def flush_queue_all)

text \<open>A ping or a text from the registry, or from a proxy in between, is such an error.\<close>

lemma ping_stops_worker:
  assumes "\<forall>x \<in> set (rc_queue (wc_registry w)). ce_write_ok C x"
  shows "comm_step C (RegistryRecv fresh (map (ps_read dec) (OtherFrame # frames))) w = Inl UnwrapOnErr"
  using registry_loss_stops_worker(2)[OF assms] by (simp add: ps_read_def)

text \<open>A peer stops the worker with a message that has no body.\<close>

lemma empty_message_stops_worker:
  assumes "nn_events (wc_network w) = NodeMsg c n None # q"
  shows "\<exists>w'. comm_step C (NetworkRecv is) w = Inr (False, w')"
  using assms by (simp add: comm_step_def node_recv.simps take_event_def on_network_event_def on_peer_msg_def)

text \<open>
  A request to a node that is not in the table is not sent and stays among the requests that
  wait for their response: the caller waits for ever.
\<close>

lemma undeliverable_request_waits:
  assumes "rpc_rx (wc_rpc w) = (dest, cmd, payload, tx) # rest" "hm_get (nn_nodes (wc_network w)) dest = None"
  shows "\<exists>w'. comm_step C RpcRecv w = Inr (True, w') \<and> wc_network w' = wc_network w \<and>
    hm_get (waits (wc_rpc w')) (seq_seed (wc_rpc w) + 1) = Some tx"
  using assms by (simp add: comm_step_def on_rpc_out_def rpc_recv_def send_to_def node_send_def hm_get_insert Let_def)

text \<open>A request whose payload does not decode ends its task without a response.\<close>

lemma undecodable_request_is_not_answered:
  assumes "wc_tasks w = (n, req) # ts" "rreq_cmd req = ''START''" "dec_start_req (e_codec (ce_service C)) (rreq_payload req) = None"
  shows "on_task_done C 0 h w = w\<lparr>wc_tasks := ts\<rparr>"
  using assms by (simp add: on_task_done_def vec_get_def ms_handler_def ms_on_req_def unwrap_decode_def)

end
