(* ===== verification/Signalling.thy ===== *)
theory Signalling
  imports Communication Registry_Server Layers_Workers
begin

text \<open>
  Two workers and the registry between them: how a connection comes about. A worker that hears
  of a neighbour makes an offer, the registry relays it, the neighbour answers, the registry
  relays the answer. The theorem follows one exchange through \<open>Communication\<close>,
  \<open>Network_Node\<close>, \<open>Registry_Client\<close> and \<open>Registry_Server\<close>.
\<close>

section \<open>Engines that understand each other\<close>

text \<open>
  The documented exchange of offer and answer: an offer of the first engine is accepted by the
  second, and its answer by the first.
\<close>

definition understands :: "('a, 'r, 'p) rtc_ops \<Rightarrow> ('a, 'r, 'p) rtc_ops \<Rightarrow> bool" where
  "understands EA EB \<longleftrightarrow> (\<forall>r. \<exists>offer pend r'. rtc_offer EA r = (Some (offer, pend), r') \<and>
     (\<exists>sdp. rtc_parse_offer EB offer = Some sdp \<and>
       (\<forall>rb. \<exists>ans rb' sda. rtc_accept_offer EB sdp rb = (Some ans, rb') \<and> rtc_parse_answer EA ans = Some sda \<and>
         (\<forall>ra. \<exists>ra'. rtc_accept_answer EA pend sda ra = (Some (), ra')))))"

definition has_candidates :: "('a, 'r, 'p) rtc_ops \<Rightarrow> bool" where
  "has_candidates E \<longleftrightarrow> (\<forall>a r. rtc_host E a r \<noteq> None) \<and> (\<forall>m a r. rtc_reflexive E m a r \<noteq> None)"

lemma remote_conn_new_total:
  assumes "has_candidates E"
  obtains conn where "remote_conn_new E n [(a, m)] r = Inr conn" "rem_remote conn = n"
proof -
  obtain r1 where r1: "rtc_host E a r = Some r1" using assms unfolding has_candidates_def by blast
  have "\<exists>r2. add_candidates E (a, m) r = Inr r2"
  proof (cases m)
    case (Some m')
    moreover obtain r2 where "rtc_reflexive E m' a r1 = Some r2" using assms unfolding has_candidates_def by blast
    ultimately show ?thesis using r1 by (simp add: add_candidates_def)
  qed (simp add: add_candidates_def r1)
  then obtain r2 where "add_candidates E (a, m) r = Inr r2" by blast
  then have "\<exists>conn. remote_conn_new E n [(a, m)] r = Inr conn" by (simp add: remote_conn_new_def)
  then obtain conn where "remote_conn_new E n [(a, m)] r = Inr conn" ..
  then show thesis using that[OF _ remote_conn_new_remote] by simp
qed

text \<open>The same worker with other fuel.\<close>

abbreviation fuelled :: "('a, 'r, 'p, 't, 'l, 'u) comm_env \<Rightarrow> nat \<Rightarrow> ('a, 'r, 'p, 't, 'l, 'u) comm_env" where
  "fuelled C k \<equiv> C\<lparr>ce_fuel := k\<rparr>"

definition engine_ok :: "('a, 'r, 'p, 't, 'l, 'u) comm_env \<Rightarrow> bool" where
  "engine_ok C \<longleftrightarrow> has_candidates (nd_rtc (ce_node C)) \<and> writes_ok (nd_rtc (ce_node C)) \<and> (\<exists>pot K. settles (nd_rtc (ce_node C)) pot K) \<and>
     (\<forall>ev. ce_write_ok C ev)"

lemma engine_okE:
  assumes "engine_ok C"
  obtains pot K where "has_candidates (nd_rtc (ce_node C))" "writes_ok (nd_rtc (ce_node C))" "settles (nd_rtc (ce_node C)) pot K" "\<forall>ev. ce_write_ok C ev"
  using assms by (auto simp: engine_ok_def)

section \<open>The three steps\<close>

lemma offer_step:
  assumes "engine_ok C" "understands (nd_rtc (ce_node C)) EB" "hm_get (nn_nodes (wc_network w)) b = None" "fresh 0 = (c, rtc, ufrag)"
  shows "\<exists>sdp pend w' k0.
    (\<forall>k \<ge> k0. comm_step (fuelled C k) (RegistryRecv fresh (Inr (Some (WkUpdate [b])) # reads)) w = Inr (True, w')) \<and>
    wc_registry w' = \<lparr>rc_queue = [RegRelay b (Some (Some (RelayOffer c sdp)))]\<rparr> \<and>
    hm_get (nn_nodes (wc_network w')) b = Some c \<and>
    (\<exists>conn. hm_get (nn_conns (wc_network w')) c = Some conn \<and> rem_remote conn = b \<and> rem_pending conn = Some pend) \<and>
    (\<exists>r r'. rtc_offer (nd_rtc (ce_node C)) r = (Some (sdp, pend), r'))"
proof -
  let ?E = "ce_node C" and ?net = "wc_network w"
  obtain pot K where E: "has_candidates (nd_rtc ?E)" "writes_ok (nd_rtc ?E)" "settles (nd_rtc ?E) pot K" "\<forall>ev. ce_write_ok C ev"
    using assms(1) by (rule engine_okE)
  obtain conn where new: "remote_conn_new (nd_rtc ?E) b [(nn_local ?net, nn_public_addr ?net)] rtc = Inr conn" "rem_remote conn = b"
    using E(1) by (rule remote_conn_new_total)
  obtain sdp pend r' where off: "rtc_offer (nd_rtc ?E) (rem_rtc conn) = (Some (sdp, pend), r')"
    using assms(2) unfolding understands_def by blast
  let ?conn = "conn\<lparr>rem_rtc := r', rem_pending := Some pend\<rparr>"
  let ?s = "?net\<lparr>nn_nodes := hm_insert b c (nn_nodes ?net), nn_shared := add_ufrag ufrag c (nn_shared ?net)\<rparr>"
  obtain conn' s' where pc: "\<forall>k > potential pot K ?conn. pop_conn ?E k c ?conn ?s = Inr (conn', s')"
    "drained {(c, rem_remote ?conn)} ?s s'" "rem_remote conn' = rem_remote ?conn" "rem_pending conn' = rem_pending ?conn"
    using E(2,3) by (rule pop_conn_settled)
  let ?w = "w\<lparr>wc_registry := \<lparr>rc_queue = [RegRelay b (Some (Some (RelayOffer c sdp)))]\<rparr>, wc_written := wc_written w @ rc_queue (wc_registry w),
     wc_network := s'\<lparr>nn_conns := hm_insert c conn' (nn_conns s')\<rparr>\<rparr>"
  have "connect ?E k c rtc ufrag b ?net = Inr (Some (c, sdp), s'\<lparr>nn_conns := hm_insert c conn' (nn_conns s')\<rparr>)"
    if "Suc (potential pot K ?conn) \<le> k" for k
    using that assms(3) new(1) off pc(1) by (simp add: connect_def hm_contains_def create_offer_def Let_def)
  then have "comm_step (fuelled C k) (RegistryRecv fresh (Inr (Some (WkUpdate [b])) # reads)) w = Inr (True, ?w)"
    if "Suc (potential pot K ?conn) \<le> k" for k
    using that E(4) assms(4)
    by (simp add: registry_branch[where ev = "RcNeighbours [b]" and reads' = reads] on_registry_event_def rc_offer_def rc_push_def push_back_def)
  moreover have "hm_get (nn_nodes s') b = Some c" using pc(2) by (simp add: drained_def hm_get_insert)
  ultimately show ?thesis using new(2) pc(3,4) off
    by (intro exI[of _ sdp] exI[of _ pend] exI[of _ ?w] exI[of _ "Suc (potential pot K ?conn)"]) (auto simp: hm_get_insert)
qed

text \<open>What the answer means to the engine that made the offer.\<close>

definition answers :: "('a, 'r, 'p) rtc_ops \<Rightarrow> 'p \<Rightarrow> string \<Rightarrow> bool" where
  "answers E pend ans \<longleftrightarrow> (\<exists>sda. rtc_parse_answer E ans = Some sda \<and> (\<forall>r. \<exists>r'. rtc_accept_answer E pend sda r = (Some (), r')))"

lemma understandsE:
  assumes "understands EA EB" "rtc_offer EA r = (Some (off, pend), r')"
  shows "\<exists>sdp. rtc_parse_offer EB off = Some sdp \<and> (\<forall>rb. \<exists>ans rb'. rtc_accept_offer EB sdp rb = (Some ans, rb') \<and> answers EA pend ans)"
proof -
  obtain off' pend' r'' sdp where "rtc_offer EA r = (Some (off', pend'), r'')" "rtc_parse_offer EB off' = Some sdp"
    "\<forall>rb. \<exists>ans rb' sda. rtc_accept_offer EB sdp rb = (Some ans, rb') \<and> rtc_parse_answer EA ans = Some sda \<and>
      (\<forall>ra. \<exists>ra'. rtc_accept_answer EA pend' sda ra = (Some (), ra'))"
    using assms(1) unfolding understands_def by meson
  with assms(2) show ?thesis unfolding answers_def by fastforce
qed

lemma answer_step:
  assumes "engine_ok C" "understands EA (nd_rtc (ce_node C))" "rtc_offer EA r = (Some (off, pend), r')"
    and "hm_get (nn_conns (wc_network w)) c = None" "fresh 0 = (i, rtc, ufrag)"
  shows "\<exists>ans w' k0.
    (\<forall>k \<ge> k0. comm_step (fuelled C k) (RegistryRecv fresh (Inr (Some (WkRelay a (Some (Some (RelayOffer c off))))) # reads)) w = Inr (True, w')) \<and>
    wc_registry w' = \<lparr>rc_queue = [RegRelay a (Some (Some (RelayAnswer c ans)))]\<rparr> \<and>
    hm_get (nn_nodes (wc_network w')) a = Some c \<and>
    (\<exists>conn. hm_get (nn_conns (wc_network w')) c = Some conn \<and> rem_remote conn = a) \<and> answers EA pend ans"
proof -
  let ?E = "ce_node C" and ?net = "wc_network w"
  obtain pot K where E: "has_candidates (nd_rtc ?E)" "writes_ok (nd_rtc ?E)" "settles (nd_rtc ?E) pot K" "\<forall>ev. ce_write_ok C ev"
    using assms(1) by (rule engine_okE)
  obtain conn where new: "remote_conn_new (nd_rtc ?E) a [(nn_local ?net, nn_public_addr ?net)] rtc = Inr conn" "rem_remote conn = a"
    using E(1) by (rule remote_conn_new_total)
  obtain sdp ans rb' where acc: "rtc_parse_offer (nd_rtc ?E) off = Some sdp" "rtc_accept_offer (nd_rtc ?E) sdp (rem_rtc conn) = (Some ans, rb')"
    and ans: "answers EA pend ans"
    using understandsE[OF assms(2,3)] by blast
  let ?conn = "conn\<lparr>rem_rtc := rb'\<rparr>"
  let ?s = "?net\<lparr>nn_shared := add_ufrag ufrag c (nn_shared ?net)\<rparr>"
  obtain conn' s' where pc: "\<forall>k > potential pot K ?conn. pop_conn ?E k c ?conn ?s = Inr (conn', s')"
    "drained {(c, rem_remote ?conn)} ?s s'" "rem_remote conn' = rem_remote ?conn" "rem_pending conn' = rem_pending ?conn"
    using E(2,3) by (rule pop_conn_settled)
  let ?w = "w\<lparr>wc_registry := \<lparr>rc_queue = [RegRelay a (Some (Some (RelayAnswer c ans)))]\<rparr>, wc_written := wc_written w @ rc_queue (wc_registry w),
     wc_network := s'\<lparr>nn_conns := hm_insert c conn' (nn_conns s'), nn_nodes := hm_insert a c (nn_nodes s')\<rparr>\<rparr>"
  have "on_offer ?E k rtc ufrag c a off ?net = Inr (Inr ans, wc_network ?w)" if "Suc (potential pot K ?conn) \<le> k" for k
    using that assms(4) new(1) acc pc(1) by (simp add: on_offer_def hm_contains_def accept_offer_def Let_def)
  then have "comm_step (fuelled C k) (RegistryRecv fresh (Inr (Some (WkRelay a (Some (Some (RelayOffer c off))))) # reads)) w = Inr (True, ?w)"
    if "Suc (potential pot K ?conn) \<le> k" for k
    using that E(4) assms(5)
    by (simp add: registry_branch[where ev = "RcOffer a c off" and reads' = reads] on_registry_event_def rc_answer_def rc_push_def push_back_def)
  then show ?thesis using new(2) pc(3) ans
    by (intro exI[of _ ans] exI[of _ ?w] exI[of _ "Suc (potential pot K ?conn)"]) (auto simp: hm_get_insert)
qed

lemma accept_step:
  assumes "engine_ok C" "hm_get (nn_conns (wc_network w)) c = Some conn" "rem_remote conn = b" "rem_pending conn = Some pend"
    and "answers (nd_rtc (ce_node C)) pend ans"
  shows "\<exists>w' k0.
    (\<forall>k \<ge> k0. comm_step (fuelled C k) (RegistryRecv fresh (Inr (Some (WkRelay b (Some (Some (RelayAnswer c ans))))) # reads)) w = Inr (True, w')) \<and>
    wc_written w' = wc_written w @ rc_queue (wc_registry w) \<and> nn_nodes (wc_network w') = nn_nodes (wc_network w) \<and>
    (\<exists>conn'. hm_get (nn_conns (wc_network w')) c = Some conn' \<and> rem_remote conn' = b \<and> rem_pending conn' = None)"
proof -
  let ?E = "ce_node C" and ?net = "wc_network w"
  obtain pot K where E: "writes_ok (nd_rtc ?E)" "settles (nd_rtc ?E) pot K" "\<forall>ev. ce_write_ok C ev"
    using assms(1) by (rule engine_okE)
  obtain sda r' where acc: "rtc_parse_answer (nd_rtc ?E) ans = Some sda" "rtc_accept_answer (nd_rtc ?E) pend sda (rem_rtc conn) = (Some (), r')"
    using assms(5) unfolding answers_def by blast
  let ?conn = "conn\<lparr>rem_pending := None, rem_rtc := r'\<rparr>"
  obtain conn' s' where pc: "\<forall>k > potential pot K ?conn. pop_conn ?E k c ?conn ?net = Inr (conn', s')"
    "drained {(c, rem_remote ?conn)} ?net s'" "rem_remote conn' = rem_remote ?conn" "rem_pending conn' = rem_pending ?conn"
    using E(1,2) by (rule pop_conn_settled)
  let ?w = "w\<lparr>wc_registry := \<lparr>rc_queue = []\<rparr>, wc_written := wc_written w @ rc_queue (wc_registry w),
     wc_network := s'\<lparr>nn_conns := hm_insert c conn' (nn_conns s')\<rparr>\<rparr>"
  have "on_answer ?E k c b ans ?net = Inr (Inr (), wc_network ?w)" if "Suc (potential pot K ?conn) \<le> k" for k
    using that assms(2-4) acc pc(1) by (simp add: on_answer_def conn_on_answer_def)
  then have "comm_step (fuelled C k) (RegistryRecv fresh (Inr (Some (WkRelay b (Some (Some (RelayAnswer c ans))))) # reads)) w = Inr (True, ?w)"
    if "Suc (potential pot K ?conn) \<le> k" for k
    using that E(3) by (simp add: registry_branch[where ev = "RcAnswer b c ans" and reads' = reads] on_registry_event_def)
  then show ?thesis using assms(3) pc(2-4)
    by (intro exI[of _ ?w] exI[of _ "Suc (potential pot K ?conn)"]) (auto simp: hm_get_insert drained_def)
qed

lemma relay_keeps_streams: "rs_recv (StEvent model node ev) s = Inr (s', sent) \<Longrightarrow> rs_streams s' = rs_streams s"
  by (auto simp: set_entry_def split: prod.splits elim!: res_bind_InrE)

lemma relay_to:
  assumes "rs_inv s L" "hm_get (rs_streams s) (model, dest) = Some tx"
  shows "\<exists>s'. rs_recv (StEvent model node (RegRelay dest data)) s = Inr (s', [OutWorker tx (WkRelay node data)]) \<and>
    rs_inv s' L \<and> rs_streams s' = rs_streams s"
proof -
  have "(model, dest) \<in> L" using assms hm_dom_get[of "(model, dest)" "rs_streams s"] by (simp add: rs_inv_def)
  with relay_out[OF assms(1), of model node dest data] assms(2)
  obtain s' where r: "rs_recv (StEvent model node (RegRelay dest data)) s = Inr (s', [OutWorker tx (WkRelay node data)])" by auto
  moreover have "rs_inv s' L" using rs_recv_inv[OF assms(1) r] by simp
  ultimately show ?thesis using relay_keeps_streams[OF r] by blast
qed

section \<open>The exchange\<close>

text \<open>
  C6. A worker that the registry tells of a neighbour gets a connection to it: it queues one offer,
  the registry hands it to the neighbour's connection, the neighbour accepts it and queues one
  answer, the registry hands that back, and after it both workers have each other in
  the table of peers under the same connection id, with no offer left open. No step panics or
  runs out of turns. The engines of the two sides understand each other, have candidates and
  settle; both workers are registered; the id drawn at random is not in use at the neighbour.
\<close>

theorem signalling_connects:
  assumes "engine_ok CA" "engine_ok CB" "understands (nd_rtc (ce_node CA)) (nd_rtc (ce_node CB))"
    and "hm_get (nn_nodes (wc_network A)) b = None" "fa 0 = (c, ra, ua)"
    and "hm_get (nn_conns (wc_network B)) c = None" "fb 0 = (i, rb, ub)"
    and "rs_inv s L" "hm_get (rs_streams s) (model, a) = Some ta" "hm_get (rs_streams s) (model, b) = Some tb"
  shows "\<exists>k0 offer offered answer answered A1 B1 A2 s1 s2 connA connB. (\<forall>k \<ge> k0.
      comm_step (fuelled CA k) (RegistryRecv fa [Inr (Some (WkUpdate [b]))]) A = Inr (True, A1) \<and>
      comm_step (fuelled CB k) (RegistryRecv fb [Inr (Some offered)]) B = Inr (True, B1) \<and>
      comm_step (fuelled CA k) (RegistryRecv fa' [Inr (Some answered)]) A1 = Inr (True, A2)) \<and>
    rc_queue (wc_registry A1) = [offer] \<and> rs_recv (StEvent model a offer) s = Inr (s1, [OutWorker tb offered]) \<and>
    rc_queue (wc_registry B1) = [answer] \<and> rs_recv (StEvent model b answer) s1 = Inr (s2, [OutWorker ta answered]) \<and>
    offer \<in> set (wc_written A2) \<and>
    hm_get (nn_nodes (wc_network A2)) b = Some c \<and> hm_get (nn_conns (wc_network A2)) c = Some connA \<and>
    rem_remote connA = b \<and> rem_pending connA = None \<and>
    hm_get (nn_nodes (wc_network B1)) a = Some c \<and> hm_get (nn_conns (wc_network B1)) c = Some connB \<and> rem_remote connB = a"
proof -
  obtain sdp pend A1 k1 conn r r' where A1: "\<forall>k \<ge> k1. comm_step (fuelled CA k) (RegistryRecv fa [Inr (Some (WkUpdate [b]))]) A = Inr (True, A1)"
    "wc_registry A1 = \<lparr>rc_queue = [RegRelay b (Some (Some (RelayOffer c sdp)))]\<rparr>" "hm_get (nn_nodes (wc_network A1)) b = Some c"
    "hm_get (nn_conns (wc_network A1)) c = Some conn" "rem_remote conn = b" "rem_pending conn = Some pend"
    and off: "rtc_offer (nd_rtc (ce_node CA)) r = (Some (sdp, pend), r')"
    using offer_step[where fresh = fa and reads = "[]", OF assms(1,3-5)] by blast
  obtain ans B1 k2 connB where B1: "\<forall>k \<ge> k2. comm_step (fuelled CB k) (RegistryRecv fb [Inr (Some (WkRelay a (Some (Some (RelayOffer c sdp)))))]) B = Inr (True, B1)"
    "wc_registry B1 = \<lparr>rc_queue = [RegRelay a (Some (Some (RelayAnswer c ans)))]\<rparr>" "hm_get (nn_nodes (wc_network B1)) a = Some c"
    "hm_get (nn_conns (wc_network B1)) c = Some connB" "rem_remote connB = a" and ans: "answers (nd_rtc (ce_node CA)) pend ans"
    using answer_step[where fresh = fb and a = a and reads = "[]", OF assms(2,3) off assms(6,7)] by blast
  obtain A2 k3 connA where A2: "\<forall>k \<ge> k3. comm_step (fuelled CA k) (RegistryRecv fa' [Inr (Some (WkRelay b (Some (Some (RelayAnswer c ans)))))]) A1 = Inr (True, A2)"
    "wc_written A2 = wc_written A1 @ rc_queue (wc_registry A1)" "nn_nodes (wc_network A2) = nn_nodes (wc_network A1)"
    "hm_get (nn_conns (wc_network A2)) c = Some connA" "rem_remote connA = b" "rem_pending connA = None"
    using accept_step[OF assms(1) A1(4-6) ans, of fa' "[]"] by blast
  obtain s1 where s1: "rs_recv (StEvent model a (RegRelay b (Some (Some (RelayOffer c sdp))))) s =
      Inr (s1, [OutWorker tb (WkRelay a (Some (Some (RelayOffer c sdp))))])" "rs_inv s1 L" "rs_streams s1 = rs_streams s"
    using relay_to[OF assms(8,10)] by blast
  obtain s2 where s2: "rs_recv (StEvent model b (RegRelay a (Some (Some (RelayAnswer c ans))))) s1 =
      Inr (s2, [OutWorker ta (WkRelay b (Some (Some (RelayAnswer c ans))))])"
    using relay_to[OF s1(2), of model a ta] s1(3) assms(9) by auto
  show ?thesis
    by (rule exI[of _ "max k1 (max k2 k3)"], rule exI[of _ "RegRelay b (Some (Some (RelayOffer c sdp)))"],
        rule exI[of _ "WkRelay a (Some (Some (RelayOffer c sdp)))"], rule exI[of _ "RegRelay a (Some (Some (RelayAnswer c ans)))"],
        rule exI[of _ "WkRelay b (Some (Some (RelayAnswer c ans)))"], rule exI[of _ A1], rule exI[of _ B1], rule exI[of _ A2],
        rule exI[of _ s1], rule exI[of _ s2], rule exI[of _ connA], rule exI[of _ connB], intro conjI allI impI)
      (use A1 B1 A2 s1(1) s2 in \<open>simp_all del: rs_recv.simps\<close>)
qed

section \<open>A swarm of two\<close>

definition demo_comm_env :: "(nat, nat rtc_output list, unit, bytes, u32_range, unit) comm_env" where
  "demo_comm_env =
     \<lparr>ce_node = \<lparr>nd_rtc = script_rtc demo_buf, nd_encode = \<lambda>_. [1], nd_decode = \<lambda>d. if d = [] then None else Some None, nd_parse = \<lambda>_. None,
        nd_split_username = \<lambda>_. None, nd_is_ipv4 = \<lambda>_. True, nd_stun_request = [], nd_stun_decode = \<lambda>_. None, nd_send_ok = \<lambda>_. True\<rparr>,
      ce_fuel = 9, ce_service = fake_env, ce_write_ok = \<lambda>_. True, ce_alive = \<lambda>_. True\<rparr>"

definition demo_worker :: "node_id \<Rightarrow> nat \<Rightarrow> (nat, nat rtc_output list, unit, u32_range, unit) worker_communication" where
  "demo_worker node addr = runner_new 4 (mk_range 0 2) (mk_range 0 2) () (nn_new node addr [] None 0)"

definition demo_fresh :: "nat \<Rightarrow> nat rtc_output list fresh_conn" where
  "demo_fresh i = (5, [], ''u'')"

lemma demo_engine:
  "engine_ok demo_comm_env" "understands (nd_rtc (ce_node demo_comm_env)) (nd_rtc (ce_node demo_comm_env))"
proof -
  have "\<exists>pot K. settles (script_rtc demo_buf) pot K" using script_settles by blast
  then show "engine_ok demo_comm_env"
    using script_writes_ok[of demo_buf] by (simp add: engine_ok_def demo_comm_env_def has_candidates_def script_rtc_def)
  show "understands (nd_rtc (ce_node demo_comm_env)) (nd_rtc (ce_node demo_comm_env))"
    by (simp add: understands_def demo_comm_env_def script_rtc_def)
qed

lemma demo_worker_state:
  "nn_nodes (wc_network (demo_worker n addr)) = []" "nn_conns (wc_network (demo_worker n addr)) = []"
  by (simp_all add: demo_worker_def runner_new_def comm_new_def nn_new_def)

theorem signalling_connects_witness:
  "\<exists>k A1 B1 A2 connA offered answered.
     comm_step (demo_comm_env\<lparr>ce_fuel := k\<rparr>) (RegistryRecv demo_fresh [Inr (Some (WkUpdate [''b'']))]) (demo_worker ''a'' 1) = Inr (True, A1) \<and>
     comm_step (demo_comm_env\<lparr>ce_fuel := k\<rparr>) (RegistryRecv demo_fresh [Inr (Some offered)]) (demo_worker ''b'' 2) = Inr (True, B1) \<and>
     comm_step (demo_comm_env\<lparr>ce_fuel := k\<rparr>) (RegistryRecv demo_fresh [Inr (Some answered)]) A1 = Inr (True, A2) \<and>
     hm_get (nn_nodes (wc_network A2)) ''b'' = Some 5 \<and> hm_get (nn_conns (wc_network A2)) 5 = Some connA \<and>
     rem_pending connA = None \<and> hm_get (nn_nodes (wc_network B1)) ''a'' = Some 5"
proof -
  let ?es = "[StStart ''phi3'' ''a'' 1, StStart ''phi3'' ''b'' 2]"
  have "conformant {} ?es" unfolding conformant_def by (auto split: if_splits)
  from conformant_run[OF rs_inv_new this] obtain s sent
    where s: "rs_run ?es rs_new = Inr (s, sent)" "rs_inv s {(''phi3'', ''a''), (''phi3'', ''b'')}"
    by (auto simp: insert_commute)
  then have st: "hm_get (rs_streams s) (''phi3'', ''a'') = Some 1" "hm_get (rs_streams s) (''phi3'', ''b'') = Some 2"
    by (auto simp: rs_new_def set_entry_def Let_def)
  have f: "demo_fresh 0 = (5, [], ''u'')" by (simp add: demo_fresh_def)
  have n: "hm_get (nn_nodes (wc_network (demo_worker ''a'' 1))) ''b'' = None" "hm_get (nn_conns (wc_network (demo_worker ''b'' 2))) 5 = None"
    by (simp_all add: demo_worker_state)
  obtain k0 offered answered A1 B1 A2 connA where r:
    "\<forall>k \<ge> k0. comm_step (fuelled demo_comm_env k) (RegistryRecv demo_fresh [Inr (Some (WkUpdate [''b'']))]) (demo_worker ''a'' 1) = Inr (True, A1) \<and>
      comm_step (fuelled demo_comm_env k) (RegistryRecv demo_fresh [Inr (Some offered)]) (demo_worker ''b'' 2) = Inr (True, B1) \<and>
      comm_step (fuelled demo_comm_env k) (RegistryRecv demo_fresh [Inr (Some answered)]) A1 = Inr (True, A2)"
    "hm_get (nn_nodes (wc_network A2)) ''b'' = Some 5" "hm_get (nn_conns (wc_network A2)) 5 = Some connA"
    "rem_pending connA = None" "hm_get (nn_nodes (wc_network B1)) ''a'' = Some 5"
    using signalling_connects[where fa = demo_fresh and fb = demo_fresh and fa' = demo_fresh and A = "demo_worker ''a'' 1" and B = "demo_worker ''b'' 2",
        OF demo_engine(1,1,2) n(1) f n(2) f s(2) st]
    by (elim exE conjE) (rule that)
  from r(1)[rule_format, OF order_refl] r(2-5) show ?thesis by blast
qed

text \<open>A worker that hears of a neighbour, ticks and receives.\<close>

definition demo_events :: "(nat, nat rtc_output list) worker_ev list" where
  "demo_events = [Branch (RegistryRecv demo_fresh [Inr (Some (WkUpdate [''b'']))]), Branch (TickerTick 1000 1000),
     Branch RpcRecv, Branch (NetworkRecv [Ticked 5, SocketError]) ]"

lemma demo_events_run: "case res_foldM (worker_step demo_comm_env) demo_events (demo_worker ''a'' 1) of Inl _ \<Rightarrow> False | Inr _ \<Rightarrow> True"
  by code_simp

theorem worker_routes_well_formed_witness:
  "\<exists>w. res_foldM (worker_step demo_comm_env) demo_events (demo_worker ''a'' 1) = Inr w \<and> rt_wf (wc_router w) \<and> model_layers (wc_router w) = 4"
proof -
  obtain w where w: "res_foldM (worker_step demo_comm_env) demo_events (demo_worker ''a'' 1) = Inr w"
    using demo_events_run by (cases "res_foldM (worker_step demo_comm_env) demo_events (demo_worker ''a'' 1)") simp_all
  have "unat (rend (mk_range 0 2)) \<le> 4" by (simp add: mk_range_def)
  from worker_routes_well_formed[OF w[unfolded demo_worker_def] this] w show ?thesis by simp
qed

lemma demo_offer_accepted:
  "case on_offer (ce_node demo_comm_env) 9 [] ''u'' 5 ''a'' ''offer'' (wc_network (demo_worker ''b'' 2)) of
     Inr (Inr ans, _) \<Rightarrow> ans = ''answer'' | _ \<Rightarrow> False"
  by code_simp

theorem offer_answered_or_fatal_witness:
  "\<exists>w. comm_step demo_comm_env (RegistryRecv demo_fresh [Inr (Some (WkRelay ''a'' (Some (Some (RelayOffer 5 ''offer'')))))]) (demo_worker ''b'' 2) =
      Inr (True, w) \<and> rc_queue (wc_registry w) = [RegRelay ''a'' (Some (Some (RelayAnswer 5 ''answer'')))]"
proof -
  obtain net where net: "on_offer (ce_node demo_comm_env) 9 [] ''u'' 5 ''a'' ''offer'' (wc_network (demo_worker ''b'' 2)) = Inr (Inr ''answer'', net)"
    using demo_offer_accepted by (auto split: sum.splits)
  have "\<forall>x \<in> set (rc_queue (wc_registry (demo_worker ''b'' 2))). ce_write_ok demo_comm_env x" "ce_fuel demo_comm_env = 9"
    by (simp_all add: demo_comm_env_def)
  with net show ?thesis
    using offer_answered_or_fatal[where fresh = demo_fresh and reads = "[]" and C = demo_comm_env and w = "demo_worker ''b'' 2" and conn = 5
        and source = "''a''" and sdp = "''offer''"] by (simp add: demo_fresh_def)
qed

end
