(* ===== verification/Rpc_Exchange.thy ===== *)
theory Rpc_Exchange
  imports Signalling
begin

text \<open>
  A remote call between two connected workers, from \<open>request\<close> on the one side to the handler
  on the other and back. The theorem joins \<open>Rpc\<close>, \<open>Communication\<close>, \<open>Network_Node\<close> and
  \<open>Model_Service\<close>; it is what lets \<open>Inference_Chain\<close> replace a remote call by the handler of the
  node that is called. Between the workers a frame is what the connection of the one was given and the
  connection of the other hands on, which is the subject of \<open>Connection_Buffer\<close>.
\<close>

section \<open>Sending to a connected peer\<close>

abbreviation connected_to :: "('a, 'r, 'p, 'l, 'u) worker_communication \<Rightarrow> node_id \<Rightarrow> conn_id \<Rightarrow> bool" where
  "connected_to w node conn \<equiv> hm_get (nn_nodes (wc_network w)) node = Some conn \<and> hm_get (nn_conns (wc_network w)) conn \<noteq> None"

lemma send_to_settles:
  assumes "engine_ok C" "connected_to w dest c"
  shows "\<exists>net k0. (\<forall>k \<ge> k0. send_to (fuelled C k) dest msg w = Inr (Inr (), w\<lparr>wc_network := net\<rparr>) \<and>
      node_send (ce_node C) k dest msg (wc_network w) = Inr (Inr (length (nd_encode (ce_node C) msg)), net))"
proof -
  let ?E = "ce_node C" and ?net = "wc_network w"
  obtain pot K where E: "writes_ok (nd_rtc ?E)" "settles (nd_rtc ?E) pot K" using assms(1) by (rule engine_okE)
  obtain conn where conn: "hm_get (nn_nodes ?net) dest = Some c" "hm_get (nn_conns ?net) c = Some conn" using assms(2) by blast
  obtain u conn1 where "pop_outgoing_buffer (nd_rtc ?E) (conn\<lparr>rem_buffer := push_frame (rtc_buf (nd_rtc ?E)) (nd_encode ?E msg) (rem_buffer conn)\<rparr>) = Inr (u, conn1)"
    using pop_outgoing_buffer_total[OF E] by blast
  then have send: "send_data (nd_rtc ?E) (nd_encode ?E msg) conn = Inr (Some (length (nd_encode ?E msg)), conn1)" by (simp add: send_data_def)
  obtain conn2 s' where pc: "\<forall>k > potential pot K conn1. pop_conn ?E k c conn1 ?net = Inr (conn2, s')"
    using E by (rule pop_conn_settled)
  let ?s = "s'\<lparr>nn_conns := hm_insert c conn2 (nn_conns s')\<rparr>"
  have "node_send ?E k dest msg ?net = Inr (Inr (length (nd_encode ?E msg)), ?s)" if "Suc (potential pot K conn1) \<le> k" for k
    using that conn send pc by (simp add: node_send_def)
  then have "send_to (fuelled C k) dest msg w = Inr (Inr (), w\<lparr>wc_network := ?s\<rparr>) \<and>
      node_send ?E k dest msg ?net = Inr (Inr (length (nd_encode ?E msg)), ?s)" if "Suc (potential pot K conn1) \<le> k" for k
    using that by (simp add: send_to_def)
  then show ?thesis by blast
qed

section \<open>A frame arrives\<close>

text \<open>What draining a connection does with a frame that its buffer has put together.\<close>

abbreviation frame_in ::
  "('a, 'r, 'p, 't, 'l, 'u) comm_env \<Rightarrow> conn_id \<Rightarrow> node_id \<Rightarrow> bytes \<Rightarrow> ('a, 'r, 'p, 'l, 'u) worker_communication \<Rightarrow> ('a, 'r, 'p, 'l, 'u) worker_communication" where
  "frame_in C conn remote frame w \<equiv> w\<lparr>wc_network := conn_out (ce_node C) conn remote (Message frame) (wc_network w)\<rparr>"

text \<open>The codec of the peer messages: what one worker encodes the other decodes.\<close>

definition same_messages :: "('a, 'r, 'p, 't, 'l, 'u) comm_env \<Rightarrow> ('b, 's, 'q, 't2, 'l2, 'u2) comm_env \<Rightarrow> bool" where
  "same_messages C D \<longleftrightarrow> (\<forall>msg. nd_decode (ce_node D) (nd_encode (ce_node C) msg) = Some msg)"

lemma frame_branch:
  assumes "nd_decode (ce_node C) frame = Some msg" "nn_events (wc_network w) = []"
  shows "comm_step C (NetworkRecv inputs) (frame_in C conn remote frame w) = on_peer_msg C remote msg w"
proof -
  have same: "wc_network w\<lparr>nn_events := []\<rparr> = wc_network w" using assms(2) by (cases "wc_network w") simp
  show ?thesis
    using assms by (simp add: comm_step_def node_recv.simps conn_out_def push_back_def take_event_def on_network_event_def same)
qed

section \<open>The handler behind a request\<close>

lemma on_req_forward:
  assumes "dec_forward_req (e_codec env) (rreq_payload req) = Some q" "rreq_cmd req = ''FORWARD''"
    and "ms_forward env (ha_forward h) q (more_net_in (length (rreq_payload req)) s) = Inr (res, s')"
  shows "ms_handler env h req s = Inr (rpc_ok (rreq_seq req) (enc_forward_res (e_codec env) res), more_net_out (length (enc_forward_res (e_codec env) res)) s')"
  using assms by (simp add: ms_handler_def ms_on_req_def unwrap_decode_def Let_def)

lemma handler_keeps_seq:
  assumes "ms_handler env h req s = Inr (res, s')"
  shows "rres_seq res = rreq_seq req"
  using assms by (auto simp: ms_handler_def ms_on_req_def rpc_ok_def Let_def split: if_splits elim!: res_bind_InrE)

text \<open>The steps of the called worker: the task of the request, its end, and the response.\<close>

lemma serve_request:
  assumes "engine_ok C" "connected_to w node c" "nn_events (wc_network w) = []" "wc_tasks w = []" "wc_res w = []"
    and "nd_decode (ce_node C) frame = Some (Some (EvRpcReq req))" "ms_handler (ce_service C) h req (wc_service w) = Inr (res, service)"
  shows "\<exists>w1 w2 net k0. (\<forall>k \<ge> k0. comm_step (fuelled C k) (NetworkRecv inputs) (frame_in C d node frame w) = Inr (True, w1) \<and>
      comm_step (fuelled C k) ResRecv (on_task_done C 0 h w1) = Inr (True, w2) \<and>
      node_send (ce_node C) k node (Some (EvRpcRes res)) (wc_network w) = Inr (Inr (length (nd_encode (ce_node C) (Some (EvRpcRes res)))), net)) \<and>
    wc_network w2 = net \<and> wc_service w2 = service \<and> wc_tasks w2 = [] \<and> wc_res w2 = []"
proof -
  let ?w1 = "w\<lparr>wc_tasks := [(node, req)]\<rparr>"
  let ?w2 = "w\<lparr>wc_tasks := [], wc_service := service, wc_res := []\<rparr>"
  have w1: "comm_step (fuelled C k) (NetworkRecv inputs) (frame_in C d node frame w) = Inr (True, ?w1)" for k
    using frame_branch[of "fuelled C k" frame "Some (EvRpcReq req)" w] assms(3,4,6) by (simp add: on_peer_msg_def)
  have ended: "on_task_done C 0 h ?w1 = ?w2\<lparr>wc_res := [(node, res)]\<rparr>"
    using assms(5,7) by (simp add: on_task_done_def vec_get_def push_back_def)
  obtain net k0 where "\<forall>k \<ge> k0. send_to (fuelled C k) node (Some (EvRpcRes res)) ?w2 = Inr (Inr (), ?w2\<lparr>wc_network := net\<rparr>) \<and>
      node_send (ce_node C) k node (Some (EvRpcRes res)) (wc_network ?w2) = Inr (Inr (length (nd_encode (ce_node C) (Some (EvRpcRes res)))), net)"
    using send_to_settles[OF assms(1), of ?w2 node c "Some (EvRpcRes res)"] assms(2) by auto
  then have "\<forall>k \<ge> k0. comm_step (fuelled C k) ResRecv (on_task_done C 0 h ?w1) = Inr (True, ?w2\<lparr>wc_network := net\<rparr>) \<and>
      node_send (ce_node C) k node (Some (EvRpcRes res)) (wc_network w) = Inr (Inr (length (nd_encode (ce_node C) (Some (EvRpcRes res)))), net)"
    unfolding ended by (simp add: comm_step_def on_res_out_def)
  with w1 show ?thesis by (intro exI[of _ ?w1] exI[of _ "?w2\<lparr>wc_network := net\<rparr>"] exI[of _ net] exI[of _ k0]) simp
qed

text \<open>The steps of the calling worker.\<close>

lemma send_request:
  assumes "engine_ok C" "connected_to w dest c" "rpc_rx (wc_rpc w) = []" "req = \<lparr>rreq_seq = seq_seed (wc_rpc w) + 1, rreq_cmd = cmd, rreq_payload = enc q\<rparr>"
  shows "\<exists>w1 net k0. (\<forall>k \<ge> k0. comm_step (fuelled C k) RpcRecv (w\<lparr>wc_rpc := request_queue enc dest cmd q tx (wc_rpc w)\<rparr>) = Inr (True, w1) \<and>
      node_send (ce_node C) k dest (Some (EvRpcReq req)) (wc_network w) = Inr (Inr (length (nd_encode (ce_node C) (Some (EvRpcReq req)))), net)) \<and>
    wc_network w1 = net \<and> rpc_rx (wc_rpc w1) = [] \<and> hm_get (waits (wc_rpc w1)) (rreq_seq req) = Some tx"
proof -
  let ?rpc = "(wc_rpc w)\<lparr>seq_seed := seq_seed (wc_rpc w) + 1, waits := hm_insert (rreq_seq req) tx (waits (wc_rpc w)), rpc_rx := []\<rparr>"
  let ?w = "w\<lparr>wc_rpc := ?rpc\<rparr>"
  have recv: "rpc_recv (request_queue enc dest cmd q tx (wc_rpc w)) = Some (?rpc, dest, req)"
    using assms(3,4) by (simp add: rpc_recv_def request_queue_def push_back_def Let_def)
  obtain net k0 where "\<forall>k \<ge> k0. send_to (fuelled C k) dest (Some (EvRpcReq req)) ?w = Inr (Inr (), ?w\<lparr>wc_network := net\<rparr>) \<and>
      node_send (ce_node C) k dest (Some (EvRpcReq req)) (wc_network ?w) = Inr (Inr (length (nd_encode (ce_node C) (Some (EvRpcReq req)))), net)"
    using send_to_settles[OF assms(1), of ?w dest c "Some (EvRpcReq req)"] assms(2) by auto
  with recv show ?thesis
    by (intro exI[of _ "?w\<lparr>wc_network := net\<rparr>"] exI[of _ net] exI[of _ k0]) (simp add: comm_step_def on_rpc_out_def hm_get_insert)
qed

lemma take_response:
  assumes "nd_decode (ce_node C) frame = Some (Some (EvRpcRes res))" "nn_events (wc_network w) = []"
    and "hm_get (waits (wc_rpc w)) (rres_seq res) = Some tx" "ce_alive C tx"
  shows "\<exists>rpc. rpc_on_res (ce_alive C) res (wc_rpc w) = Inr (rpc, Some (tx, res)) \<and> hm_get (waits rpc) (rres_seq res) = None \<and>
    comm_step (fuelled C k) (NetworkRecv inputs) (frame_in C c node frame w) = Inr (True, w\<lparr>wc_rpc := rpc\<rparr>)"
  using frame_branch[of "fuelled C k" frame "Some (EvRpcRes res)" w] assms
  by (simp add: on_peer_msg_def rpc_on_res_def Let_def hm_get_remove)

section \<open>The exchange\<close>

text \<open>
  C7. A remote call is a call of the handler: when a worker asks a peer it is connected to for a
  forward, one request with a fresh number goes into the connection, the peer runs its handler on what was
  asked and puts one response into its connection, and when that arrives the caller's channel is given
  it and the call returns what the handler of the peer returned; the number is then free again and the queues of both
  workers are as before. In between the caller may have done anything that leaves the number alone. The
  protobuf codecs are inverse to each other, the engines settle and the caller still waits.
\<close>

theorem remote_forward_is_handler:
  assumes "engine_ok CA" "engine_ok CB" "same_messages CA CB" "same_messages CB CA" "ce_alive CA tx"
    and "\<forall>q. dec_forward_req (e_codec (ce_service CB)) (enc q) = Some q" "\<forall>r. dec (enc_forward_res (e_codec (ce_service CB)) r) = Some r"
    and "connected_to A b c" "rpc_rx (wc_rpc A) = []"
    and "connected_to B a d" "nn_events (wc_network B) = []" "wc_tasks B = []" "wc_res B = []"
    and "ms_forward (ce_service CB) (ha_forward h) q (more_net_in (length (enc q)) (wc_service B)) = Inr (fres, service)"
  shows "\<exists>k0 A1 B1 B2 req res. (\<forall>k \<ge> k0.
      comm_step (fuelled CA k) RpcRecv (A\<lparr>wc_rpc := request_queue enc b ''FORWARD'' q tx (wc_rpc A)\<rparr>) = Inr (True, A1) \<and>
      node_send (ce_node CA) k b (Some (EvRpcReq req)) (wc_network A) = Inr (Inr (length (nd_encode (ce_node CA) (Some (EvRpcReq req)))), wc_network A1) \<and>
      comm_step (fuelled CB k) (NetworkRecv inB) (frame_in CB d a (nd_encode (ce_node CA) (Some (EvRpcReq req))) B) = Inr (True, B1) \<and>
      comm_step (fuelled CB k) ResRecv (on_task_done CB 0 h B1) = Inr (True, B2) \<and>
      node_send (ce_node CB) k a (Some (EvRpcRes res)) (wc_network B) = Inr (Inr (length (nd_encode (ce_node CB) (Some (EvRpcRes res)))), wc_network B2)) \<and>
    rreq_seq req = seq_seed (wc_rpc A) + 1 \<and> rpc_rx (wc_rpc A1) = [] \<and> wc_tasks B2 = [] \<and> wc_res B2 = [] \<and>
    (\<exists>n. wc_service B2 = more_net_out n service) \<and> request_outcome dec (Inr res) = Inr fres \<and>
    (\<forall>A2 k inA. nn_events (wc_network A2) = [] \<and> hm_get (waits (wc_rpc A2)) (rreq_seq req) = hm_get (waits (wc_rpc A1)) (rreq_seq req) \<longrightarrow>
      (\<exists>rpc. rpc_on_res (ce_alive CA) res (wc_rpc A2) = Inr (rpc, Some (tx, res)) \<and> hm_get (waits rpc) (rreq_seq req) = None \<and>
        comm_step (fuelled CA k) (NetworkRecv inA) (frame_in CA c b (nd_encode (ce_node CB) (Some (EvRpcRes res))) A2) = Inr (True, A2\<lparr>wc_rpc := rpc\<rparr>)))"
proof -
  define req where "req = \<lparr>rreq_seq = seq_seed (wc_rpc A) + 1, rreq_cmd = ''FORWARD'', rreq_payload = enc q\<rparr>"
  define res where "res = rpc_ok (rreq_seq req) (enc_forward_res (e_codec (ce_service CB)) fres)"
  let ?n = "length (enc_forward_res (e_codec (ce_service CB)) fres)"
  have seq: "rres_seq res = rreq_seq req" by (simp add: res_def rpc_ok_def)
  have handler: "ms_handler (ce_service CB) h req (wc_service B) = Inr (res, more_net_out ?n service)"
    unfolding res_def by (rule on_req_forward[where q = q]) (use assms(6,14) in \<open>simp_all add: req_def\<close>)
  obtain A1 net1 k1 where A1: "\<forall>k \<ge> k1. comm_step (fuelled CA k) RpcRecv (A\<lparr>wc_rpc := request_queue enc b ''FORWARD'' q tx (wc_rpc A)\<rparr>) = Inr (True, A1) \<and>
      node_send (ce_node CA) k b (Some (EvRpcReq req)) (wc_network A) = Inr (Inr (length (nd_encode (ce_node CA) (Some (EvRpcReq req)))), net1)"
    "wc_network A1 = net1" "rpc_rx (wc_rpc A1) = []" "hm_get (waits (wc_rpc A1)) (rreq_seq req) = Some tx"
    using send_request[where enc = enc and q = q and tx = tx, OF assms(1,8,9) req_def] by blast
  have dec: "nd_decode (ce_node CB) (nd_encode (ce_node CA) (Some (EvRpcReq req))) = Some (Some (EvRpcReq req))"
    "nd_decode (ce_node CA) (nd_encode (ce_node CB) (Some (EvRpcRes res))) = Some (Some (EvRpcRes res))"
    using assms(3,4) by (simp_all add: same_messages_def)
  obtain B1 B2 net2 k2 where B: "\<forall>k \<ge> k2. comm_step (fuelled CB k) (NetworkRecv inB) (frame_in CB d a (nd_encode (ce_node CA) (Some (EvRpcReq req))) B) = Inr (True, B1) \<and>
      comm_step (fuelled CB k) ResRecv (on_task_done CB 0 h B1) = Inr (True, B2) \<and>
      node_send (ce_node CB) k a (Some (EvRpcRes res)) (wc_network B) = Inr (Inr (length (nd_encode (ce_node CB) (Some (EvRpcRes res)))), net2)"
    "wc_network B2 = net2" "wc_service B2 = more_net_out ?n service" "wc_tasks B2 = []" "wc_res B2 = []"
    using serve_request[OF assms(2,10-13) dec(1) handler, of inB d] by blast
  have reply: "\<exists>rpc. rpc_on_res (ce_alive CA) res (wc_rpc A2) = Inr (rpc, Some (tx, res)) \<and> hm_get (waits rpc) (rreq_seq req) = None \<and>
        comm_step (fuelled CA k) (NetworkRecv inA) (frame_in CA c b (nd_encode (ce_node CB) (Some (EvRpcRes res))) A2) = Inr (True, A2\<lparr>wc_rpc := rpc\<rparr>)"
    if "nn_events (wc_network A2) = []" "hm_get (waits (wc_rpc A2)) (rreq_seq req) = hm_get (waits (wc_rpc A1)) (rreq_seq req)" for A2 k inA
    using take_response[OF dec(2) that(1) _ assms(5), of k inA c b] that(2) A1(4) by (simp add: seq)
  have ans: "request_outcome dec (Inr res) = Inr fres" using assms(7) by (simp add: request_outcome_def res_def rpc_ok_def)
  have num: "rreq_seq req = seq_seed (wc_rpc A) + 1" by (simp add: req_def)
  show ?thesis
    by (rule exI[of _ "max k1 k2"], rule exI[of _ A1], rule exI[of _ B1], rule exI[of _ B2], rule exI[of _ req], rule exI[of _ res], intro conjI allI impI)
      (use A1 B ans num reply in \<open>auto\<close>)
qed

section \<open>Codecs that round-trip\<close>

text \<open>A message as a list of numbers, and a list of numbers as bytes.\<close>

definition nums :: "nat list \<Rightarrow> bytes" where
  "nums ns = un (length ns) @ concat (map un ns)"

definition read_nums :: "bytes \<Rightarrow> nat list" where
  "read_nums xs = (let (k, r) = read_un xs in fst (read_uns k r))"

lemma read_nums_nums [simp]: "read_nums (nums ns) = ns"
  using read_uns_uns[of ns "[]"] by (simp add: nums_def read_nums_def read_un_un)

lemma words_of_nats [simp]: "map word_of_nat (map unat ws) = (ws :: 'w::len word list)" "map (word_of_nat \<circ> unat) ws = ws"
  by (simp_all add: comp_def)

lemma chars_of_nats [simp]: "map char_of (map of_char cs) = (cs :: string)"
  by (simp add: comp_def)

fun layer_nums :: "wire_layer_info list \<Rightarrow> nat list" where
  "layer_nums [] = []"
| "layer_nums (w # ws) = of_bool (enable w) # unat (wcost w) # unat (wlast_updated w) # layer_nums ws"

fun nums_layer :: "nat list \<Rightarrow> wire_layer_info list" where
  "nums_layer (e # c # l # ns) = \<lparr>enable = (e = 1), wcost = word_of_nat c, wlast_updated = word_of_nat l\<rparr> # nums_layer ns"
| "nums_layer _ = []"

lemma nums_layer_inverse [simp]: "nums_layer (layer_nums ws) = ws"
  by (induction ws) simp_all

fun msg_nums :: "peer_msg \<Rightarrow> nat list" where
  "msg_nums None = []"
| "msg_nums (Some (EvSyncReq r)) = 0 # layer_nums (wire_layers r)"
| "msg_nums (Some EvSyncRes) = [1]"
| "msg_nums (Some (EvRpcReq r)) = 2 # unat (rreq_seq r) # length (rreq_cmd r) # map of_char (rreq_cmd r) @ map unat (rreq_payload r)"
| "msg_nums (Some (EvRpcRes r)) = 3 # unat (rres_seq r) # of_bool (rres_success r) # map unat (rres_payload r)"

definition nums_msg :: "nat list \<Rightarrow> peer_msg" where
  "nums_msg ns = (case ns of [] \<Rightarrow> None | t # xs \<Rightarrow> Some (
     if t = 0 then EvSyncReq \<lparr>wire_layers = nums_layer xs\<rparr>
     else if t = 1 then EvSyncRes
     else if t = 2 then EvRpcReq \<lparr>rreq_seq = word_of_nat (xs ! 0), rreq_cmd = map char_of (take (xs ! 1) (drop 2 xs)), rreq_payload = map word_of_nat (drop (xs ! 1) (drop 2 xs))\<rparr>
     else EvRpcRes \<lparr>rres_seq = word_of_nat (xs ! 0), rres_success = (xs ! 1 = 1), rres_payload = map word_of_nat (drop 2 xs)\<rparr>))"

lemma nums_msg_inverse: "nums_msg (msg_nums m) = m"
  by (cases m rule: msg_nums.cases) (simp_all add: nums_msg_def)

definition forward_req_nums :: "forward_req \<Rightarrow> nat list" where
  "forward_req_nums q = unat (freq_session q) # unat (freq_step q) # unat (freq_index_pos q) # unat (freq_seq_len q) # unat (freq_chain_index q) #
     length (freq_embedding q) # map unat (freq_embedding q) @ map unat (freq_metadata q)"

definition nums_forward_req :: "nat list \<Rightarrow> forward_req" where
  "nums_forward_req ns = \<lparr>freq_session = word_of_nat (ns ! 0), freq_step = word_of_nat (ns ! 1), freq_embedding = map word_of_nat (take (ns ! 5) (drop 6 ns)),
     freq_index_pos = word_of_nat (ns ! 2), freq_seq_len = word_of_nat (ns ! 3), freq_metadata = map word_of_nat (drop (ns ! 5) (drop 6 ns)),
     freq_chain_index = word_of_nat (ns ! 4)\<rparr>"

lemma nums_forward_req_inverse: "nums_forward_req (forward_req_nums q) = q"
  by (simp add: nums_forward_req_def forward_req_nums_def)

definition forward_res_nums :: "forward_res \<Rightarrow> nat list" where
  "forward_res_nums r = of_bool (fres_success r) # length (fres_embedding r) # map unat (fres_embedding r) @ map unat (fres_metadata r)"

definition nums_forward_res :: "nat list \<Rightarrow> forward_res" where
  "nums_forward_res ns = \<lparr>fres_success = (ns ! 0 = 1), fres_embedding = map word_of_nat (take (ns ! 1) (drop 2 ns)), fres_metadata = map word_of_nat (drop (ns ! 1) (drop 2 ns))\<rparr>"

lemma nums_forward_res_inverse: "nums_forward_res (forward_res_nums r) = r"
  by (simp add: nums_forward_res_def forward_res_nums_def)

section \<open>Two workers that call each other\<close>

definition call_env :: "(nat, nat rtc_output list, unit, bytes, u32_range, unit) comm_env" where
  "call_env = demo_comm_env
     \<lparr>ce_node := (ce_node demo_comm_env)\<lparr>nd_encode := nums \<circ> msg_nums, nd_decode := Some \<circ> nums_msg \<circ> read_nums\<rparr>,
      ce_service := fake_env\<lparr>e_codec := (e_codec fake_env)\<lparr>dec_forward_req := Some \<circ> nums_forward_req \<circ> read_nums, enc_forward_res := nums \<circ> forward_res_nums\<rparr>\<rparr>\<rparr>"

lemma call_env_ok: "engine_ok call_env" "same_messages call_env call_env" "ce_alive call_env tx"
  "\<forall>q. dec_forward_req (e_codec (ce_service call_env)) ((nums \<circ> forward_req_nums) q) = Some q"
  "\<forall>r. (Some \<circ> nums_forward_res \<circ> read_nums) (enc_forward_res (e_codec (ce_service call_env)) r) = Some r"
  using demo_engine(1)
  by (simp_all add: engine_ok_def call_env_def same_messages_def demo_comm_env_def nums_msg_inverse nums_forward_req_inverse nums_forward_res_inverse)

definition call_worker :: "node_id \<Rightarrow> (nat, nat rtc_output list, unit, u32_range, unit) worker_communication" where
  "call_worker r = (let w = demo_worker ''x'' 1 in
     w\<lparr>wc_network := (wc_network w)\<lparr>nn_nodes := [(r, 5)],
        nn_conns := [(5, \<lparr>rem_remote = r, rem_rtc = [], rem_pending = None, rem_queue = [], rem_channel = None, rem_timeout = None, rem_buffer = cb_default\<rparr>)]\<rparr>,
       wc_service := (wc_service w)\<lparr>ms_sessions := \<lparr>shm_map = [(5, \<lparr>sc_chat_id = 5, sc_local = Some (mk_range 1 2), sc_remote = None\<rparr>)]\<rparr>\<rparr>\<rparr>)"

lemma call_worker_state:
  "connected_to (call_worker r) r 5" "nn_events (wc_network (call_worker r)) = []" "wc_tasks (call_worker r) = []"
  "wc_res (call_worker r) = []" "rpc_rx (wc_rpc (call_worker r)) = []"
  by (simp_all add: call_worker_def Let_def demo_worker_def runner_new_def comm_new_def nn_new_def create_rpc_def)

definition no_hops :: hop_answers where
  "no_hops = \<lparr>ha_session = 0, ha_start = \<lambda>_ _. Inl [], ha_forward = \<lambda>_ _. Inl [], ha_end = \<lambda>_ _. Inl []\<rparr>"

lemma call_handler:
  "\<exists>fres service. ms_forward (ce_service call_env) (ha_forward no_hops) demo_forward (more_net_in n (wc_service (call_worker r))) = Inr (fres, service) \<and>
    fres_success fres"
  by (simp add: call_env_def call_worker_def Let_def demo_worker_def runner_new_def comm_new_def no_hops_def more_net_in_def
      ms_forward_def forward_begin_def forward_local_def forward_answered_def forward_finish_def run_hook_def fake_simps
      ms_new_def demo_forward_def shm_defs tensor_decode_def tensor_encode_def
      tensor_buf_try_from_def tensor_buf_from_def to_tensor_def to_vec_def vec_env_def vec_roundtrip unwrap_option_def)

theorem remote_forward_is_handler_witness:
  "\<exists>k A1 B1 B2 req res fres rpc.
     comm_step (fuelled call_env k) RpcRecv
       (call_worker ''b''\<lparr>wc_rpc := request_queue (nums \<circ> forward_req_nums) ''b'' ''FORWARD'' demo_forward 7 (wc_rpc (call_worker ''b''))\<rparr>) = Inr (True, A1) \<and>
     comm_step (fuelled call_env k) (NetworkRecv []) (frame_in call_env 5 ''a'' (nd_encode (ce_node call_env) (Some (EvRpcReq req))) (call_worker ''a'')) = Inr (True, B1) \<and>
     comm_step (fuelled call_env k) ResRecv (on_task_done call_env 0 no_hops B1) = Inr (True, B2) \<and>
     rpc_on_res (ce_alive call_env) res (wc_rpc A1) = Inr (rpc, Some (7, res)) \<and>
     request_outcome (Some \<circ> nums_forward_res \<circ> read_nums) (Inr res) = Inr fres \<and> fres_success fres"
proof -
  let ?enc = "nums \<circ> forward_req_nums" and ?dec = "Some \<circ> nums_forward_res \<circ> read_nums"
  obtain fres service where h: "ms_forward (ce_service call_env) (ha_forward no_hops) demo_forward
      (more_net_in (length (?enc demo_forward)) (wc_service (call_worker ''a''))) = Inr (fres, service)" "fres_success fres"
    using call_handler by blast
  from remote_forward_is_handler[where inB = "[]" and c = 5 and d = 5 and A = "call_worker ''b''" and enc = ?enc and dec = ?dec,
      OF call_env_ok(1,1,2,2) call_env_ok(3)[of 7] call_env_ok(4,5) call_worker_state(1,5,1-4) h(1)]
  obtain k0 A1 B1 B2 req res where r: "\<forall>k \<ge> k0.
      comm_step (fuelled call_env k) RpcRecv (call_worker ''b''\<lparr>wc_rpc := request_queue ?enc ''b'' ''FORWARD'' demo_forward 7 (wc_rpc (call_worker ''b''))\<rparr>) = Inr (True, A1) \<and>
      node_send (ce_node call_env) k ''b'' (Some (EvRpcReq req)) (wc_network (call_worker ''b'')) = Inr (Inr (length (nd_encode (ce_node call_env) (Some (EvRpcReq req)))), wc_network A1) \<and>
      comm_step (fuelled call_env k) (NetworkRecv []) (frame_in call_env 5 ''a'' (nd_encode (ce_node call_env) (Some (EvRpcReq req))) (call_worker ''a'')) = Inr (True, B1) \<and>
      comm_step (fuelled call_env k) ResRecv (on_task_done call_env 0 no_hops B1) = Inr (True, B2) \<and>
      node_send (ce_node call_env) k ''a'' (Some (EvRpcRes res)) (wc_network (call_worker ''a'')) = Inr (Inr (length (nd_encode (ce_node call_env) (Some (EvRpcRes res)))), wc_network B2)"
    "request_outcome ?dec (Inr res) = Inr fres"
    and reply: "\<forall>A2 k inA. nn_events (wc_network A2) = [] \<and> hm_get (waits (wc_rpc A2)) (rreq_seq req) = hm_get (waits (wc_rpc A1)) (rreq_seq req) \<longrightarrow>
      (\<exists>rpc. rpc_on_res (ce_alive call_env) res (wc_rpc A2) = Inr (rpc, Some (7, res)) \<and> hm_get (waits rpc) (rreq_seq req) = None \<and>
        comm_step (fuelled call_env k) (NetworkRecv inA) (frame_in call_env 5 ''b'' (nd_encode (ce_node call_env) (Some (EvRpcRes res))) A2) = Inr (True, A2\<lparr>wc_rpc := rpc\<rparr>))"
    by (elim exE conjE) (rule that)
  let ?A2 = "A1\<lparr>wc_network := wc_network (call_worker ''b'')\<rparr>"
  obtain rpc where "rpc_on_res (ce_alive call_env) res (wc_rpc ?A2) = Inr (rpc, Some (7, res))"
    using reply[rule_format, of ?A2 0 "[]"] call_worker_state(2) by auto
  with r(1)[rule_format, OF order_refl] r(2) h(2) show ?thesis
    by - (rule exI[of _ k0], rule exI[of _ A1], rule exI[of _ B1], rule exI[of _ B2], rule exI[of _ req], rule exI[of _ res],
        rule exI[of _ fres], rule exI[of _ rpc], simp)
qed

end
