(* ===== verification/Chain_Client.thy ===== *)
theory Chain_Client
  imports Onchain Candle
begin

text \<open>
  The client of the chain, \<^verbatim>\<open>crates/contract/src/client.rs\<close>: sequence numbers, the payloads of
  the two calls of the contract, sending a transaction, and the balance.

  The node of the chain and the signing account belong to the Aptos SDK. They are the
  parameter record \<open>chain_ops\<close> over a state \<open>'c\<close> of the chain and signed transactions \<open>'x\<close>:
  \<open>Inl\<close> is the error of a request, and signing takes the sequence number of the account and
  returns the next one. \<open>chain_ok\<close> states what is documented of a chain that answers: it takes
  a transaction exactly when it was signed with the number of the account, which then advances.
  A value of the contract's language is kept as a value; its bytes are the SDK's.
\<close>

section \<open>Payloads\<close>

datatype 'addr move_value = MoveU64 u64 | MoveU8 u8 | MoveAddress 'addr | MoveVector "'addr move_value list"

record 'addr payload =
  pl_contract :: 'addr
  pl_module :: string
  pl_function :: string
  pl_args :: "'addr move_value list"

record 'addr transaction =
  txn_payload :: "'addr payload"
  txn_expiration :: u64
  txn_chain_id :: u8
  txn_max_gas :: u64

section \<open>The client\<close>

record ('addr, 'x, 'c) chain_ops =
  ch_sequence_number :: "'addr \<Rightarrow> 'c \<Rightarrow> string + u64"
  ch_balance :: "'addr \<Rightarrow> 'c \<Rightarrow> string + u64"
  ch_view :: "'addr payload \<Rightarrow> 'c \<Rightarrow> string + (string + string) list"
  ch_chain_id :: "'c \<Rightarrow> string + u8"
  ch_sign :: "'addr \<Rightarrow> u64 \<Rightarrow> 'addr transaction \<Rightarrow> 'x \<times> u64"
  ch_submit_and_wait :: "'x \<Rightarrow> 'c \<Rightarrow> (string + unit) \<times> 'c"

text \<open>The account with the sequence number it will sign with; the client is shared by the tasks of a node.\<close>

record 'addr onchain_client =
  cl_address :: 'addr
  cl_public_key :: bytes
  cl_sequence_number :: u64
  cl_contract_address :: 'addr

definition client_new :: "'addr \<Rightarrow> bytes \<Rightarrow> 'addr \<Rightarrow> 'addr onchain_client" where
  "client_new address pk contract_address =
     \<lparr>cl_address = address, cl_public_key = pk, cl_sequence_number = 0, cl_contract_address = contract_address\<rparr>"

definition get_sequence_number :: "('addr, 'x, 'c) chain_ops \<Rightarrow> 'c \<Rightarrow> 'addr onchain_client \<Rightarrow> string + u64" where
  "get_sequence_number ch w c = ch_sequence_number ch (cl_address c) w"

definition get_current_balance :: "('addr, 'x, 'c) chain_ops \<Rightarrow> 'c \<Rightarrow> 'addr onchain_client \<Rightarrow> string + u64" where
  "get_current_balance ch w c = ch_balance ch (cl_address c) w"

text \<open>
  \<open>u64::from_str\<close>: an optional plus, then at least one digit, each with the check for an overflow.
\<close>

definition digit_value :: "char \<Rightarrow> nat option" where
  "digit_value ch = (let n = of_char ch in if 48 \<le> n \<and> n \<le> (57::nat) then Some (n - 48) else None)"

fun parse_digits :: "nat \<Rightarrow> string \<Rightarrow> nat option" where
  "parse_digits acc [] = Some acc"
| "parse_digits acc (ch # s) = (case digit_value ch of
       None \<Rightarrow> None
     | Some d \<Rightarrow> if acc * 10 + d < 2 ^ 64 then parse_digits (acc * 10 + d) s else None)"

definition parse_u64 :: "string \<Rightarrow> u64 option" where
  "parse_u64 s = (let s = (if s \<noteq> [] \<and> hd s = CHR ''+'' then tl s else s) in
     if s = [] then None else map_option word_of_nat (parse_digits 0 s))"

text \<open>
  The balance in the contract is a JSON array whose first element is a string: \<open>Inr\<close> a string,
  \<open>Inl\<close> any other value. An empty array and a string that is no number are panics.
\<close>

definition get_topup_balance :: "('addr, 'x, 'c) chain_ops \<Rightarrow> 'c \<Rightarrow> 'addr onchain_client \<Rightarrow> (string + u64) res" where
  "get_topup_balance ch w c =
     (case ch_view ch \<lparr>pl_contract = cl_contract_address c, pl_module = ''dllm'', pl_function = ''get_balance'',
          pl_args = [MoveAddress (cl_address c)]\<rparr> w of
        Inl e \<Rightarrow> Inr (Inl e)
      | Inr response \<Rightarrow> res_bind (vec_index response 0) (\<lambda>value. case value of
            Inl _ \<Rightarrow> Inr (Inl ''Json'')
          | Inr session_id \<Rightarrow> res_bind (unwrap_option UnwrapOnErr (parse_u64 session_id)) (\<lambda>n. Inr (Inr n))))"

definition update_sequence_number ::
  "('addr, 'x, 'c) chain_ops \<Rightarrow> 'c \<Rightarrow> 'addr onchain_client \<Rightarrow> (string + unit) \<times> 'addr onchain_client" where
  "update_sequence_number ch w c = (case get_sequence_number ch w c of
       Inl e \<Rightarrow> (Inl e, c)
     | Inr sequence_number \<Rightarrow> (Inr (), c\<lparr>cl_sequence_number := sequence_number\<rparr>))"

text \<open>\<open>client_send\<close> up to the submission, and the whole; \<open>now\<close> is the time in seconds.\<close>

definition send_begin ::
  "('addr, 'x, 'c) chain_ops \<Rightarrow> u64 \<Rightarrow> 'addr payload \<Rightarrow> 'c \<Rightarrow> 'addr onchain_client \<Rightarrow> (string + 'x) \<times> 'addr onchain_client" where
  "send_begin ch now pl w c = (case update_sequence_number ch w c of
       (Inl e, c) \<Rightarrow> (Inl e, c)
     | (Inr _, c) \<Rightarrow> (case ch_chain_id ch w of
           Inl e \<Rightarrow> (Inl ''Failed to get chain ID'', c)
         | Inr chain_id \<Rightarrow>
             (case ch_sign ch (cl_address c) (cl_sequence_number c)
                  \<lparr>txn_payload = pl, txn_expiration = now + 30, txn_chain_id = chain_id, txn_max_gas = 100000\<rparr> of
                (txn, next_number) \<Rightarrow> (Inr txn, c\<lparr>cl_sequence_number := next_number\<rparr>))))"

definition client_send ::
  "('addr, 'x, 'c) chain_ops \<Rightarrow> u64 \<Rightarrow> 'addr payload \<Rightarrow> 'c \<times> 'addr onchain_client \<Rightarrow> (string + unit) \<times> 'c \<times> 'addr onchain_client" where
  "client_send ch now pl = (\<lambda>(w, c). case send_begin ch now pl w c of
       (Inl e, c) \<Rightarrow> (Inl e, w, c)
     | (Inr txn, c) \<Rightarrow> (case ch_submit_and_wait ch txn w of (r, w) \<Rightarrow> (r, w, c)))"

definition create_session_payload ::
  "'addr onchain_client \<Rightarrow> u64 \<Rightarrow> u64 \<Rightarrow> 'addr list \<Rightarrow> u64 list \<Rightarrow> 'addr payload" where
  "create_session_payload c session_id max_tokens addresses layers =
     \<lparr>pl_contract = cl_contract_address c, pl_module = ''dllm'', pl_function = ''create_session'',
      pl_args = [MoveU64 session_id, MoveU64 max_tokens, MoveVector (map MoveAddress addresses), MoveVector (map MoveU64 layers),
        MoveVector (map MoveU8 (cl_public_key c))]\<rparr>"

definition create_session ::
  "('addr, 'x, 'c) chain_ops \<Rightarrow> u64 \<Rightarrow> u64 \<Rightarrow> u64 \<Rightarrow> 'addr list \<Rightarrow> u64 list \<Rightarrow> 'c \<times> 'addr onchain_client \<Rightarrow>
    (string + unit) \<times> 'c \<times> 'addr onchain_client" where
  "create_session ch now session_id max_tokens addresses layers s =
     client_send ch now (create_session_payload (snd s) session_id max_tokens addresses layers) s"

definition claim_tokens_payload :: "'addr onchain_client \<Rightarrow> 'addr \<Rightarrow> u64 \<Rightarrow> u64 \<Rightarrow> bytes \<Rightarrow> 'addr payload" where
  "claim_tokens_payload c client_address session_id token_count signature =
     \<lparr>pl_contract = cl_contract_address c, pl_module = ''dllm'', pl_function = ''claim_tokens'',
      pl_args = [MoveAddress client_address, MoveU64 session_id, MoveU64 token_count, MoveVector (map MoveU8 signature)]\<rparr>"

definition claim_tokens ::
  "('addr, 'x, 'c) chain_ops \<Rightarrow> u64 \<Rightarrow> 'addr \<Rightarrow> u64 \<Rightarrow> u64 \<Rightarrow> bytes \<Rightarrow> 'c \<times> 'addr onchain_client \<Rightarrow>
    (string + unit) \<times> 'c \<times> 'addr onchain_client" where
  "claim_tokens ch now client_address session_id token_count signature s =
     client_send ch now (claim_tokens_payload (snd s) client_address session_id token_count signature) s"

text \<open>What \<open>OnChainService\<close> makes of them: \<open>init\<close> expects its answer, the balances drop their errors.\<close>

definition service_init :: "('addr, 'x, 'c) chain_ops \<Rightarrow> 'c \<Rightarrow> 'addr onchain_client \<Rightarrow> 'addr onchain_client res" where
  "service_init ch w c = (case update_sequence_number ch w c of
       (Inl _, _) \<Rightarrow> Inl (ExpectFailed ''Failed to update sequence number'')
     | (Inr _, c) \<Rightarrow> Inr c)"

definition topup_balance :: "('addr, 'x, 'c) chain_ops \<Rightarrow> 'c \<Rightarrow> 'addr onchain_client \<Rightarrow> u64 option res" where
  "topup_balance ch w c = res_bind (get_topup_balance ch w c) (\<lambda>r. Inr (case r of Inl _ \<Rightarrow> None | Inr n \<Rightarrow> Some n))"

definition current_balance :: "('addr, 'x, 'c) chain_ops \<Rightarrow> 'c \<Rightarrow> 'addr onchain_client \<Rightarrow> u64 option" where
  "current_balance ch w c = (case get_current_balance ch w c of Inl _ \<Rightarrow> None | Inr n \<Rightarrow> Some n)"

section \<open>Numbers\<close>

lemma parse_digits_append: "parse_digits acc (s @ t) = Option.bind (parse_digits acc s) (\<lambda>n. parse_digits n t)"
  by (induction acc s rule: parse_digits.induct) (auto split: option.splits)

lemma digit_value_char: "d < 10 \<Longrightarrow> digit_value (char_of (48 + d)) = Some d"
  by (simp add: digit_value_def)

lemma parse_digits_digits: "n < 2 ^ 64 \<Longrightarrow> parse_digits 0 (digits n) = Some n"
proof (induction n rule: digits.induct)
  case (1 n)
  show ?case
  proof (cases "n < 10")
    case True
    then show ?thesis using 1(2) by (simp add: digits.simps[of n] digit_value_char)
  next
    case False
    then have "parse_digits 0 (digits (n div 10)) = Some (n div 10)" using 1 by simp
    then show ?thesis using False 1(2) digit_value_char[of "n mod 10"] by (simp add: digits.simps[of n] parse_digits_append)
  qed
qed

text \<open>The balance is read back as it was printed.\<close>

lemma parse_u64_digits: "parse_u64 (digits (unat x)) = Some x"
proof -
  have "digits (unat x) \<noteq> []" by (subst digits.simps) simp
  moreover have "hd (digits n) \<noteq> CHR ''+''" for n
  proof (induction n rule: digits.induct)
    case (1 n)
    have "char_of (48 + n) \<noteq> CHR ''+''" if "n < 10" for n :: nat
    proof
      assume "char_of (48 + n) = CHR ''+''"
      with digit_value_char[OF that] show False by (simp add: digit_value_def)
    qed
    moreover have "digits (n div 10) \<noteq> []" by (subst digits.simps) simp
    ultimately show ?case using 1 by (subst digits.simps) auto
  qed
  moreover have "unat x < 2 ^ 64" using unsigned_less[of x] by simp
  ultimately show ?thesis using parse_digits_digits[of "unat x"] by (simp add: parse_u64_def)
qed

section \<open>Sending\<close>

definition chain_ok :: "('addr, 'x, 'c) chain_ops \<Rightarrow> 'addr \<Rightarrow> bool" where
  "chain_ok ch a \<longleftrightarrow>
     (\<forall>w. \<exists>n. ch_sequence_number ch a w = Inr n) \<and> (\<forall>w. \<exists>i. ch_chain_id ch w = Inr i) \<and>
     (\<forall>w m t. if ch_sequence_number ch a w = Inr m
        then \<exists>w'. ch_submit_and_wait ch (fst (ch_sign ch a m t)) w = (Inr (), w') \<and> ch_sequence_number ch a w' = Inr (m + 1)
        else \<exists>e. ch_submit_and_wait ch (fst (ch_sign ch a m t)) w = (Inl e, w))"

text \<open>A send begins with the number the chain has for the account, whatever number the client had.\<close>

lemma send_begin_signs:
  assumes "chain_ok ch (cl_address c)" "ch_sequence_number ch (cl_address c) w = Inr n"
  shows "\<exists>t k. send_begin ch now pl w c = (Inr (fst (ch_sign ch (cl_address c) n t)), c\<lparr>cl_sequence_number := k\<rparr>) \<and> txn_payload t = pl"
proof -
  obtain i where i: "ch_chain_id ch w = Inr i" using assms(1) unfolding chain_ok_def by blast
  let ?t = "\<lparr>txn_payload = pl, txn_expiration = now + 30, txn_chain_id = i, txn_max_gas = 100000\<rparr>"
  obtain x k where x: "ch_sign ch (cl_address c) n ?t = (x, k)" by fastforce
  then show ?thesis using assms(2) i
    by (intro exI[of _ ?t] exI[of _ k]) (simp add: send_begin_def update_sequence_number_def get_sequence_number_def)
qed

lemma submit_current:
  assumes "chain_ok ch a" "ch_sequence_number ch a w = Inr m"
  obtains w' where "ch_submit_and_wait ch (fst (ch_sign ch a m t)) w = (Inr (), w')" "ch_sequence_number ch a w' = Inr (m + 1)"
  using assms unfolding chain_ok_def by meson

lemma submit_stale:
  assumes "chain_ok ch a" "ch_sequence_number ch a w \<noteq> Inr m"
  obtains e where "ch_submit_and_wait ch (fst (ch_sign ch a m t)) w = (Inl e, w)"
  using assms unfolding chain_ok_def by meson

lemma client_send_succeeds:
  assumes "chain_ok ch (cl_address c)" "ch_sequence_number ch (cl_address c) w = Inr n"
  shows "\<exists>w' k. client_send ch now pl (w, c) = (Inr (), w', c\<lparr>cl_sequence_number := k\<rparr>) \<and> ch_sequence_number ch (cl_address c) w' = Inr (n + 1)"
proof -
  obtain t k where b: "send_begin ch now pl w c = (Inr (fst (ch_sign ch (cl_address c) n t)), c\<lparr>cl_sequence_number := k\<rparr>)"
    using send_begin_signs[OF assms] by blast
  obtain w' where "ch_submit_and_wait ch (fst (ch_sign ch (cl_address c) n t)) w = (Inr (), w')" "ch_sequence_number ch (cl_address c) w' = Inr (n + 1)"
    using assms by (rule submit_current)
  with b show ?thesis by (auto simp: client_send_def)
qed

text \<open>Sends one after the other, each with its own time.\<close>

fun send_all ::
  "('addr, 'x, 'c) chain_ops \<Rightarrow> (u64 \<times> 'addr payload) list \<Rightarrow> 'c \<times> 'addr onchain_client \<Rightarrow> (string + unit) list \<times> 'c \<times> 'addr onchain_client" where
  "send_all ch [] s = ([], s)"
| "send_all ch ((now, pl) # ps) s = (case client_send ch now pl s of (r, s) \<Rightarrow> (case send_all ch ps s of (rs, s) \<Rightarrow> (r # rs, s)))"

lemma send_all_succeeds:
  assumes "chain_ok ch (cl_address c)" "ch_sequence_number ch (cl_address c) w = Inr n"
  shows "\<exists>w' k. send_all ch ps (w, c) = (replicate (length ps) (Inr ()), w', c\<lparr>cl_sequence_number := k\<rparr>) \<and>
    ch_sequence_number ch (cl_address c) w' = Inr (n + word_of_nat (length ps))"
  using assms
proof (induction ps arbitrary: w c n)
  case Nil
  then show ?case by (intro exI[of _ w] exI[of _ "cl_sequence_number c"]) simp
next
  case (Cons p ps)
  obtain now pl where p: "p = (now, pl)" by (cases p)
  obtain w1 k1 where s: "client_send ch now pl (w, c) = (Inr (), w1, c\<lparr>cl_sequence_number := k1\<rparr>)"
    "ch_sequence_number ch (cl_address c) w1 = Inr (n + 1)"
    using client_send_succeeds[OF Cons.prems] by blast
  obtain w' k where "send_all ch ps (w1, c\<lparr>cl_sequence_number := k1\<rparr>) = (replicate (length ps) (Inr ()), w', c\<lparr>cl_sequence_number := k\<rparr>)"
    "ch_sequence_number ch (cl_address c) w' = Inr (n + 1 + word_of_nat (length ps))"
    using Cons.IH[of "c\<lparr>cl_sequence_number := k1\<rparr>" w1 "n + 1"] Cons.prems(1) s(2) by auto
  then show ?case using s(1) by (auto simp: p add.assoc)
qed


text \<open>A chain of one account: its number and the payloads it has taken.\<close>

definition toy_chain :: "(nat, u64 \<times> nat transaction, u64 \<times> nat payload list) chain_ops" where
  "toy_chain = \<lparr>ch_sequence_number = \<lambda>_ w. Inr (fst w), ch_balance = \<lambda>_ _. Inr 0, ch_view = \<lambda>_ _. Inr [], ch_chain_id = \<lambda>_. Inr 2,
     ch_sign = \<lambda>_ n t. ((n, t), n + 1),
     ch_submit_and_wait = \<lambda>(m, t) (n, ps). if m = n then (Inr (), n + 1, ps @ [txn_payload t]) else (Inl ''SEQUENCE_NUMBER'', n, ps)\<rparr>"

lemma toy_chain_ok: "chain_ok toy_chain a"
  by (auto simp: chain_ok_def toy_chain_def)


end
