(* ===== verification/Model_Files.thy ===== *)
theory Model_Files
  imports Phi3_Chat
begin

text \<open>
  Loading the models: \<^verbatim>\<open>crates/models/src/utils.rs\<close> (\<open>hub_load_safetensors\<close>), the constructors
  of \<^verbatim>\<open>crates/models/src/llama/mod.rs\<close> and \<^verbatim>\<open>phi3/mod.rs\<close>, and \<open>get_device\<close> of
  \<^verbatim>\<open>crates/models/src/lib.rs\<close>.

  The hub, the file system and the parsers of the files are the parameter record \<open>files\<close>: \<open>None\<close>
  is the error of a call, and a path is what the hub returns for a file of a repository.
  \<open>hash_order\<close> is the order in which a hash set with the given elements is iterated.
\<close>

section \<open>Files\<close>

text \<open>A JSON document, as far as the index of a model looks into it: the values of its weight map.\<close>

datatype weight_index = NoWeightMap | NotAMap | WeightMap "(string \<times> string option) list"

record ('t, 'w) files =
  hub_get :: "string \<Rightarrow> string \<Rightarrow> string option"
  hash_order :: "string list \<Rightarrow> string list"
  fs_index :: "string \<Rightarrow> weight_index cres"
  fs_config :: "string \<Rightarrow> llama_config option"
  fs_tokenizer :: "string \<Rightarrow> tokenizer option"
  fs_vars :: "string list \<Rightarrow> dtype \<Rightarrow> 'w var_builder option"
  fs_gguf :: "string \<Rightarrow> ('t, 'w) gguf option"

definition ends_with :: "string \<Rightarrow> string \<Rightarrow> bool" where
  "ends_with s suffix \<longleftrightarrow> length suffix \<le> length s \<and> drop (length s - length suffix) s = suffix"

fun get_files :: "('t, 'w) files \<Rightarrow> string \<Rightarrow> string list \<Rightarrow> string list cres" where
  "get_files F repo [] = Inr []"
| "get_files F repo (file # fs) = (case hub_get F repo file of
       None \<Rightarrow> Inl ''hub''
     | Some path \<Rightarrow> cres_bind (get_files F repo fs) (\<lambda>result. Inr (path # result)))"

definition hub_load_safetensors :: "('t, 'w) files \<Rightarrow> string \<Rightarrow> string \<Rightarrow> string list cres" where
  "hub_load_safetensors F repo json_file = (case hub_get F repo json_file of
       None \<Rightarrow> Inl ''hub''
     | Some path \<Rightarrow> cres_bind (fs_index F path) (\<lambda>json. case json of
           NoWeightMap \<Rightarrow> Inl ''no weight map''
         | NotAMap \<Rightarrow> Inl ''weight map is not a map''
         | WeightMap weight_map \<Rightarrow> get_files F repo (hash_order F (List.map_filter snd weight_map))))"

definition hub_path :: "('t, 'w) files \<Rightarrow> string \<Rightarrow> string \<Rightarrow> string res" where
  "hub_path F repo filename = unwrap_option UnwrapOnErr (hub_get F repo filename)"

definition model_filenames :: "('t, 'w) files \<Rightarrow> string \<Rightarrow> string \<Rightarrow> string list res" where
  "model_filenames F repo filename =
     (if ends_with filename ''.js''
      then (case hub_load_safetensors F repo filename of Inl _ \<Rightarrow> Inl UnwrapOnErr | Inr ps \<Rightarrow> Inr ps)
      else res_bind (hub_path F repo filename) (\<lambda>p. Inr [p]))"

section \<open>Llama\<close>

record model_resource =
  mres_repo :: string
  mres_tokenizer :: string
  mres_config :: string
  mres_model :: string

definition unwrap_cres :: "'a cres \<Rightarrow> 'a res" where
  "unwrap_cres r = (case r of Inl _ \<Rightarrow> Inl UnwrapOnErr | Inr x \<Rightarrow> Inr x)"

text \<open>What the model and its layers both begin with: the configuration and the weights.\<close>

definition open_llama :: "('t, 'w) files \<Rightarrow> model_resource \<Rightarrow> dtype \<Rightarrow> bool \<Rightarrow> (config \<times> 'w var_builder) res" where
  "open_llama F resource dt flash =
     res_bind (hub_path F (mres_repo resource) (mres_config resource)) (\<lambda>config_filename.
     res_bind (unwrap_option UnwrapOnErr (fs_config F config_filename)) (\<lambda>cfg.
     let cfg = into_config cfg flash in
     res_bind (model_filenames F (mres_repo resource) (mres_model resource)) (\<lambda>filenames.
     res_bind (unwrap_option UnwrapOnErr (fs_vars F filenames dt)) (\<lambda>vb. Inr (cfg, vb)))))"

definition llama_model_new ::
  "('t, 'w) files \<Rightarrow> ('t, 'w) candle \<Rightarrow> 'g sampler \<Rightarrow> model_resource \<Rightarrow> dtype \<Rightarrow> bool \<Rightarrow> ('t, 'w, 'g) llama_model res" where
  "llama_model_new F T S resource dt flash =
     res_bind (hub_path F (mres_repo resource) (mres_tokenizer resource)) (\<lambda>tokenizer_filename.
     res_bind (unwrap_option UnwrapOnErr (fs_tokenizer F tokenizer_filename)) (\<lambda>tok.
     res_bind (open_llama F resource dt flash) (\<lambda>(cfg, vb).
     res_bind (unwrap_cres (pre_load vb cfg)) (\<lambda>pre.
     res_bind (unwrap_cres (post_load vb cfg)) (\<lambda>post.
     Inr \<lparr>lm_candle = T, lm_sampler = S, lm_tokenizer = tok, lm_pre = pre, lm_post = post, lm_config = cfg\<rparr>)))))"

definition new_layers ::
  "('t, 'w) files \<Rightarrow> model_resource \<Rightarrow> dtype \<Rightarrow> bool \<Rightarrow> u32_range \<Rightarrow> ('t, 'w) llama_layers_worker res" where
  "new_layers F resource dt flash rng =
     res_bind (open_llama F resource dt flash) (\<lambda>(cfg, vb). llama_worker_new vb rng cfg dt)"

section \<open>Phi-3\<close>

definition phi3_tokenizer_path :: "('t, 'w) files \<Rightarrow> string res" where
  "phi3_tokenizer_path F = hub_path F ''microsoft/Phi-3-mini-4k-instruct'' ''tokenizer.json''"

definition phi3_model_path :: "('t, 'w) files \<Rightarrow> string res" where
  "phi3_model_path F = hub_path F ''microsoft/Phi-3-mini-4k-instruct-gguf'' ''Phi-3-mini-4k-instruct-q4.gguf''"

definition phi3_model_new :: "('t, 'w) files \<Rightarrow> ('t, 'w) candle \<Rightarrow> 'g sampler \<Rightarrow> ('t, 'w, 'g) phi3_model res" where
  "phi3_model_new F T S =
     res_bind (phi3_tokenizer_path F) (\<lambda>tokenizer_file.
     res_bind (unwrap_option UnwrapOnErr (fs_tokenizer F tokenizer_file)) (\<lambda>tok.
     res_bind (phi3_model_path F) (\<lambda>model_file.
     res_bind (unwrap_option UnwrapOnErr (fs_gguf F model_file)) (\<lambda>G.
     res_bind (unwrap_cres (phi3_pre_new G)) (\<lambda>pre.
     res_bind (unwrap_cres (phi3_post_new G)) (\<lambda>post.
     Inr \<lparr>pm_candle = T, pm_sampler = S, pm_tokenizer = tok, pm_pre = pre, pm_post = post\<rparr>))))))"

section \<open>The device\<close>

datatype device = Cpu | Cuda | Metal

text \<open>\<open>cuda\<close> and \<open>metal\<close>: whether the device is available, and whether it can be opened.\<close>

definition get_device :: "bool \<times> bool \<Rightarrow> bool \<times> bool \<Rightarrow> bool \<Rightarrow> device cres" where
  "get_device cuda metal cpu =
     (if cpu then Inr Cpu
      else if fst cuda then (if snd cuda then Inr Cuda else Inl ''cuda'')
      else if fst metal then (if snd metal then Inr Metal else Inl ''metal'')
      else Inr Cpu)"

section \<open>Which files are opened\<close>

definition hash_ok :: "('t, 'w) files \<Rightarrow> bool" where
  "hash_ok F \<longleftrightarrow> (\<forall>xs. set (hash_order F xs) = set xs \<and> distinct (hash_order F xs))"

lemma get_files_Inr: "get_files F repo fs = Inr ps \<longleftrightarrow> map (hub_get F repo) fs = map Some ps"
proof (induction fs arbitrary: ps)
  case (Cons f fs)
  show ?case
  proof (cases "get_files F repo fs")
    case (Inl e)
    then show ?thesis using Cons[of "tl ps"] by (cases ps) (auto simp: cres_bind_def split: option.splits)
  next
    case (Inr qs)
    then show ?thesis using Cons[of qs] Cons[of "tl ps"] by (cases ps) (auto simp: cres_bind_def split: option.splits)
  qed
qed auto

text \<open>An index of weight files gives each of its files once, whichever tensors share them.\<close>

lemma index_files_once:
  assumes "hash_ok F" "hub_load_safetensors F repo json_file = Inr ps"
  shows "\<exists>path weights. hub_get F repo json_file = Some path \<and> fs_index F path = Inr (WeightMap weights) \<and>
    Some ` set ps = hub_get F repo ` {f. \<exists>t. (t, Some f) \<in> set weights} \<and> length ps = card {f. \<exists>t. (t, Some f) \<in> set weights}"
proof -
  obtain path weights where w: "hub_get F repo json_file = Some path" "fs_index F path = Inr (WeightMap weights)"
    "get_files F repo (hash_order F (List.map_filter snd weights)) = Inr ps"
    using assms(2) by (auto simp: hub_load_safetensors_def cres_bind_def split: option.splits sum.splits weight_index.splits)
  let ?fs = "hash_order F (List.map_filter snd weights)"
  have fs: "set ?fs = {f. \<exists>t. (t, Some f) \<in> set weights}" "distinct ?fs"
    using assms(1) by (force simp: hash_ok_def List.map_filter_def)+
  have m: "map (hub_get F repo) ?fs = map Some ps" using w(3) by (simp add: get_files_Inr)
  then have "Some ` set ps = hub_get F repo ` set ?fs" by (metis list.set_map)
  moreover have "length ps = card (set ?fs)" using m fs(2) by (metis distinct_card length_map)
  ultimately show ?thesis using w(1,2) fs(1) by auto
qed

text \<open>
  An index of the name the vision model has is not taken for one: the index itself is opened
  as the weights.
\<close>

lemma vision_index_is_opened:
  "hub_get F repo ''model.safetensors.index.json'' = Some p \<Longrightarrow> model_filenames F repo ''model.safetensors.index.json'' = Inr [p]"
  by (simp add: model_filenames_def ends_with_def hub_path_def)

text \<open>
  The chat and the layers of one resource are loaded from the same configuration, and a worker for
  layers beyond those of the configuration is not loaded.
\<close>

lemma model_and_layers_agree:
  assumes "llama_model_new F T S resource dt flash = Inr M" "new_layers F resource dt flash rng = Inr w"
  shows "lm_config M = lw_cfg w \<and> rend rng \<le> ucast (num_hidden_layers (lm_config M)) \<and> length (lw_llama w) = length (range_list rng)"
  using assms
  by (auto simp: llama_model_new_def new_layers_def llama_worker_new_def llama_layers_load_def res_mapM_Inr split: if_split_asm elim!: res_bind_InrE)

end
