(* ===== verification/Server_Control.thy ===== *)
theory Server_Control
  imports Communication Chain_Client Model_Files
begin

text \<open>
  The server around the workers: the control interface of
  \<^verbatim>\<open>bin/openai-server/src/api_control.rs\<close>, the worker task of \<^verbatim>\<open>worker.rs\<close>, the
  dispatch of chats and the two modes of \<^verbatim>\<open>lib.rs\<close>, and the main loop of
  \<^verbatim>\<open>bin/layer-worker/src/main.rs\<close>.

  A worker runs in a task of its own; a task is known by a number, which stands for the
  sending end of its control channel. What a handler asks of a running task is answered in one
  step; \<open>NoAnswer\<close> says that the handler waits, because the task is still loading, and nothing
  has changed. A panic in a handler ends that request, a panic in a task ends the task: its
  channels are closed, and nothing else happens. The branches of the worker are those of
  \<open>comm_step\<close>, as if one that has begun is never cancelled by another source of the loop.

  The layers and the model a task loads, the sockets, the key of the account and the chain are fields of
  the parameter record \<open>server_env\<close>; what loading does for each model is in \<open>Model_Files\<close>.
\<close>

section \<open>Models\<close>

datatype model_exe = Phi3Exe | LlamaExe model_resource | FakeExe

record worker_spec =
  wsp_exe :: model_exe
  wsp_layers :: nat
  wsp_model :: model

definition llama_resource :: "string \<Rightarrow> string \<Rightarrow> model_resource" where
  "llama_resource repo file = \<lparr>mres_repo = repo, mres_tokenizer = ''tokenizer.json'', mres_config = ''config.json'', mres_model = file\<rparr>"

definition model_entry :: "string \<Rightarrow> string \<Rightarrow> model" where
  "model_entry i owned_by = \<lparr>model_id = i, model_object = ''model'', model_created = 0, model_owned_by = owned_by\<rparr>"

definition model_spec :: "string \<Rightarrow> worker_spec res" where
  "model_spec name =
     (if name = ''phi3'' then Inr \<lparr>wsp_exe = Phi3Exe, wsp_layers = 32, wsp_model = model_entry ''phi3'' ''Microsoft''\<rparr>
      else if name = ''llama32-1b''
      then Inr \<lparr>wsp_exe = LlamaExe (llama_resource ''unsloth/Llama-3.2-1B-Instruct'' ''model.safetensors''), wsp_layers = 16,
                wsp_model = model_entry ''llama32-1b'' ''unsloth''\<rparr>
      else if name = ''llama32-3b''
      then Inr \<lparr>wsp_exe = LlamaExe (llama_resource ''unsloth/Llama-3.2-3B-Instruct'' ''model.safetensors''), wsp_layers = 28,
                wsp_model = model_entry ''llama32-3b'' ''unsloth''\<rparr>
      else if name = ''llama32-vision-11b''
      then Inr \<lparr>wsp_exe = LlamaExe (llama_resource ''unsloth/Llama-3.2-11B-Vision-Instruct'' ''model.safetensors.index.json''), wsp_layers = 40,
                wsp_model = model_entry ''llama32-11b'' ''unsloth''\<rparr>
      else if name = ''fake'' then Inr \<lparr>wsp_exe = FakeExe, wsp_layers = 16, wsp_model = model_entry ''fake'' ''fake''\<rparr>
      else Inl Unsupported)"

definition build_prompt :: "model_exe \<Rightarrow> chat_completion_request \<Rightarrow> ustr res" where
  "build_prompt exe req = (case exe of
       Phi3Exe \<Rightarrow> Inr (phi3_build_prompt req)
     | LlamaExe _ \<Rightarrow> Inr (llama_build_prompt req)
     | FakeExe \<Rightarrow> Inl TodoReached)"

section \<open>State\<close>

type_synonym ('a, 'r, 'p, 'l, 'addr, 'pk) runner = "('a, 'r, 'p, 'l, ('addr, 'pk) onchain_service) worker_communication"

datatype ('a, 'r, 'p, 'l, 'addr, 'pk) task =
    Loading string u32_range
  | Running worker_spec "('a, 'r, 'p, 'l, 'addr, 'pk) runner"
  | Closing worker_spec
  | Ended

record 'addr model_state =
  mst_model :: string
  mst_from_layer :: u32
  mst_to_layer :: u32
  mst_query_tx :: nat
  mst_wallet :: "'addr onchain_client"

text \<open>\<open>sv_chats\<close> are the chats that were spawned, each with the task whose model runs it.\<close>

record ('a, 'r, 'p, 'l, 'addr, 'pk) server =
  sv_models :: "(string, 'addr model_state) hmap"
  sv_store :: model_store
  sv_tasks :: "('a, 'r, 'p, 'l, 'addr, 'pk) task list"
  sv_chat_queue :: "chat_start_request list"
  sv_chats :: "(nat \<times> session \<times> chat_cfg \<times> ustr) list"

record ('a, 'r, 'p, 't, 'l, 'addr, 'pk, 'x, 'c) server_env =
  se_registry_server :: string
  se_node_id :: node_id
  se_stun_server :: string
  se_resolve :: "string \<Rightarrow> 'a list option"
  se_cuda :: "bool \<times> bool"
  se_metal :: "bool \<times> bool"
  se_load_layers :: "model_exe \<Rightarrow> u32_range \<Rightarrow> 'l res"
  se_connect :: "string \<Rightarrow> string \<Rightarrow> node_id \<Rightarrow> bool"
  se_local :: "'a res"
  se_public :: "'a list \<Rightarrow> 'a option"
  se_now :: instant
  se_load_exe :: "model_exe \<Rightarrow> unit res"
  se_account :: "string \<Rightarrow> 'addr onchain_client option"
  se_chain :: "('addr, 'x, 'c) chain_ops"
  se_world :: 'c
  se_show_address :: "'addr \<Rightarrow> string"
  se_comm :: "('a, 'r, 'p, 't, 'l, ('addr, 'pk) onchain_service) comm_env"
  se_conv :: "f32 \<Rightarrow> f64"

definition server_new :: "('a, 'r, 'p, 'l, 'addr, 'pk) server" where
  "server_new = \<lparr>sv_models = [], sv_store = [], sv_tasks = [], sv_chat_queue = [], sv_chats = []\<rparr>"

section \<open>The worker task\<close>

definition runner_connect ::
  "('a, 'r, 'p, 't, 'l, 'addr, 'pk, 'x, 'c) server_env \<Rightarrow> string \<Rightarrow> nat \<Rightarrow> u32_range \<Rightarrow> 'l \<Rightarrow> 'a list \<Rightarrow> ('a, 'r, 'p, 'l, 'addr, 'pk) runner res" where
  "runner_connect E model n layers lw stun_servers =
     (if se_connect E (se_registry_server E) model (se_node_id E)
      then res_bind (se_local E) (\<lambda>loc.
        Inr (runner_new n layers lw (oc_new layers)
          (nn_new (se_node_id E) loc stun_servers (se_public E stun_servers) (se_now E))))
      else Inl (ExpectFailed ''Should connect success''))"

text \<open>\<open>run_model_worker\<close> up to the loop.\<close>

definition load_worker ::
  "('a, 'r, 'p, 't, 'l, 'addr, 'pk, 'x, 'c) server_env \<Rightarrow> string \<Rightarrow> u32_range \<Rightarrow> (worker_spec \<times> ('a, 'r, 'p, 'l, 'addr, 'pk) runner) res" where
  "load_worker E model layers =
     res_bind (unwrap_option UnwrapOnErr (se_resolve E (se_stun_server E))) (\<lambda>stun_servers.
     res_bind (unwrap_cres (get_device (se_cuda E) (se_metal E) False)) (\<lambda>_.
     res_bind (model_spec model) (\<lambda>spec.
     res_bind (se_load_layers E (wsp_exe spec) layers) (\<lambda>lw.
     res_bind (runner_connect E model (wsp_layers spec) layers lw stun_servers) (\<lambda>worker.
     res_bind (se_load_exe E (wsp_exe spec)) (\<lambda>_. Inr (spec, worker)))))))"

text \<open>
  The channel of chats of a task has its number. A task that panics leaves its entry in the store, with nobody to
  receive.
\<close>

definition drop_receiver :: "nat \<Rightarrow> string \<Rightarrow> model_store \<Rightarrow> model_store" where
  "drop_receiver t i st = (case hm_get st i of
       None \<Rightarrow> st
     | Some e \<Rightarrow> if mse_tx e = t then hm_insert i (e\<lparr>mse_queue := [], mse_open := False\<rparr>) st else st)"

definition set_task ::
  "nat \<Rightarrow> ('a, 'r, 'p, 'l, 'addr, 'pk) task \<Rightarrow> ('a, 'r, 'p, 'l, 'addr, 'pk) server \<Rightarrow> ('a, 'r, 'p, 'l, 'addr, 'pk) server" where
  "set_task t k s = s\<lparr>sv_tasks := (sv_tasks s)[t := k]\<rparr>"

definition task_panics ::
  "nat \<Rightarrow> worker_spec \<Rightarrow> ('a, 'r, 'p, 'l, 'addr, 'pk) server \<Rightarrow> ('a, 'r, 'p, 'l, 'addr, 'pk) server" where
  "task_panics t spec s = set_task t Ended (s\<lparr>sv_store := drop_receiver t (model_id (wsp_model spec)) (sv_store s)\<rparr>)"

definition task_loaded ::
  "('a, 'r, 'p, 't, 'l, 'addr, 'pk, 'x, 'c) server_env \<Rightarrow> nat \<Rightarrow> string \<Rightarrow> u32_range \<Rightarrow> ('a, 'r, 'p, 'l, 'addr, 'pk) server \<Rightarrow>
    ('a, 'r, 'p, 'l, 'addr, 'pk) server" where
  "task_loaded E t model layers s = (case load_worker E model layers of
       Inl _ \<Rightarrow> set_task t Ended s
     | Inr (spec, w) \<Rightarrow> set_task t (Running spec w) (s\<lparr>sv_store := add_model t (wsp_model spec) (sv_store s)\<rparr>))"

definition task_work ::
  "('a, 'r, 'p, 't, 'l, 'addr, 'pk, 'x, 'c) server_env \<Rightarrow> nat \<Rightarrow> ('a, 'r) comm_input \<Rightarrow> worker_spec \<Rightarrow> ('a, 'r, 'p, 'l, 'addr, 'pk) runner \<Rightarrow>
    ('a, 'r, 'p, 'l, 'addr, 'pk) server \<Rightarrow> ('a, 'r, 'p, 'l, 'addr, 'pk) server" where
  "task_work E t i spec w s = (case comm_step (se_comm E) i w of
       Inl _ \<Rightarrow> task_panics t spec s
     | Inr (True, w) \<Rightarrow> set_task t (Running spec w) s
     | Inr (False, _) \<Rightarrow> set_task t (Closing spec) s)"

text \<open>
  The channel of chats: a request, or its end when the store no longer has the sender (the model was
  removed or another task has taken its place), or nothing yet.
\<close>

definition task_chat ::
  "nat \<Rightarrow> worker_spec \<Rightarrow> ('a, 'r, 'p, 'l, 'addr, 'pk) server \<Rightarrow> ('a, 'r, 'p, 'l, 'addr, 'pk) server" where
  "task_chat t spec s = (case hm_get (sv_store s) (model_id (wsp_model spec)) of
       None \<Rightarrow> set_task t (Closing spec) s
     | Some e \<Rightarrow> if mse_tx e \<noteq> t then set_task t (Closing spec) s else (case pop_front (mse_queue e) of
           None \<Rightarrow> s
         | Some (req, rest) \<Rightarrow>
             (case build_prompt (wsp_exe spec) (cs_req req) of
                Inl _ \<Rightarrow> task_panics t spec s
              | Inr prompt \<Rightarrow> s\<lparr>sv_store := hm_insert (model_id (wsp_model spec)) (e\<lparr>mse_queue := rest\<rparr>) (sv_store s),
                  sv_chats := push_back (sv_chats s) (t, cs_session req, cs_cfg req, prompt)\<rparr>)))"

definition task_exit ::
  "nat \<Rightarrow> worker_spec \<Rightarrow> ('a, 'r, 'p, 'l, 'addr, 'pk) server \<Rightarrow> ('a, 'r, 'p, 'l, 'addr, 'pk) server" where
  "task_exit t spec s = set_task t Ended (s\<lparr>sv_store := remove_model (model_id (wsp_model spec)) (sv_store s)\<rparr>)"

section \<open>The handlers\<close>

record worker_status =
  wst_ready :: bool
  wst_peers :: "string list"
  wst_sessions :: "u64 list"

record wallet_status =
  wal_spending :: u64
  wal_earning :: u64
  wal_balance :: "u64 option"
  wal_topup_balance :: "u64 option"
  wal_address :: string

record model_status =
  mos_status :: string
  mos_model :: string
  mos_from_layer :: u32
  mos_to_layer :: u32
  mos_peers :: "string list"
  mos_sessions :: u32
  mos_wallet :: wallet_status

datatype http_res = HttpOk | HttpModels "model_status list" | HttpBadRequest string

text \<open>The branch \<open>WorkerControl::Status\<close> of the loop.\<close>

definition worker_status_of :: "('a, 'r, 'p, 'l, 'addr, 'pk) runner \<Rightarrow> worker_status res" where
  "worker_status_of w = res_bind (comm_ready w) (\<lambda>r. Inr \<lparr>wst_ready = r, wst_peers = comm_peers w, wst_sessions = comm_sessions w\<rparr>)"

definition model_status_of ::
  "('a, 'r, 'p, 't, 'l, 'addr, 'pk, 'x, 'c) server_env \<Rightarrow> 'addr model_state \<Rightarrow> worker_status \<Rightarrow> ('addr, 'pk) onchain_service \<Rightarrow> model_status res" where
  "model_status_of E m st usage =
     (let balance = current_balance (se_chain E) (se_world E) (mst_wallet m) in
      res_bind (topup_balance (se_chain E) (se_world E) (mst_wallet m)) (\<lambda>topup.
      Inr \<lparr>mos_status = (if wst_ready st then ''ready'' else ''incomplete''), mos_model = mst_model m, mos_from_layer = mst_from_layer m,
        mos_to_layer = mst_to_layer m, mos_peers = wst_peers st, mos_sessions = word_of_nat (length (wst_sessions st)),
        mos_wallet = \<lparr>wal_spending = spending_token_count usage, wal_earning = earning_token_count usage,
          wal_balance = balance, wal_topup_balance = topup, wal_address = se_show_address E (cl_address (mst_wallet m))\<rparr>\<rparr>))"

fun status_loop ::
  "('a, 'r, 'p, 't, 'l, 'addr, 'pk, 'x, 'c) server_env \<Rightarrow> 'addr model_state list \<Rightarrow> model_status list \<Rightarrow> ('a, 'r, 'p, 'l, 'addr, 'pk) server \<Rightarrow>
    http_res res \<times> ('a, 'r, 'p, 'l, 'addr, 'pk) server" where
  "status_loop E [] acc s = (Inr (HttpModels acc), s)"
| "status_loop E (m # ms) acc s = (case vec_get (sv_tasks s) (mst_query_tx m) of
       Some (Running spec w) \<Rightarrow> (case worker_status_of w of
           Inl _ \<Rightarrow> (Inl UnwrapOnErr, task_panics (mst_query_tx m) spec s)
         | Inr st \<Rightarrow> (case model_status_of E m st (ms_usage (wc_service w)) of
               Inl p \<Rightarrow> (Inl p, s)
             | Inr status \<Rightarrow> status_loop E ms (push_back acc status) s))
     | Some (Loading _ _) \<Rightarrow> (Inl NoAnswer, s)
     | _ \<Rightarrow> (Inl UnwrapOnErr, s))"

definition p2p_status ::
  "('a, 'r, 'p, 't, 'l, 'addr, 'pk, 'x, 'c) server_env \<Rightarrow> ('a, 'r, 'p, 'l, 'addr, 'pk) server \<Rightarrow> http_res res \<times> ('a, 'r, 'p, 'l, 'addr, 'pk) server" where
  "p2p_status E s = status_loop E (map snd (sv_models s)) [] s"

definition spawn_worker ::
  "string \<Rightarrow> u32 \<Rightarrow> u32 \<Rightarrow> 'addr onchain_client \<Rightarrow> ('a, 'r, 'p, 'l, 'addr, 'pk) server \<Rightarrow> ('a, 'r, 'p, 'l, 'addr, 'pk) server" where
  "spawn_worker model from_layer to_layer wallet s =
     s\<lparr>sv_tasks := push_back (sv_tasks s) (Loading model (mk_range from_layer to_layer)),
       sv_models := hm_insert model
         \<lparr>mst_model = model, mst_from_layer = from_layer, mst_to_layer = to_layer, mst_query_tx = length (sv_tasks s), mst_wallet = wallet\<rparr> (sv_models s)\<rparr>"

text \<open>The account and its first request to the chain, before a worker is spawned.\<close>

definition init_wallet :: "('a, 'r, 'p, 't, 'l, 'addr, 'pk, 'x, 'c) server_env \<Rightarrow> string \<Rightarrow> 'addr onchain_client res" where
  "init_wallet E private_key =
     res_bind (unwrap_option (ExpectFailed ''Invalid private key'') (se_account E private_key)) (\<lambda>account.
     service_init (se_chain E) (se_world E) account)"

definition p2p_start ::
  "('a, 'r, 'p, 't, 'l, 'addr, 'pk, 'x, 'c) server_env \<Rightarrow> string \<Rightarrow> u32 \<Rightarrow> u32 \<Rightarrow> string \<Rightarrow> ('a, 'r, 'p, 'l, 'addr, 'pk) server \<Rightarrow>
    http_res res \<times> ('a, 'r, 'p, 'l, 'addr, 'pk) server" where
  "p2p_start E model from_layer to_layer private_key s =
     (if hm_contains (sv_models s) model then (Inr (HttpBadRequest ''Model already started''), s)
      else (case init_wallet E private_key of
          Inl p \<Rightarrow> (Inl p, s)
        | Inr wallet \<Rightarrow> (Inr HttpOk, spawn_worker model from_layer to_layer wallet s)))"

definition p2p_stop :: "string \<Rightarrow> ('a, 'r, 'p, 'l, 'addr, 'pk) server \<Rightarrow> http_res res \<times> ('a, 'r, 'p, 'l, 'addr, 'pk) server" where
  "p2p_stop model s = (case hm_get (sv_models s) model of
       None \<Rightarrow> (Inr (HttpBadRequest ''Model not started''), s)
     | Some m \<Rightarrow> (case vec_get (sv_tasks s) (mst_query_tx m) of
           Some (Running spec _) \<Rightarrow> (Inr HttpOk, set_task (mst_query_tx m) (Closing spec) (s\<lparr>sv_models := hm_remove model (sv_models s)\<rparr>))
         | Some (Loading _ _) \<Rightarrow> (Inl NoAnswer, s)
         | _ \<Rightarrow> (Inl UnwrapOnErr, s)))"

text \<open>The task that hands chat requests to their models; one that fails is dropped.\<close>

definition dispatch_chat :: "('a, 'r, 'p, 'l, 'addr, 'pk) server \<Rightarrow> ('a, 'r, 'p, 'l, 'addr, 'pk) server" where
  "dispatch_chat s = (case pop_front (sv_chat_queue s) of
       None \<Rightarrow> s
     | Some (req, rest) \<Rightarrow> s\<lparr>sv_chat_queue := rest, sv_store := snd (send_model req (sv_store s))\<rparr>)"

text \<open>Gateway mode: one worker without layers for every model of the command line.\<close>

fun gateway_start ::
  "('a, 'r, 'p, 't, 'l, 'addr, 'pk, 'x, 'c) server_env \<Rightarrow> string \<Rightarrow> string list \<Rightarrow> ('a, 'r, 'p, 'l, 'addr, 'pk) server \<Rightarrow>
    ('a, 'r, 'p, 'l, 'addr, 'pk) server res" where
  "gateway_start E private_key [] s = Inr s"
| "gateway_start E private_key (model # model_ids) s =
     res_bind (init_wallet E private_key) (\<lambda>wallet. gateway_start E private_key model_ids (spawn_worker model 0 0 wallet s))"

section \<open>Runs\<close>

datatype ('a, 'r) server_input =
    HttpStatus
  | HttpStart string u32 u32 string
  | HttpStop string
  | HttpChat session chat_completion_request
  | Dispatch
  | TaskLoaded nat
  | TaskWork nat "('a, 'r) comm_input"
  | TaskChat nat
  | TaskExit nat

fun server_step ::
  "('a, 'r, 'p, 't, 'l, 'addr, 'pk, 'x, 'c) server_env \<Rightarrow> ('a, 'r) server_input \<Rightarrow> ('a, 'r, 'p, 'l, 'addr, 'pk) server \<Rightarrow>
    ('a, 'r, 'p, 'l, 'addr, 'pk) server" where
  "server_step E HttpStatus s = snd (p2p_status E s)"
| "server_step E (HttpStart m from_layer to_layer key) s = snd (p2p_start E m from_layer to_layer key s)"
| "server_step E (HttpStop m) s = snd (p2p_stop m s)"
| "server_step E (HttpChat ses req) s = s\<lparr>sv_chat_queue := snd (chat_completions (se_conv E) ses True req (sv_chat_queue s))\<rparr>"
| "server_step E Dispatch s = dispatch_chat s"
| "server_step E (TaskLoaded t) s = (case vec_get (sv_tasks s) t of Some (Loading m r) \<Rightarrow> task_loaded E t m r s | _ \<Rightarrow> s)"
| "server_step E (TaskWork t i) s = (case vec_get (sv_tasks s) t of Some (Running spec w) \<Rightarrow> task_work E t i spec w s | _ \<Rightarrow> s)"
| "server_step E (TaskChat t) s = (case vec_get (sv_tasks s) t of Some (Running spec _) \<Rightarrow> task_chat t spec s | _ \<Rightarrow> s)"
| "server_step E (TaskExit t) s = (case vec_get (sv_tasks s) t of Some (Closing spec) \<Rightarrow> task_exit t spec s | _ \<Rightarrow> s)"

definition server_run ::
  "('a, 'r, 'p, 't, 'l, 'addr, 'pk, 'x, 'c) server_env \<Rightarrow> ('a, 'r) server_input list \<Rightarrow> ('a, 'r, 'p, 'l, 'addr, 'pk) server \<Rightarrow>
    ('a, 'r, 'p, 'l, 'addr, 'pk) server" where
  "server_run E is s = fold (server_step E) is s"

section \<open>A worker that has ended\<close>

lemma task_at_set:
  "vec_get ((sv_tasks s)[t := k]) t' = (if t' = t \<and> t < length (sv_tasks s) then Some k else vec_get (sv_tasks s) t')"
  by (auto simp: vec_get_def)

lemma task_at_push: "vec_get (push_back ts k) t = (if t = length ts then Some k else vec_get ts t)"
  by (auto simp: vec_get_def push_back_def nth_append)

lemmas server_defs = set_task_def task_panics_def task_loaded_def task_work_def task_chat_def task_exit_def

text \<open>The status loop leaves everything but a task that panics, and only a complete answer is an answer.\<close>

lemma status_loop_frame:
  "\<exists>r. status_loop E ms acc s = (r, s) \<or>
    (\<exists>t spec w. vec_get (sv_tasks s) t = Some (Running spec w) \<and> status_loop E ms acc s = (r, task_panics t spec s))"
proof (induction ms arbitrary: acc)
  case (Cons m ms)
  show ?case
  proof (cases "vec_get (sv_tasks s) (mst_query_tx m)")
    case (Some k)
    show ?thesis
    proof (cases k)
      case (Running spec w)
      show ?thesis
      proof (cases "worker_status_of w")
        case (Inr st)
        then show ?thesis using Some Running Cons.IH by (cases "model_status_of E m st (ms_usage (wc_service w))") auto
      qed (use Some Running in auto)
    qed (use Some in auto)
  qed auto
qed auto

lemma status_needs_running:
  assumes "m \<in> set ms" "\<forall>spec w. vec_get (sv_tasks s) (mst_query_tx m) \<noteq> Some (Running spec w)"
  shows "\<exists>p. fst (status_loop E ms acc s) = Inl p"
  using assms
proof (induction ms arbitrary: acc)
  case (Cons m' ms)
  then show ?case by (auto split: option.splits task.splits sum.splits)
qed simp

text \<open>The steps of the tasks: which task they change, and that they leave the table of models.\<close>

fun busy :: "('a, 'r, 'p, 'l, 'addr, 'pk) task option \<Rightarrow> bool" where
  "busy (Some Ended) = False"
| "busy None = False"
| "busy _ = True"

lemma task_step_frame:
  assumes "\<forall>m f k key. i \<noteq> HttpStart m f k key" "\<forall>m. i \<noteq> HttpStop m"
  shows "sv_models (server_step E i s) = sv_models s \<and>
    (\<forall>t. \<not> busy (vec_get (sv_tasks s) t) \<longrightarrow> vec_get (sv_tasks (server_step E i s)) t = vec_get (sv_tasks s) t)"
proof (cases i)
  case HttpStatus
  obtain r where "status_loop E (map snd (sv_models s)) [] s = (r, s) \<or>
    (\<exists>t spec w. vec_get (sv_tasks s) t = Some (Running spec w) \<and> status_loop E (map snd (sv_models s)) [] s = (r, task_panics t spec s))"
    using status_loop_frame by blast
  then show ?thesis using HttpStatus by (auto simp: p2p_status_def server_defs task_at_set)
next
  case Dispatch
  then show ?thesis by (auto simp: dispatch_chat_def split: option.splits)
next
  case (HttpChat ses req)
  then show ?thesis by simp
qed (use assms in \<open>auto simp: server_defs task_at_set split: option.splits task.splits sum.splits prod.splits bool.splits\<close>)

definition stuck :: "string \<Rightarrow> 'addr model_state \<Rightarrow> ('a, 'r, 'p, 'l, 'addr, 'pk) server \<Rightarrow> bool" where
  "stuck m st s \<longleftrightarrow> hm_get (sv_models s) m = Some st \<and> vec_get (sv_tasks s) (mst_query_tx st) = Some Ended"

lemma stuck_step:
  assumes "stuck m st s"
  shows "stuck m st (server_step E i s)"
proof (cases i)
  case (HttpStart m' f k key)
  then show ?thesis using assms
    by (auto simp: stuck_def p2p_start_def spawn_worker_def hm_get_insert hm_contains_def task_at_push vec_get_def push_back_def nth_append split: sum.splits if_splits)
next
  case (HttpStop m')
  then show ?thesis using assms
    by (auto simp: stuck_def p2p_stop_def set_task_def hm_get_remove task_at_set split: option.splits task.splits)
qed (use assms task_step_frame[of i E s] in \<open>auto simp: stuck_def\<close>)

interpretation stuck: preserved "\<lambda>s s'. \<exists>i. s' = server_step E i s" "stuck m st" for E m st
  by unfold_locales (auto intro: stuck_step)

lemma stuck_run: "stuck m st s \<Longrightarrow> stuck m st (server_run E is s)"
  unfolding server_run_def by (rule stuck.run) blast+

text \<open>
  C14. A worker that has ended by itself (its peer network closed, it was sent an empty message, it
  panicked) cannot be replaced: whatever happens to the server afterwards, the model stays in its
  table, a start of it is refused as already started, a stop of it panics, and so does every
  request for the status of the server.
\<close>

theorem ended_worker_cannot_restart:
  assumes "hm_get (sv_models s) m = Some st" "vec_get (sv_tasks s) (mst_query_tx st) = Some Ended" "s' = server_run E is s"
  shows "p2p_start E m from_layer to_layer key s' = (Inr (HttpBadRequest ''Model already started''), s') \<and>
    p2p_stop m s' = (Inl UnwrapOnErr, s') \<and> (\<exists>p. fst (p2p_status E s') = Inl p)"
proof -
  have st: "stuck m st s'" using assms stuck_run unfolding stuck_def by fast
  then have "st \<in> set (map snd (sv_models s'))"
    unfolding stuck_def by (metis image_eqI list.set_map map_of_SomeD snd_conv)
  moreover have "vec_get (sv_tasks s') (mst_query_tx st) \<noteq> Some (Running spec w)" for spec w using st by (simp add: stuck_def)
  ultimately have "\<exists>p. fst (p2p_status E s') = Inl p" unfolding p2p_status_def by (intro status_needs_running) blast+
  then show ?thesis using st by (simp add: stuck_def p2p_start_def p2p_stop_def hm_contains_def)
qed

section \<open>Models, tasks and the store\<close>

fun serves_model :: "('a, 'r, 'p, 'l, 'addr, 'pk) task \<Rightarrow> string \<Rightarrow> bool" where
  "serves_model (Loading m _) m' \<longleftrightarrow> m' = m"
| "serves_model (Running spec _) m \<longleftrightarrow> model_spec m = Inr spec"
| "serves_model (Closing spec) m \<longleftrightarrow> model_spec m = Inr spec"
| "serves_model Ended m \<longleftrightarrow> False"

fun live :: "('a, 'r, 'p, 'l, 'addr, 'pk) task \<Rightarrow> bool" where
  "live (Loading _ _) \<longleftrightarrow> True"
| "live (Running _ _) \<longleftrightarrow> True"
| "live _ \<longleftrightarrow> False"

text \<open>The model whose chats a task receives.\<close>

fun receives :: "('a, 'r, 'p, 'l, 'addr, 'pk) task \<Rightarrow> string \<Rightarrow> bool" where
  "receives (Running spec _) i \<longleftrightarrow> model_id (wsp_model spec) = i"
| "receives (Closing spec) i \<longleftrightarrow> model_id (wsp_model spec) = i"
| "receives _ i \<longleftrightarrow> False"

definition names_inv :: "(string, 'addr model_state) hmap \<Rightarrow> ('a, 'r, 'p, 'l, 'addr, 'pk) task list \<Rightarrow> bool" where
  "names_inv ms ts \<longleftrightarrow>
     (\<forall>m st. hm_get ms m = Some st \<longrightarrow> (\<exists>k. vec_get ts (mst_query_tx st) = Some k \<and> (k = Ended \<or> serves_model k m))) \<and>
     (\<forall>t k. vec_get ts t = Some k \<longrightarrow> live k \<longrightarrow> (\<exists>m st. serves_model k m \<and> hm_get ms m = Some st \<and> mst_query_tx st = t))"

definition store_inv :: "model_store \<Rightarrow> ('a, 'r, 'p, 'l, 'addr, 'pk) task list \<Rightarrow> bool" where
  "store_inv st ts \<longleftrightarrow> (\<forall>i e. hm_get st i = Some e \<longrightarrow> mse_open e \<longrightarrow> (\<exists>k. vec_get ts (mse_tx e) = Some k \<and> receives k i))"

definition server_inv :: "('a, 'r, 'p, 'l, 'addr, 'pk) server \<Rightarrow> bool" where
  "server_inv s \<longleftrightarrow> names_inv (sv_models s) (sv_tasks s) \<and> store_inv (sv_store s) (sv_tasks s)"

lemma vec_get_update: "vec_get (ts[t := k]) t' = (if t' = t \<and> t < length ts then Some k else vec_get ts t')"
  by (auto simp: vec_get_def)

lemma vec_get_less: "vec_get ts t = Some k \<Longrightarrow> t < length ts"
  by (simp add: vec_get_def split: if_splits)

lemma names_inv_update:
  assumes "names_inv ms ts" "vec_get ts t = Some k"
    and "k' = Ended \<or> ((\<forall>m. serves_model k m \<longrightarrow> serves_model k' m) \<and> (live k' \<longrightarrow> live k) \<and> k \<noteq> Ended)"
  shows "names_inv ms (ts[t := k'])"
  unfolding names_inv_def
proof (intro conjI allI impI)
  fix m st assume m: "hm_get ms m = Some st"
  then obtain k1 where k1: "vec_get ts (mst_query_tx st) = Some k1" "k1 = Ended \<or> serves_model k1 m"
    using assms(1) unfolding names_inv_def by blast
  show "\<exists>k. vec_get (ts[t := k']) (mst_query_tx st) = Some k \<and> (k = Ended \<or> serves_model k m)"
    using k1 assms(2,3) vec_get_less[OF assms(2)] by (auto simp: vec_get_update)
next
  fix t' k1 assume a: "vec_get (ts[t := k']) t' = Some k1" "live k1"
  show "\<exists>m st. serves_model k1 m \<and> hm_get ms m = Some st \<and> mst_query_tx st = t'"
  proof (cases "t' = t")
    case True
    then have "k1 = k'" "live k" using a assms(2,3) vec_get_less[OF assms(2)] by (auto simp: vec_get_update)
    with assms a(2) True show ?thesis unfolding names_inv_def by (metis live.simps(4))
  next
    case False
    then show ?thesis using a assms(1) unfolding names_inv_def by (auto simp: vec_get_update)
  qed
qed

lemma store_inv_update:
  assumes "store_inv st ts" "vec_get ts t = Some k"
    and "\<And>i e. hm_get st' i = Some e \<Longrightarrow> mse_open e \<Longrightarrow>
      (mse_tx e = t \<and> receives k' i) \<or>
      (\<exists>e'. hm_get st i = Some e' \<and> mse_open e' \<and> mse_tx e' = mse_tx e \<and> (mse_tx e = t \<longrightarrow> receives k i \<longrightarrow> receives k' i))"
  shows "store_inv st' (ts[t := k'])"
  unfolding store_inv_def
proof (intro allI impI)
  fix i e assume e: "hm_get st' i = Some e" "mse_open e"
  from assms(3)[OF e] show "\<exists>k1. vec_get (ts[t := k']) (mse_tx e) = Some k1 \<and> receives k1 i"
  proof (elim disjE exE conjE)
    fix e' assume e': "hm_get st i = Some e'" "mse_open e'" "mse_tx e' = mse_tx e" "mse_tx e = t \<longrightarrow> receives k i \<longrightarrow> receives k' i"
    then obtain k1 where "vec_get ts (mse_tx e) = Some k1" "receives k1 i" using assms(1) unfolding store_inv_def by metis
    then show ?thesis using e'(4) assms(2) vec_get_less[OF assms(2)] by (auto simp: vec_get_update)
  qed (use vec_get_less[OF assms(2)] in \<open>simp add: vec_get_update\<close>)
qed

lemma store_inv_task:
  assumes "store_inv st ts" "vec_get ts t = Some k" "\<And>i. receives k i \<Longrightarrow> receives k' i"
  shows "store_inv st (ts[t := k'])"
  using assms by (auto intro: store_inv_update)

lemma load_worker_spec: "load_worker E m r = Inr (spec, w) \<Longrightarrow> model_spec m = Inr spec"
  by (auto simp: load_worker_def split: if_split_asm elim!: res_bind_InrE)

text \<open>Each step of a task.\<close>

lemma task_panics_inv:
  assumes "server_inv s" "vec_get (sv_tasks s) t = Some (Running spec w)"
  shows "server_inv (task_panics t spec s)"
proof -
  have "store_inv (drop_receiver t (model_id (wsp_model spec)) (sv_store s)) ((sv_tasks s)[t := Ended])"
    by (rule store_inv_update[OF _ assms(2)]) (use assms(1) in \<open>auto simp: server_inv_def drop_receiver_def hm_get_insert split: if_splits option.splits\<close>)
  moreover have "names_inv (sv_models s) ((sv_tasks s)[t := Ended])" using assms by (auto simp: server_inv_def intro: names_inv_update)
  ultimately show ?thesis by (simp add: server_inv_def server_defs)
qed

lemma task_loaded_inv:
  assumes "server_inv s" "vec_get (sv_tasks s) t = Some (Loading m r)"
  shows "server_inv (task_loaded E t m r s)"
proof (cases "load_worker E m r")
  case (Inl p)
  have "store_inv (sv_store s) ((sv_tasks s)[t := Ended])" by (rule store_inv_task[OF _ assms(2)]) (use assms(1) in \<open>auto simp: server_inv_def\<close>)
  moreover have "names_inv (sv_models s) ((sv_tasks s)[t := Ended])" using assms by (auto simp: server_inv_def intro: names_inv_update)
  ultimately show ?thesis using Inl by (simp add: server_inv_def server_defs)
next
  case (Inr sw)
  obtain spec w where sw: "sw = (spec, w)" by (cases sw)
  have "store_inv (add_model t (wsp_model spec) (sv_store s)) ((sv_tasks s)[t := Running spec w])"
    by (rule store_inv_update[OF _ assms(2)]) (use assms(1) in \<open>auto simp: server_inv_def add_model_def hm_get_insert split: if_splits\<close>)
  moreover have "names_inv (sv_models s) ((sv_tasks s)[t := Running spec w])"
    by (rule names_inv_update[OF _ assms(2)]) (use assms(1) load_worker_spec Inr sw in \<open>auto simp: server_inv_def\<close>)
  ultimately show ?thesis using Inr sw by (simp add: server_inv_def server_defs)
qed

lemma set_task_inv:
  assumes "server_inv s" "vec_get (sv_tasks s) t = Some (Running spec w)" "k = Closing spec \<or> k = Running spec w'"
  shows "server_inv (set_task t k s)"
proof -
  have "store_inv (sv_store s) ((sv_tasks s)[t := k])" by (rule store_inv_task[OF _ assms(2)]) (use assms(1,3) in \<open>auto simp: server_inv_def\<close>)
  moreover have "names_inv (sv_models s) ((sv_tasks s)[t := k])"
    by (rule names_inv_update[OF _ assms(2)]) (use assms(1,3) in \<open>auto simp: server_inv_def\<close>)
  ultimately show ?thesis by (simp add: server_inv_def set_task_def)
qed

lemma task_work_inv:
  assumes "server_inv s" "vec_get (sv_tasks s) t = Some (Running spec w)"
  shows "server_inv (task_work E t i spec w s)"
  using task_panics_inv[OF assms] set_task_inv[OF assms] by (auto simp: task_work_def split: sum.splits bool.splits prod.splits)

lemma task_exit_inv:
  assumes "server_inv s" "vec_get (sv_tasks s) t = Some (Closing spec)"
  shows "server_inv (task_exit t spec s)"
proof -
  have "store_inv (remove_model (model_id (wsp_model spec)) (sv_store s)) ((sv_tasks s)[t := Ended])"
    by (rule store_inv_update[OF _ assms(2)]) (use assms(1) in \<open>auto simp: server_inv_def remove_model_def hm_get_remove split: if_splits\<close>)
  moreover have "names_inv (sv_models s) ((sv_tasks s)[t := Ended])" using assms by (auto simp: server_inv_def intro: names_inv_update)
  ultimately show ?thesis by (simp add: server_inv_def server_defs)
qed

lemma store_inv_same:
  assumes "store_inv st ts" "\<And>i e. hm_get st' i = Some e \<Longrightarrow> mse_open e \<Longrightarrow> \<exists>e'. hm_get st i = Some e' \<and> mse_open e' \<and> mse_tx e' = mse_tx e"
  shows "store_inv st' ts"
  using assms unfolding store_inv_def by metis

lemma task_chat_inv:
  assumes "server_inv s" "vec_get (sv_tasks s) t = Some (Running spec w)"
  shows "server_inv (task_chat t spec s)"
proof (cases "hm_get (sv_store s) (model_id (wsp_model spec))")
  case None
  then show ?thesis using set_task_inv[OF assms] by (simp add: task_chat_def)
next
  case (Some e)
  have "store_inv (hm_insert (model_id (wsp_model spec)) (e\<lparr>mse_queue := q\<rparr>) (sv_store s)) (sv_tasks s)" for q
    by (rule store_inv_same[of "sv_store s"]) (use assms(1) Some in \<open>auto simp: server_inv_def hm_get_insert split: if_splits\<close>)
  then show ?thesis using Some assms(1) task_panics_inv[OF assms] set_task_inv[OF assms]
    by (auto simp: task_chat_def server_inv_def split: option.splits sum.splits if_splits)
qed

lemma p2p_stop_inv:
  assumes "server_inv s"
  shows "server_inv (snd (p2p_stop m s))"
proof (cases "hm_get (sv_models s) m")
  case (Some st)
  show ?thesis
  proof (cases "vec_get (sv_tasks s) (mst_query_tx st)")
    case k: (Some k)
    show ?thesis
    proof (cases k)
      case (Running spec w)
      let ?ts = "(sv_tasks s)[mst_query_tx st := Closing spec]"
      have n: "names_inv (sv_models s) ?ts" "store_inv (sv_store s) ?ts"
        using set_task_inv[OF assms, of _ spec w] k Running by (simp_all add: server_inv_def set_task_def)
      have "names_inv (hm_remove m (sv_models s)) ?ts"
        unfolding names_inv_def
      proof (intro conjI allI impI)
        fix t k' assume a: "vec_get ?ts t = Some k'" "live k'"
        then obtain m' st' where m': "serves_model k' m'" "hm_get (sv_models s) m' = Some st'" "mst_query_tx st' = t"
          using n(1) unfolding names_inv_def by blast
        have "m' \<noteq> m" using a m' Some vec_get_less[OF k] by (auto simp: vec_get_update)
        then show "\<exists>m1 st1. serves_model k' m1 \<and> hm_get (hm_remove m (sv_models s)) m1 = Some st1 \<and> mst_query_tx st1 = t"
          using m' by (intro exI[of _ m'] exI[of _ st']) (simp add: hm_get_remove)
      qed (use n(1) in \<open>auto simp: names_inv_def hm_get_remove split: if_splits\<close>)
      then show ?thesis using n Some k Running by (simp add: server_inv_def p2p_stop_def set_task_def)
    qed (use assms Some k in \<open>simp_all add: p2p_stop_def\<close>)
  qed (use assms Some in \<open>simp add: p2p_stop_def\<close>)
qed (use assms in \<open>simp add: p2p_stop_def\<close>)

lemma spawn_worker_inv:
  assumes "server_inv s" "hm_get (sv_models s) m = None"
  shows "server_inv (spawn_worker m f k wal s)"
proof -
  let ?ts = "push_back (sv_tasks s) (Loading m (mk_range f k))"
  have old: "vec_get ?ts t = Some k'" if "vec_get (sv_tasks s) t = Some k'" for t k'
    using that vec_get_less[OF that] by (simp add: task_at_push)
  have "store_inv (sv_store s) ?ts" using assms(1) old unfolding server_inv_def store_inv_def by meson
  moreover have "names_inv (sv_models (spawn_worker m f k wal s)) ?ts"
    unfolding names_inv_def
  proof (intro conjI allI impI)
    fix m' st assume m': "hm_get (sv_models (spawn_worker m f k wal s)) m' = Some st"
    show "\<exists>k. vec_get ?ts (mst_query_tx st) = Some k \<and> (k = Ended \<or> serves_model k m')"
    proof (cases "m' = m")
      case True
      then show ?thesis using m' by (auto simp: spawn_worker_def hm_get_insert task_at_push)
    next
      case False
      then have "hm_get (sv_models s) m' = Some st" using m' by (simp add: spawn_worker_def hm_get_insert)
      then show ?thesis using assms(1) old unfolding server_inv_def names_inv_def by metis
    qed
  next
    fix t k' assume a: "vec_get ?ts t = Some k'" "live k'"
    show "\<exists>m' st. serves_model k' m' \<and> hm_get (sv_models (spawn_worker m f k wal s)) m' = Some st \<and> mst_query_tx st = t"
    proof (cases "t = length (sv_tasks s)")
      case True
      then show ?thesis using a by (auto simp: spawn_worker_def hm_get_insert task_at_push)
    next
      case False
      then have "vec_get (sv_tasks s) t = Some k'" using a(1) by (simp add: task_at_push)
      then obtain m' st where "serves_model k' m'" "hm_get (sv_models s) m' = Some st" "mst_query_tx st = t"
        using assms(1) a(2) unfolding server_inv_def names_inv_def by blast
      then show ?thesis using assms(2) by (intro exI[of _ m'] exI[of _ st]) (auto simp: spawn_worker_def hm_get_insert)
    qed
  qed
  ultimately show ?thesis by (simp add: server_inv_def spawn_worker_def)
qed

lemma server_step_inv:
  assumes "server_inv s"
  shows "server_inv (server_step E i s)"
proof (cases i)
  case HttpStatus
  show ?thesis using HttpStatus assms status_loop_frame[of E "map snd (sv_models s)" "[]" s]
    by (auto simp: p2p_status_def task_panics_inv)
next
  case (HttpStart m f k key)
  then show ?thesis using assms by (auto simp: p2p_start_def hm_contains_def intro: spawn_worker_inv split: sum.splits)
next
  case Dispatch
  then show ?thesis using assms unfolding server_inv_def
    by (auto simp: dispatch_chat_def send_model_def hm_get_insert intro!: store_inv_same[of "sv_store s"] split: option.splits if_splits)
qed (use assms in \<open>auto simp: p2p_stop_inv server_inv_def[of "s\<lparr>sv_chat_queue := _\<rparr>"] intro!: task_loaded_inv task_work_inv task_chat_inv task_exit_inv
        split: option.splits task.splits dest: server_inv_def[THEN iffD1]\<close>)

interpretation server: preserved "\<lambda>s s'. \<exists>i. s' = server_step E i s" server_inv for E
  by unfold_locales (auto intro: server_step_inv)

lemma server_run_inv: "server_inv s \<Longrightarrow> server_inv (server_run E is s)"
  unfolding server_run_def by (rule server.run) blast+

lemma server_inv_new: "server_inv server_new"
  by (simp add: server_inv_def server_new_def names_inv_def store_inv_def vec_get_def)

lemma model_spec_id:
  assumes "model_spec m = Inr spec" "model_spec m' = Inr spec'" "model_id (wsp_model spec) = model_id (wsp_model spec')"
  shows "m = m'"
  using assms by (auto simp: model_spec_def model_entry_def split: if_splits)

lemma running_registered:
  assumes "server_inv s" "vec_get (sv_tasks s) t = Some (Running spec w)"
  shows "\<exists>m st. model_spec m = Inr spec \<and> hm_get (sv_models s) m = Some st \<and> mst_query_tx st = t"
proof -
  have "live (Running spec w)" by simp
  then obtain m st where "serves_model (Running spec w) m" "hm_get (sv_models s) m = Some st" "mst_query_tx st = t"
    using assms unfolding server_inv_def names_inv_def by blast
  then show ?thesis by auto
qed

text \<open>
  C11. However starts, stops, chats and the workers interleave: a chat the store accepts goes to a
  worker of the model it names, running or about to close; every running worker is in the table under its model, so
  that it can be stopped; and no two running workers have the same model.
\<close>

theorem workers_registered_once:
  assumes "s = server_run E is server_new"
  shows "(\<forall>req. fst (send_model req (sv_store s)) = Some () \<longrightarrow>
      (\<exists>t spec. (vec_get (sv_tasks s) t = Some (Closing spec) \<or> (\<exists>w. vec_get (sv_tasks s) t = Some (Running spec w))) \<and>
        model_id (wsp_model spec) = cr_model (cs_req req))) \<and>
    (\<forall>t spec w. vec_get (sv_tasks s) t = Some (Running spec w) \<longrightarrow>
      (\<exists>m st. model_spec m = Inr spec \<and> hm_get (sv_models s) m = Some st \<and> mst_query_tx st = t)) \<and>
    (\<forall>t t' spec spec' w w'. vec_get (sv_tasks s) t = Some (Running spec w) \<longrightarrow> vec_get (sv_tasks s) t' = Some (Running spec' w') \<longrightarrow>
      model_id (wsp_model spec) = model_id (wsp_model spec') \<longrightarrow> t = t')"
proof (intro conjI allI impI)
  have inv: "server_inv s" unfolding assms by (rule server_run_inv[OF server_inv_new])
  fix req assume "fst (send_model req (sv_store s)) = Some ()"
  then obtain e where "hm_get (sv_store s) (cr_model (cs_req req)) = Some e" "mse_open e"
    by (auto simp: send_model_def split: option.splits if_splits)
  then obtain t k where k: "vec_get (sv_tasks s) t = Some k" "receives k (cr_model (cs_req req))"
    using inv unfolding server_inv_def store_inv_def by blast
  then show "\<exists>t spec. (vec_get (sv_tasks s) t = Some (Closing spec) \<or> (\<exists>w. vec_get (sv_tasks s) t = Some (Running spec w))) \<and>
      model_id (wsp_model spec) = cr_model (cs_req req)"
    by (cases k) auto
next
  have inv: "server_inv s" unfolding assms by (rule server_run_inv[OF server_inv_new])
  {
    fix t spec w assume "vec_get (sv_tasks s) t = Some (Running spec w)"
    then show "\<exists>m st. model_spec m = Inr spec \<and> hm_get (sv_models s) m = Some st \<and> mst_query_tx st = t"
      by (rule running_registered[OF inv])
  }
  fix t t' spec spec' w w'
  assume "vec_get (sv_tasks s) t = Some (Running spec w)" "vec_get (sv_tasks s) t' = Some (Running spec' w')"
    and i: "model_id (wsp_model spec) = model_id (wsp_model spec')"
  then obtain m st m' st' where "model_spec m = Inr spec" "hm_get (sv_models s) m = Some st" "mst_query_tx st = t"
    "model_spec m' = Inr spec'" "hm_get (sv_models s) m' = Some st'" "mst_query_tx st' = t'"
    using running_registered[OF inv] by metis
  moreover from this have "m = m'" using model_spec_id[OF _ _ i] by blast
  ultimately show "t = t'" by simp
qed

text \<open>
  C40. A chat request in streaming mode for a model whose worker runs and has nothing else to do is
  handed by the dispatcher to that worker, which starts one chat with the session and
  the configuration of the request and the prompt of its messages; nothing stays in a queue and no worker is
  disturbed.
\<close>

theorem chat_starts_on_its_worker:
  assumes "vec_get (sv_tasks s) t = Some (Running spec w)" "build_prompt (wsp_exe spec) req = Inr prompt"
    and "cr_model req = model_id (wsp_model spec)" "cr_stream req = Some True"
    and "hm_get (sv_store s) (cr_model req) = Some e" "mse_open e" "mse_tx e = t" "mse_queue e = []" "sv_chat_queue s = []"
  shows "\<exists>s'. server_run E [HttpChat ses req, Dispatch, TaskChat t] s = s' \<and>
    sv_chats s' = sv_chats s @ [(t, ses, request_cfg (se_conv E) req, prompt)] \<and> sv_chat_queue s' = [] \<and>
    sv_tasks s' = sv_tasks s \<and> sv_models s' = sv_models s \<and> (\<forall>i. hm_get (sv_store s') i = hm_get (sv_store s) i)"
  using assms by (auto simp: server_run_def chat_completions_def Let_def dispatch_chat_def send_model_def task_chat_def hm_get_insert push_back_def)

text \<open>
  A model that runs can be stopped and started again: the stop is acknowledged, after the task
  has left its loop the model is neither in the table nor in the store, a new start is
  accepted, and once its worker is loaded the model is back in both.
\<close>

theorem stopped_model_restarts:
  assumes "hm_get (sv_models s) m = Some st" "mst_query_tx st = t" "vec_get (sv_tasks s) t = Some (Running spec w)"
    and "init_wallet E key = Inr wallet" "load_worker E m (mk_range from_layer to_layer) = Inr (spec, w')"
  shows "\<exists>s1 s2 s3. fst (p2p_stop m s) = Inr HttpOk \<and> s1 = server_run E [HttpStop m, TaskExit t] s \<and>
    hm_get (sv_models s1) m = None \<and> store_model (sv_store s1) (model_id (wsp_model spec)) = None \<and>
    p2p_start E m from_layer to_layer key s1 = (Inr HttpOk, s2) \<and> s3 = server_run E [TaskLoaded (length (sv_tasks s))] s2 \<and>
    hm_get (sv_models s3) m \<noteq> None \<and> store_model (sv_store s3) (model_id (wsp_model spec)) = Some (wsp_model spec) \<and>
    vec_get (sv_tasks s3) (length (sv_tasks s)) = Some (Running spec w')"
proof -
  have t: "t < length (sv_tasks s)" using vec_get_less[OF assms(3)] .
  let ?s1 = "server_run E [HttpStop m, TaskExit t] s"
  let ?s2 = "spawn_worker m from_layer to_layer wallet ?s1"
  let ?s3 = "server_run E [TaskLoaded (length (sv_tasks s))] ?s2"
  have stop: "fst (p2p_stop m s) = Inr HttpOk" and s1: "hm_get (sv_models ?s1) m = None"
    "store_model (sv_store ?s1) (model_id (wsp_model spec)) = None" "length (sv_tasks ?s1) = length (sv_tasks s)"
    using assms(1-3) t
    by (simp_all add: server_run_def p2p_stop_def set_task_def vec_get_update task_exit_def store_model_def remove_model_def hm_get_remove)
  have start: "p2p_start E m from_layer to_layer key ?s1 = (Inr HttpOk, ?s2)"
    using s1(1) assms(4) by (simp add: p2p_start_def hm_contains_def)
  have "vec_get (sv_tasks ?s2) (length (sv_tasks s)) = Some (Loading m (mk_range from_layer to_layer))"
    using s1(3) by (simp add: spawn_worker_def task_at_push)
  then have "?s3 = set_task (length (sv_tasks s)) (Running spec w') (?s2\<lparr>sv_store := add_model (length (sv_tasks s)) (wsp_model spec) (sv_store ?s2)\<rparr>)"
    using assms(5) by (simp add: server_run_def task_loaded_def)
  then have "hm_get (sv_models ?s3) m \<noteq> None" "store_model (sv_store ?s3) (model_id (wsp_model spec)) = Some (wsp_model spec)"
    "vec_get (sv_tasks ?s3) (length (sv_tasks s)) = Some (Running spec w')"
    using s1(3) by (simp_all add: spawn_worker_def set_task_def hm_get_insert store_model_def add_model_def vec_get_update push_back_def)
  with stop s1 start show ?thesis by blast
qed

section \<open>The layer worker\<close>

text \<open>The program without a server: one worker until it ends or is interrupted.\<close>

definition layer_worker_main ::
  "('a, 'r, 'p, 't, 'l, 'addr, 'pk, 'x, 'c) server_env \<Rightarrow> string \<Rightarrow> u32 \<Rightarrow> u32 \<Rightarrow> string \<Rightarrow> ('a, 'r, 'p, 'l, 'addr, 'pk) runner res" where
  "layer_worker_main E model layers_from layers_to private_key =
     res_bind (unwrap_cres (get_device (se_cuda E) (se_metal E) False)) (\<lambda>_.
     res_bind (init_wallet E private_key) (\<lambda>_.
     res_bind (model_spec model) (\<lambda>spec.
     res_bind (se_load_layers E (wsp_exe spec) (mk_range layers_from layers_to)) (\<lambda>lw.
     res_bind (unwrap_option UnwrapOnErr (se_resolve E (se_stun_server E))) (\<lambda>stun_servers.
     runner_connect E model (wsp_layers spec) (mk_range layers_from layers_to) lw stun_servers)))))"

datatype ('a, 'r) run_input = RunBranch "('a, 'r) comm_input" | CtrlC nat "'a node_input list"

fun layer_worker_run ::
  "('a, 'r, 'p, 't, 'l, 'u) comm_env \<Rightarrow> ('a, 'r) run_input list \<Rightarrow> ('a, 'r, 'p, 'l, 'u) worker_communication \<Rightarrow>
    (bool \<times> ('a, 'r, 'p, 'l, 'u) worker_communication) res" where
  "layer_worker_run C [] w = Inr (True, w)"
| "layer_worker_run C (RunBranch i # is) w = res_bind (comm_step C i w) (\<lambda>(go_on, w). if go_on then layer_worker_run C is w else Inr (False, w))"
| "layer_worker_run C (CtrlC n inputs # is) w = res_bind (comm_shutdown C n inputs w) (\<lambda>w. Inr (False, w))"

text \<open>Both programs start the same worker for a model.\<close>

lemma layer_worker_same_start:
  assumes "load_worker E m (mk_range f k) = Inr (spec, w)" "init_wallet E key = Inr wallet"
  shows "layer_worker_main E m f k key = Inr w"
  using assms by (auto simp: load_worker_def layer_worker_main_def split: if_splits elim!: res_bind_InrE)

text \<open>Without an interrupt the run is the loop of the worker.\<close>

lemma layer_worker_run_recv: "layer_worker_run C (map RunBranch is) w = comm_recv C is w"
  by (induction "is" arbitrary: w) (simp_all cong: if_cong)

section \<open>A server that runs\<close>

definition demo_server_env :: "(nat, nat rtc_output list, unit, bytes, u32_range, nat, nat, u64 \<times> nat transaction, u64 \<times> nat payload list) server_env" where
  "demo_server_env =
     \<lparr>se_registry_server = ''ws'', se_node_id = ''a'', se_stun_server = ''stun'', se_resolve = \<lambda>_. Some [], se_cuda = (False, False), se_metal = (False, False),
      se_load_layers = \<lambda>_. Inr, se_connect = \<lambda>_ _ _. True, se_local = Inr 1, se_public = \<lambda>_. None, se_now = 0, se_load_exe = \<lambda>_. Inr (),
      se_account = \<lambda>_. Some (client_new 3 [] 9), se_chain = toy_chain, se_world = (7, []), se_show_address = digits,
      se_comm =
        \<lparr>ce_node = \<lparr>nd_rtc = script_rtc demo_buf, nd_encode = \<lambda>_. [1], nd_decode = \<lambda>_. None, nd_parse = \<lambda>_. None,
           nd_split_username = \<lambda>_. None, nd_is_ipv4 = \<lambda>_. True, nd_stun_request = [], nd_stun_decode = \<lambda>_. None, nd_send_ok = \<lambda>_. True\<rparr>,
         ce_fuel = 9,
         ce_service = \<lparr>e_layers = fake_ops, e_usage = onchain_ops toy_env, e_tensor = vec_env, e_codec = e_codec fake_env, e_tps = \<lambda>_ _. 0\<rparr>,
         ce_write_ok = \<lambda>_. True, ce_alive = \<lambda>_. True\<rparr>,
      se_conv = \<lambda>_. 0\<rparr>"

abbreviation demo_start_events :: "(nat, nat rtc_output list) server_input list" where
  "demo_start_events \<equiv> [HttpStart ''phi3'' 0 4 ''key'', TaskLoaded 0]"

definition demo_request :: chat_completion_request where
  "demo_request = \<lparr>cr_model = ''phi3'', cr_messages = [], cr_temperature = None, cr_max_tokens = None, cr_stream = Some True, cr_plain_text = None\<rparr>"

definition demo_spec :: worker_spec where
  "demo_spec = \<lparr>wsp_exe = Phi3Exe, wsp_layers = 32, wsp_model = model_entry ''phi3'' ''Microsoft''\<rparr>"

definition demo_runner :: "u32_range \<Rightarrow> (nat, nat rtc_output list, unit, u32_range, nat, nat) runner" where
  "demo_runner r = runner_new 32 r r (oc_new r) (nn_new ''a'' 1 [] None 0)"

definition demo_wallet :: "nat onchain_client" where
  "demo_wallet = (client_new 3 [] 9)\<lparr>cl_sequence_number := 7\<rparr>"

definition demo_state :: "nat model_state" where
  "demo_state = \<lparr>mst_model = ''phi3'', mst_from_layer = 0, mst_to_layer = 4, mst_query_tx = 0, mst_wallet = demo_wallet\<rparr>"

definition demo_server :: "(nat, nat rtc_output list, unit, u32_range, nat, nat) server" where
  "demo_server = \<lparr>sv_models = [(''phi3'', demo_state)],
     sv_store = [(''phi3'', \<lparr>mse_model = model_entry ''phi3'' ''Microsoft'', mse_tx = 0, mse_queue = [], mse_open = True\<rparr>)],
     sv_tasks = [Running demo_spec (demo_runner (mk_range 0 4))], sv_chat_queue = [], sv_chats = []\<rparr>"

lemma demo_spec: "model_spec ''phi3'' = Inr demo_spec"
  by (simp add: model_spec_def demo_spec_def)

lemma demo_loads: "load_worker demo_server_env ''phi3'' r = Inr (demo_spec, demo_runner r)"
  by (simp add: load_worker_def demo_spec demo_server_env_def runner_connect_def demo_runner_def get_device_def unwrap_cres_def) (simp add: demo_spec_def)

lemma demo_init: "init_wallet demo_server_env key = Inr demo_wallet"
  by (simp add: init_wallet_def service_init_def update_sequence_number_def get_sequence_number_def demo_server_env_def toy_chain_def demo_wallet_def)

lemma demo_started: "server_run demo_server_env demo_start_events server_new = demo_server"
  by (simp add: server_run_def server_new_def p2p_start_def hm_contains_def demo_init spawn_worker_def push_back_def vec_get_def task_loaded_def
      demo_loads set_task_def add_model_def demo_server_def demo_state_def) (simp add: demo_spec_def model_entry_def)

lemma demo_task: "vec_get (sv_tasks demo_server) 0 = Some (Running demo_spec (demo_runner (mk_range 0 4)))"
  by (simp add: demo_server_def vec_get_def)

theorem workers_registered_once_witness:
  "\<exists>m st. model_spec m = Inr demo_spec \<and> hm_get (sv_models (server_run demo_server_env demo_start_events server_new)) m = Some st \<and> mst_query_tx st = 0"
  by (rule workers_registered_once[OF demo_started[symmetric], THEN conjunct2, THEN conjunct1, rule_format, OF demo_task, folded demo_started])

theorem chat_starts_on_its_worker_witness:
  "sv_chats (server_run demo_server_env [HttpChat 7 demo_request, Dispatch, TaskChat 0] demo_server) =
     [(0, 7, chat_cfg_default, phi3_build_prompt demo_request)]"
proof -
  have "build_prompt (wsp_exe demo_spec) demo_request = Inr (phi3_build_prompt demo_request)" "cr_model demo_request = model_id (wsp_model demo_spec)"
    "cr_stream demo_request = Some True" by (simp_all add: demo_spec_def build_prompt_def demo_request_def model_entry_def)
  moreover have "hm_get (sv_store demo_server) (cr_model demo_request) = Some \<lparr>mse_model = model_entry ''phi3'' ''Microsoft'', mse_tx = 0, mse_queue = [], mse_open = True\<rparr>"
    "sv_chat_queue demo_server = []" "sv_chats demo_server = []" by (simp_all add: demo_server_def demo_request_def)
  moreover have "request_cfg (se_conv demo_server_env) demo_request = chat_cfg_default" by (simp add: request_cfg_def demo_request_def)
  ultimately show ?thesis using chat_starts_on_its_worker[OF demo_task, where E = demo_server_env and ses = 7] by simp
qed

theorem stopped_model_restarts_witness:
  "\<exists>s2. store_model (sv_store (server_run demo_server_env [HttpStop ''phi3'', TaskExit 0] demo_server)) (model_id (wsp_model demo_spec)) = None \<and>
     p2p_start demo_server_env ''phi3'' 0 8 ''key'' (server_run demo_server_env [HttpStop ''phi3'', TaskExit 0] demo_server) = (Inr HttpOk, s2)"
proof -
  have "hm_get (sv_models demo_server) ''phi3'' = Some demo_state" "mst_query_tx demo_state = 0" by (simp_all add: demo_server_def demo_state_def)
  from stopped_model_restarts[OF this demo_task demo_init demo_loads, of 0 8 "''key''"] show ?thesis by blast
qed

text \<open>A worker that stops by itself: the peer network ends.\<close>

lemma demo_network_ends:
  "\<exists>w. comm_step (se_comm demo_server_env) (NetworkRecv [SocketError]) (demo_runner r) = Inr (False, w)"
  by (simp add: comm_step_def demo_runner_def runner_new_def comm_new_def nn_new_def node_recv.simps on_network_event_def)

lemma demo_ended:
  "sv_tasks (server_run demo_server_env [TaskWork 0 (NetworkRecv [SocketError]), TaskExit 0] demo_server) = [Ended]"
  "sv_models (server_run demo_server_env [TaskWork 0 (NetworkRecv [SocketError]), TaskExit 0] demo_server) = [(''phi3'', demo_state)]"
  using demo_network_ends[of "mk_range 0 4"]
  by (auto simp: server_run_def demo_server_def vec_get_def task_work_def set_task_def task_exit_def)

theorem ended_worker_cannot_restart_witness:
  "\<exists>s. s = server_run demo_server_env [HttpStop ''phi3'', HttpStatus]
       (server_run demo_server_env [TaskWork 0 (NetworkRecv [SocketError]), TaskExit 0] demo_server) \<and>
     p2p_start demo_server_env ''phi3'' 0 4 ''key'' s = (Inr (HttpBadRequest ''Model already started''), s)"
proof -
  let ?s = "server_run demo_server_env [TaskWork 0 (NetworkRecv [SocketError]), TaskExit 0] demo_server"
  have "hm_get (sv_models ?s) ''phi3'' = Some demo_state" "vec_get (sv_tasks ?s) (mst_query_tx demo_state) = Some Ended"
    by (simp_all add: demo_ended demo_state_def vec_get_def)
  from ended_worker_cannot_restart[OF this refl] show ?thesis by blast
qed

text \<open>
  The stop is acknowledged before the model leaves the store: when the model is started again
  and loaded in between, the old task removes the entry of the new one, whose worker then sees its channel
  of chats closed and ends.
\<close>

lemma restart_race:
  "sv_tasks (server_run demo_server_env
     [HttpStop ''phi3'', HttpStart ''phi3'' 0 4 ''key'', TaskLoaded 1, TaskExit 0, TaskChat 1, TaskExit 1] demo_server) = [Ended, Ended]"
  by (simp add: server_run_def demo_server_def demo_state_def vec_get_def p2p_stop_def set_task_def p2p_start_def hm_contains_def demo_init spawn_worker_def
      push_back_def task_loaded_def demo_loads task_exit_def task_chat_def add_model_def remove_model_def)

text \<open>A chat with the fake model panics its worker, which stays registered.\<close>

lemma fake_chat_panics:
  assumes "vec_get (sv_tasks s) t = Some (Running spec w)" "wsp_exe spec = FakeExe"
    and "hm_get (sv_store s) (model_id (wsp_model spec)) = Some e" "mse_tx e = t" "mse_queue e = req # rest"
  shows "vec_get (sv_tasks (server_step E (TaskChat t) s)) t = Some Ended"
  using assms vec_get_less[OF assms(1)] by (simp add: task_chat_def build_prompt_def task_panics_def set_task_def vec_get_update)

end
