(* ===== verification/Server_Program.thy ===== *)
theory Server_Program
  imports Server_Control Layers_Selection
begin

text \<open>
  The programs around the server: the names of nodes of \<^verbatim>\<open>crates/utils/src/lib.rs\<close>, the routes of
  \<^verbatim>\<open>bin/openai-server/src/lib.rs\<close> and \<^verbatim>\<open>crates/openai-http/src/lib.rs\<close>, \<open>start_http_server\<close> with its two
  modes, and the entry points of \<^verbatim>\<open>bin/openai-server\<close> and \<^verbatim>\<open>bin/desktop-app\<close>.

  A table of routes is the list of what is nested where: a prefix and, under it, paths with a method and the handler
  that answers them. Matching a request against it is done by the web framework; here a
  request of \<open>server_input\<close> is admitted when its handler is in the table.
\<close>

section \<open>Names of nodes\<close>

definition hex_digit :: "nat \<Rightarrow> char" where
  "hex_digit d = (if d < 10 then char_of (48 + d) else char_of (87 + d))"

fun hex_fixed :: "nat \<Rightarrow> nat \<Rightarrow> string" where
  "hex_fixed 0 n = []"
| "hex_fixed (Suc k) n = hex_fixed k (n div 16) @ [hex_digit (n mod 16)]"

text \<open>\<open>format!("{:08x}", n)\<close> of a number of 32 bits; the number is drawn at random.\<close>

definition random_node_id :: "u32 \<Rightarrow> node_id" where
  "random_node_id n = hex_fixed 8 (unat n)"

lemma hex_digit_inj:
  assumes "d < 16" "e < 16" "hex_digit d = hex_digit e"
  shows "d = e"
proof -
  have val: "of_char (hex_digit x) = (if x < 10 then 48 + x else 87 + x)" if "x < 16" for x
    using that by (simp add: hex_digit_def)
  show ?thesis using arg_cong[OF assms(3), of "of_char :: char \<Rightarrow> nat"] assms(1,2) by (auto simp: val split: if_splits)
qed

lemma hex_fixed_inj: "m < 16 ^ k \<Longrightarrow> n < 16 ^ k \<Longrightarrow> hex_fixed k m = hex_fixed k n \<Longrightarrow> m = n"
proof (induction k arbitrary: m n)
  case (Suc k)
  have "m div 16 = n div 16" using Suc.prems by (intro Suc.IH) (auto simp: div_less_iff_less_mult)
  moreover have "m mod 16 = n mod 16" using Suc.prems(3) by (auto intro!: hex_digit_inj)
  ultimately show ?case by (metis div_mult_mod_eq)
qed simp

text \<open>A name has eight characters, and two nodes have the same name only if they drew the same number.\<close>

lemma node_id_length: "length (random_node_id n) = 8"
proof -
  have "length (hex_fixed k m) = k" for k m by (induction k arbitrary: m) simp_all
  then show ?thesis by (simp add: random_node_id_def)
qed

lemma node_id_inj: "random_node_id m = random_node_id n \<longleftrightarrow> m = n"
proof
  have "unat x < 16 ^ 8" for x :: u32 using unsigned_less[of x] by simp
  then show "m = n" if "random_node_id m = random_node_id n"
    using hex_fixed_inj[of "unat m" 8 "unat n"] that by (simp add: random_node_id_def word_unat_eq_iff)
qed simp

section \<open>Routes\<close>

datatype http_method = Get | Post

datatype endpoint = EpStatus | EpSuggestLayers | EpStart | EpStop | EpChatCompletions | EpListModels | EpGetModel

type_synonym route = "(string \<times> http_method \<times> endpoint) list"

definition list_models :: "model_store \<Rightarrow> string \<times> model list" where
  "list_models st = (''list'', store_models st)"

definition create_route :: route where
  "create_route =
     [(''/v1/chat/completions'', Post, EpChatCompletions),
      (''/v1/models'', Get, EpListModels),
      (''/v1/models/:model_id'', Get, EpGetModel)]"

definition contributor_app :: route where
  "contributor_app =
     [(''/v1/status'', Get, EpStatus),
      (''/v1/suggest_layers'', Get, EpSuggestLayers),
      (''/v1/start'', Post, EpStart),
      (''/v1/stop'', Post, EpStop)]"

definition gateway_app :: route where
  "gateway_app = [(''/v1/status'', Get, EpStatus)]"

datatype server_mode = Contributor | Gateway string "string list"

text \<open>
  \<open>start_http_server\<close> up to the loop of the web server: what is served, and the server it is served
  from. A gateway whose account cannot be set up does not come up.
\<close>

definition start_http_server ::
  "('a, 'r, 'p, 't, 'l, 'addr, 'pk, 'x, 'c) server_env \<Rightarrow> server_mode \<Rightarrow> ((string \<times> route) list \<times> ('a, 'r, 'p, 'l, 'addr, 'pk) server) res" where
  "start_http_server E mode = (case mode of
       Contributor \<Rightarrow> Inr ([(''/p2p/'', contributor_app), (''/'', create_route)], server_new)
     | Gateway private_key model_ids \<Rightarrow> res_bind (gateway_start E private_key model_ids server_new) (\<lambda>s.
         Inr ([(''/p2p'', gateway_app), (''/'', create_route)], s)))"

definition endpoints :: "(string \<times> route) list \<Rightarrow> endpoint set" where
  "endpoints app = (\<Union>(_, r) \<in> set app. (\<lambda>(_, _, ep). ep) ` set r)"

text \<open>What the web server lets through: requests need a route, the rest happens inside the server.\<close>

fun admitted :: "(string \<times> route) list \<Rightarrow> ('a, 'r) server_input \<Rightarrow> bool" where
  "admitted app HttpStatus \<longleftrightarrow> EpStatus \<in> endpoints app"
| "admitted app (HttpStart _ _ _ _) \<longleftrightarrow> EpStart \<in> endpoints app"
| "admitted app (HttpStop _) \<longleftrightarrow> EpStop \<in> endpoints app"
| "admitted app (HttpChat _ _) \<longleftrightarrow> EpChatCompletions \<in> endpoints app"
| "admitted app _ \<longleftrightarrow> True"

section \<open>The entry points\<close>

record args =
  arg_stun_server :: string
  arg_registry_server :: string
  arg_node_id :: "node_id option"

definition node_id_of :: "args \<Rightarrow> u32 \<Rightarrow> node_id" where
  "node_id_of a n = (case arg_node_id a of Some i \<Rightarrow> i | None \<Rightarrow> random_node_id n)"

definition server_main ::
  "args \<Rightarrow> u32 \<Rightarrow> server_mode \<Rightarrow> ('a, 'r, 'p, 't, 'l, 'addr, 'pk, 'x, 'c) server_env \<Rightarrow>
    ((string \<times> route) list \<times> ('a, 'r, 'p, 'l, 'addr, 'pk) server) res" where
  "server_main a n mode E = start_http_server
     (E\<lparr>se_registry_server := arg_registry_server a, se_node_id := node_id_of a n, se_stun_server := arg_stun_server a\<rparr>) mode"

text \<open>The desktop program is a contributor with a window.\<close>

definition desktop_main ::
  "args \<Rightarrow> u32 \<Rightarrow> ('a, 'r, 'p, 't, 'l, 'addr, 'pk, 'x, 'c) server_env \<Rightarrow>
    ((string \<times> route) list \<times> ('a, 'r, 'p, 'l, 'addr, 'pk) server) res" where
  "desktop_main a n E = start_http_server
     (E\<lparr>se_registry_server := arg_registry_server a, se_node_id := node_id_of a n, se_stun_server := arg_stun_server a\<rparr>) Contributor"

section \<open>A gateway\<close>

lemma gateway_endpoints: "endpoints [(''/p2p'', gateway_app), (''/'', create_route)] = {EpStatus, EpChatCompletions, EpListModels, EpGetModel}"
  by (auto simp: endpoints_def gateway_app_def create_route_def)

lemma gateway_start_models:
  assumes "gateway_start E key ms s = Inr s'"
  shows "hm_dom (sv_models s') = hm_dom (sv_models s) \<union> set ms"
  using assms
proof (induction ms arbitrary: s)
  case (Cons m ms)
  then obtain wallet where "gateway_start E key ms (spawn_worker m 0 0 wallet s) = Inr s'" by (auto elim!: res_bind_InrE)
  from Cons.IH[OF this] show ?case by (auto simp: spawn_worker_def)
qed simp

text \<open>Without repetitions the gateway does what the requests to start its models would do.\<close>

lemma gateway_start_requests:
  assumes "gateway_start E key ms s = Inr s'" "distinct ms" "hm_dom (sv_models s) \<inter> set ms = {}"
  shows "s' = server_run E (map (\<lambda>m. HttpStart m 0 0 key) ms) s"
  using assms
proof (induction ms arbitrary: s)
  case (Cons m ms)
  then obtain wallet where w: "init_wallet E key = Inr wallet" "gateway_start E key ms (spawn_worker m 0 0 wallet s) = Inr s'"
    by (auto elim!: res_bind_InrE)
  have "server_step E (HttpStart m 0 0 key) s = spawn_worker m 0 0 wallet s"
    using Cons.prems(3) w(1) using hm_dom_get[of m "sv_models s"] by (simp add: p2p_start_def hm_contains_def)
  moreover have "s' = server_run E (map (\<lambda>m. HttpStart m 0 0 key) ms) (spawn_worker m 0 0 wallet s)"
    using Cons.prems(2,3) by (intro Cons.IH[OF w(2)]) (auto simp: spawn_worker_def)
  ultimately show ?case by (simp add: server_run_def)
qed (simp add: server_run_def)

lemma admitted_frame:
  assumes "\<forall>i \<in> set is. admitted [(''/p2p'', gateway_app), (''/'', create_route)] i"
  shows "sv_models (server_run E is s) = sv_models s"
  using assms
proof (induction "is" arbitrary: s)
  case (Cons i "is")
  have "(\<forall>m f k key. i \<noteq> HttpStart m f k key) \<and> (\<forall>m. i \<noteq> HttpStop m)"
    using Cons.prems by (auto simp: gateway_endpoints)
  then have "sv_models (server_step E i s) = sv_models s" using task_step_frame by blast
  moreover have "sv_models (server_run E is (server_step E i s)) = sv_models (server_step E i s)" using Cons by simp
  ultimately show ?case by (simp add: server_run_def)
qed (simp add: server_run_def)



text \<open>
  A model that is named twice gets two workers; the second one takes its place in the store, the first one
  sees its channel of chats closed and ends, and with it the model leaves the store.
\<close>

lemma repeated_model_leaves_store:
  assumes "start_http_server demo_server_env (Gateway ''key'' [''phi3'', ''phi3'']) = Inr (app, s)"
    and "s' = server_run demo_server_env [TaskLoaded 0, TaskLoaded 1, TaskChat 0, TaskExit 0] s"
  shows "vec_get (sv_tasks s') 1 = Some (Running demo_spec (demo_runner (mk_range 0 0))) \<and> store_model (sv_store s') ''phi3'' = None"
proof -
  have "s = spawn_worker ''phi3'' 0 0 demo_wallet (spawn_worker ''phi3'' 0 0 demo_wallet server_new)"
    using assms(1) by (simp add: start_http_server_def demo_init)
  then show ?thesis
    using assms(2) by (simp add: server_run_def spawn_worker_def server_new_def push_back_def vec_get_def task_loaded_def demo_loads set_task_def add_model_def
        task_chat_def task_exit_def remove_model_def store_model_def demo_spec_def model_entry_def)
qed

end
